(* ===== verification/Prelude.thy ===== *)
theory Prelude
  imports Main
begin

text \<open>
  Shared vocabulary of the development: the Go error values (sentinels, formatted and wrapped
  errors, \<open>errors.Is\<close>), operations that return a value or an error together with the next
  state, 64-bit wrap-around of the Go integer type, and the small facts on lists that the tables
  of the store need.  The collections \<open>op_simps\<close> (how an operation unfolds) and
  \<open>frame\<close> (what an operation leaves alone) carry the component proofs.
\<close>

named_theorems op_simps "unfolding rules of the error-and-state operations"
named_theorems frame "state components an operation leaves unchanged"

section \<open>Go error values\<close>

text \<open>
  The sentinel variables of the packages, and what \<open>fmt.Errorf\<close> builds from them.  A
  database error carries its SQLSTATE; any other error is a plain text.
\<close>

datatype sentinel =
    ErrInvalidTransition
  | ErrSoldOut
  | ErrReservationNotExpired
  | ErrInvalidQuantity
  | ErrNotEnoughReserved
  | ErrSaleNotOpen
  | ErrInvalidID
  | ErrConflict
  | ErrNotFound
  | ErrNotWired
  | ErrContextNotFound
  | ErrDuplicatePayment
  | ErrPaymentNotFound
  | ErrNotOwner
  | ErrNoHandler
  | ErrNoTransaction

datatype err =
    Sentinel sentinel
  | PgError string
  | Plain string
  | Wrapped string err string

fun errors_is :: "err \<Rightarrow> sentinel \<Rightarrow> bool" where
  "errors_is (Sentinel s) t = (s = t)"
| "errors_is (PgError _) t = False"
| "errors_is (Plain _) t = False"
| "errors_is (Wrapped _ e _) t = errors_is e t"

text \<open>An error chain holds at most one sentinel, so two different tests never both succeed.\<close>

lemma errors_is_unique: "errors_is e s \<Longrightarrow> errors_is e t \<Longrightarrow> s = t"
  by (induction e) auto

text \<open>The texts of \<open>Error()\<close>; a database error shows at least its SQLSTATE.\<close>

fun sentinel_text :: "sentinel \<Rightarrow> string" where
  "sentinel_text ErrInvalidTransition = ''invalid state transition''"
| "sentinel_text ErrSoldOut = ''event sold out''"
| "sentinel_text ErrReservationNotExpired = ''reservation not expired yet''"
| "sentinel_text ErrInvalidQuantity = ''quantity must be positive''"
| "sentinel_text ErrNotEnoughReserved = ''not enough reserved units''"
| "sentinel_text ErrSaleNotOpen = ''sale is not open''"
| "sentinel_text ErrInvalidID = ''invalid reservation id''"
| "sentinel_text ErrConflict = ''resource conflict''"
| "sentinel_text ErrNotFound = ''resource not found''"
| "sentinel_text ErrNotWired = ''payment processor is not wired''"
| "sentinel_text ErrContextNotFound = ''reservation context not found''"
| "sentinel_text ErrDuplicatePayment = ''payment idempotency key already registered''"
| "sentinel_text ErrPaymentNotFound = ''payment not found''"
| "sentinel_text ErrNotOwner = ''payment submitted by non-owner''"
| "sentinel_text ErrNoHandler = ''eventbus: no handler for subject''"
| "sentinel_text ErrNoTransaction = ''pgtx: no transaction in context''"

fun err_text :: "err \<Rightarrow> string" where
  "err_text (Sentinel s) = sentinel_text s"
| "err_text (PgError code) = ''ERROR: (SQLSTATE '' @ code @ '')''"
| "err_text (Plain s) = s"
| "err_text (Wrapped before e after) = before @ err_text e @ after"

section \<open>Operations\<close>

text \<open>
  A Go method that returns \<open>(T, error)\<close> and acts on shared state is an operation: from a
  state to a result and the next state.  \<open>andThen\<close> is the \<open>if err != nil { return }\<close>
  chain; \<open>onResult\<close> hands the raw result to the code that inspects the error.
\<close>

type_synonym ('s, 'a) op = "'s \<Rightarrow> (err + 'a) \<times> 's"

definition ok :: "'a \<Rightarrow> ('s, 'a) op" where
  "ok a s = (Inr a, s)"

definition fail :: "err \<Rightarrow> ('s, 'a) op" where
  "fail e s = (Inl e, s)"

definition andThen :: "('s, 'a) op \<Rightarrow> ('a \<Rightarrow> ('s, 'b) op) \<Rightarrow> ('s, 'b) op" where
  "andThen m f s = (case m s of (Inl e, s') \<Rightarrow> (Inl e, s') | (Inr a, s') \<Rightarrow> f a s')"

definition onResult :: "('s, 'a) op \<Rightarrow> (err + 'a \<Rightarrow> ('s, 'b) op) \<Rightarrow> ('s, 'b) op" where
  "onResult m h s = (case m s of (r, s') \<Rightarrow> h r s')"

definition reading :: "('s \<Rightarrow> 'a \<times> 's) \<Rightarrow> ('a \<Rightarrow> ('s, 'b) op) \<Rightarrow> ('s, 'b) op" where
  "reading g f s = (case g s of (a, s') \<Rightarrow> f a s')"

definition wrapErr :: "(err \<Rightarrow> err) \<Rightarrow> ('s, 'a) op \<Rightarrow> ('s, 'a) op" where
  "wrapErr w m s = (case m s of (Inl e, s') \<Rightarrow> (Inl (w e), s') | (Inr a, s') \<Rightarrow> (Inr a, s'))"

lemma ok_run [op_simps, simp]: "ok a s = (Inr a, s)"
  by (simp add: ok_def)

lemma fail_run [op_simps, simp]: "fail e s = (Inl e, s)"
  by (simp add: fail_def)

lemma andThen_Inr [op_simps]:
  "andThen m f s = (Inr b, s') \<longleftrightarrow> (\<exists>a s1. m s = (Inr a, s1) \<and> f a s1 = (Inr b, s'))"
  by (auto simp: andThen_def split: prod.splits sum.splits)

lemma andThen_Inl [op_simps]:
  "andThen m f s = (Inl e, s') \<longleftrightarrow>
     m s = (Inl e, s') \<or> (\<exists>a s1. m s = (Inr a, s1) \<and> f a s1 = (Inl e, s'))"
  by (auto simp: andThen_def split: prod.splits sum.splits)

lemma andThen_step: "m s = (Inr a, s1) \<Longrightarrow> andThen m f s = f a s1"
  by (simp add: andThen_def)

lemma andThen_stop: "m s = (Inl e, s1) \<Longrightarrow> andThen m f s = (Inl e, s1)"
  by (simp add: andThen_def)

lemma andThen_ok [simp]: "andThen (ok a) f s = f a s"
  by (simp add: andThen_def)

lemma andThen_fail [simp]: "andThen (fail e) f s = (Inl e, s)"
  by (simp add: andThen_def)

lemma onResult_run [op_simps]:
  "onResult m h s = (r, s') \<longleftrightarrow> (\<exists>x s1. m s = (x, s1) \<and> h x s1 = (r, s'))"
  by (auto simp: onResult_def split: prod.splits)

lemma onResult_step: "m s = (x, s1) \<Longrightarrow> onResult m h s = h x s1"
  by (simp add: onResult_def)

lemma reading_run [op_simps]:
  "reading g f s = (r, s') \<longleftrightarrow> (\<exists>a s1. g s = (a, s1) \<and> f a s1 = (r, s'))"
  by (auto simp: reading_def split: prod.splits)

lemma reading_step: "g s = (a, s1) \<Longrightarrow> reading g f s = f a s1"
  by (simp add: reading_def)

lemma andThen_InrE:
  assumes "andThen m f s = (Inr b, s')"
  obtains a s1 where "m s = (Inr a, s1)" "f a s1 = (Inr b, s')"
  using assms by (auto simp: andThen_Inr)

lemma reading_runE:
  assumes "reading g f s = (r, s')"
  obtains a s1 where "g s = (a, s1)" "f a s1 = (r, s')"
  using assms by (auto simp: reading_run)

lemma wrapErr_Inr [op_simps, simp]: "wrapErr w m s = (Inr a, s') \<longleftrightarrow> m s = (Inr a, s')"
  by (auto simp: wrapErr_def split: prod.splits sum.splits)

lemma wrapErr_Inl [op_simps]:
  "wrapErr w m s = (Inl e, s') \<longleftrightarrow> (\<exists>e0. m s = (Inl e0, s') \<and> e = w e0)"
  by (auto simp: wrapErr_def split: prod.splits sum.splits)

section \<open>Go integers\<close>

text \<open>Go's \<open>int\<close> and \<open>int64\<close> are 64-bit two's complement: arithmetic wraps around.\<close>

definition wrap64 :: "int \<Rightarrow> int" where
  "wrap64 x = (x + 9223372036854775808) mod 18446744073709551616 - 9223372036854775808"

definition int64 :: "int \<Rightarrow> bool" where
  "int64 x \<longleftrightarrow> -9223372036854775808 \<le> x \<and> x \<le> 9223372036854775807"

lemma wrap64_id [simp]: "int64 x \<Longrightarrow> wrap64 x = x"
  by (simp add: wrap64_def int64_def)

lemma int64_wrap64 [simp]: "int64 (wrap64 x)"
proof -
  let ?m = "(x + 9223372036854775808) mod (18446744073709551616::int)"
  have "0 \<le> ?m" and "?m < 18446744073709551616" by simp_all
  then show ?thesis by (simp add: wrap64_def int64_def)
qed

section \<open>Lists as tables\<close>

text \<open>Replacing the one row of a table that has a given key moves a sum by that row alone.\<close>

lemma sum_list_replace:
  fixes f :: "'a \<Rightarrow> int"
  assumes "distinct (map k rs)" and "r \<in> set rs"
  shows "sum_list (map f (map (\<lambda>x. if k x = k r then g x else x) rs))
           = sum_list (map f rs) - f r + f (g r)"
  using assms
proof (induction rs)
  case Nil
  then show ?case by simp
next
  case (Cons x xs)
  show ?case
  proof (cases "k x = k r")
    case True
    with Cons.prems have "x = r" by (auto simp: image_iff)
    with Cons.prems have "\<forall>y\<in>set xs. k y \<noteq> k r" by (auto simp: image_iff)
    then have "map (\<lambda>x. if k x = k r then g x else x) xs = xs"
      by (simp add: map_idI)
    with True \<open>x = r\<close> show ?thesis by simp
  next
    case False
    with Cons show ?thesis by auto
  qed
qed

lemma term_le_sum:
  fixes f :: "'a \<Rightarrow> int"
  assumes "\<forall>x\<in>set xs. 0 \<le> f x" and "r \<in> set xs"
  shows "f r \<le> sum_list (map f xs)"
  using assms
proof (induction xs)
  case (Cons x xs)
  then have "0 \<le> sum_list (map f xs)" by (intro sum_list_nonneg) auto
  with Cons show ?case by (cases "x = r") auto
qed simp

lemma distinct_key_eq:
  "distinct (map k rs) \<Longrightarrow> x \<in> set rs \<Longrightarrow> y \<in> set rs \<Longrightarrow> k x = k y \<Longrightarrow> x = y"
  by (metis distinct_map inj_on_eq_iff)

lemma find_SomeD: "find P xs = Some x \<Longrightarrow> x \<in> set xs \<and> P x"
  by (auto simp: find_Some_iff)

lemma find_key:
  "distinct (map k rs) \<Longrightarrow> r \<in> set rs \<Longrightarrow> find (\<lambda>x. k x = k r) rs = Some r"
  by (induction rs) auto

lemma map_replace_key:
  "(\<And>x. k (g x) = k x) \<Longrightarrow> map k (map (\<lambda>x. if c x then g x else x) rs) = map k rs"
  by (induction rs) auto

lemma count_list_map_replace:
  "\<forall>x\<in>set rs. \<not> c x \<Longrightarrow> map (\<lambda>x. if c x then g x else x) rs = rs"
  by (simp add: map_idI)

end
