(* ===== verification/Go_Time.thy ===== *)
theory Go_Time
  imports Go_Text "HOL-Library.Monad_Syntax"
begin

text \<open>
  Go's \<open>time\<close> package as far as the services use it: an instant is its number of nanoseconds
  since the Unix epoch (UTC), a duration is a 64-bit number of nanoseconds.  The text form of an
  instant in JSON is RFC 3339 with nanoseconds; the calendar of \<open>Format\<close> and \<open>Parse\<close> is
  written out, and the two are inverse on the years 0 to 9999 that the encoder accepts.
\<close>

section \<open>Durations and instants\<close>

type_synonym instant = int
type_synonym duration = int

definition millisecond :: duration where "millisecond = 1000000"
definition second :: duration where "second = 1000000000"
definition minute :: duration where "minute = 60 * second"
definition hour :: duration where "hour = 60 * minute"

lemmas duration_defs = millisecond_def second_def minute_def hour_def

definition time_after :: "instant \<Rightarrow> instant \<Rightarrow> bool" where
  "time_after t u \<longleftrightarrow> u < t"

definition time_before :: "instant \<Rightarrow> instant \<Rightarrow> bool" where
  "time_before t u \<longleftrightarrow> t < u"

definition time_add :: "instant \<Rightarrow> duration \<Rightarrow> instant" where
  "time_add t d = t + d"

text \<open>\<open>Time.Sub\<close> saturates at the largest and smallest duration.\<close>

definition time_sub :: "instant \<Rightarrow> instant \<Rightarrow> duration" where
  "time_sub t u = max (-9223372036854775808) (min 9223372036854775807 (t - u))"

lemmas time_defs = time_after_def time_before_def time_add_def time_sub_def

section \<open>Civil calendar\<close>

text \<open>Days are counted from 0001-01-01; 1970-01-01 is day 719162.\<close>

definition leap :: "int \<Rightarrow> bool" where
  "leap y \<longleftrightarrow> y mod 4 = 0 \<and> (y mod 100 \<noteq> 0 \<or> y mod 400 = 0)"

definition days_before_year :: "int \<Rightarrow> int" where
  "days_before_year y = (let p = y - 1 in 365 * p + p div 4 - p div 100 + p div 400)"

definition year_yday :: "int \<Rightarrow> int \<times> int" where
  "year_yday d =
     (let n400 = d div 146097; d1 = d mod 146097;
          n100 = min 3 (d1 div 36524); d2 = d1 - 36524 * n100;
          n4 = d2 div 1461; d3 = d2 mod 1461;
          n1 = min 3 (d3 div 365)
      in (1 + 400 * n400 + 100 * n100 + 4 * n4 + n1, d3 - 365 * n1))"

definition month_start :: "bool \<Rightarrow> int \<Rightarrow> int" where
  "month_start lp m =
     (if m \<le> 1 then 0 else if m = 2 then 31 else
      (if m = 3 then 59 else if m = 4 then 90 else if m = 5 then 120 else if m = 6 then 151
       else if m = 7 then 181 else if m = 8 then 212 else if m = 9 then 243
       else if m = 10 then 273 else if m = 11 then 304 else if m = 12 then 334 else 365)
      + (if lp then 1 else 0))"

definition month_day :: "bool \<Rightarrow> int \<Rightarrow> int \<times> int" where
  "month_day lp yd =
     (let m = (if yd < month_start lp 2 then 1 else if yd < month_start lp 3 then 2
               else if yd < month_start lp 4 then 3 else if yd < month_start lp 5 then 4
               else if yd < month_start lp 6 then 5 else if yd < month_start lp 7 then 6
               else if yd < month_start lp 8 then 7 else if yd < month_start lp 9 then 8
               else if yd < month_start lp 10 then 9 else if yd < month_start lp 11 then 10
               else if yd < month_start lp 12 then 11 else 12)
      in (m, yd - month_start lp m + 1))"

lemma year_split:
  assumes "d = 146097 * a + 36524 * b + 1461 * c + 365 * e + r"
    and "0 \<le> b" "b \<le> 3" "0 \<le> c" "c \<le> 24" "0 \<le> e" "e \<le> 3"
  shows "days_before_year (1 + 400 * a + 100 * b + 4 * c + e) = d - r"
proof -
  let ?p = "400 * a + 100 * b + 4 * c + e"
  have "?p div 4 = 100 * a + 25 * b + c"
    by (rule int_div_pos_eq [where r = e]) (use assms in simp_all)
  moreover have "?p div 100 = 4 * a + b"
    by (rule int_div_pos_eq [where r = "4 * c + e"]) (use assms in simp_all)
  moreover have "?p div 400 = a"
    by (rule int_div_pos_eq [where r = "100 * b + 4 * c + e"]) (use assms in simp_all)
  moreover have "days_before_year (1 + ?p) = 365 * ?p + ?p div 4 - ?p div 100 + ?p div 400"
    by (simp only: days_before_year_def Let_def add_diff_cancel_left')
  ultimately have "days_before_year (1 + ?p) = 365 * ?p + (100 * a + 25 * b + c) - (4 * a + b) + a"
    by (simp only:)
  also have "\<dots> = d - r" using assms(1) by simp
  finally have "days_before_year (1 + ?p) = d - r" .
  then show ?thesis by (simp only: add.assoc)
qed

text \<open>A quotient capped at 3 leaves a remainder that only the last block can fill.\<close>

lemma capped_quotient:
  fixes x n :: int
  assumes "0 \<le> x" and "0 < n"
  defines "q \<equiv> min 3 (x div n)"
  shows "0 \<le> q" "q \<le> 3" "0 \<le> x - n * q" and "q < 3 \<Longrightarrow> x - n * q < n"
proof -
  have x: "x = n * (x div n) + x mod n" by simp
  have m: "0 \<le> x mod n" "x mod n < n" using assms by simp_all
  have d: "0 \<le> x div n" using assms by (simp add: pos_imp_zdiv_nonneg_iff)
  then show "0 \<le> q" "q \<le> 3" by (simp_all add: q_def)
  have "n * q \<le> n * (x div n)" using assms by (simp add: q_def)
  then show "0 \<le> x - n * q" using x m by linarith
  assume "q < 3"
  then have "q = x div n" by (simp add: q_def min_def split: if_splits)
  then have "x - n * q = x mod n" by (simp add: minus_mult_div_eq_mod)
  with m show "x - n * q < n" by simp
qed

lemma year_yday_bounds:
  fixes d :: int
  defines "b \<equiv> min 3 (d mod 146097 div 36524)"
  defines "d2 \<equiv> d mod 146097 - 36524 * b"
  defines "e \<equiv> min 3 (d2 mod 1461 div 365)"
  shows "0 \<le> b" "b \<le> 3" "0 \<le> d2 div 1461" "d2 div 1461 \<le> 24" "0 \<le> e" "e \<le> 3"
    and "0 \<le> d2 mod 1461 - 365 * e" "d2 mod 1461 - 365 * e \<le> 365"
    and "d2 mod 1461 - 365 * e = 365 \<Longrightarrow> e = 3 \<and> (d2 div 1461 < 24 \<or> b = 3)"
proof -
  have d1: "0 \<le> d mod 146097" "d mod 146097 < 146097" by simp_all
  note B = capped_quotient [OF d1(1), of 36524, folded b_def, folded d2_def]
  show b: "0 \<le> b" "b \<le> 3" using B by simp_all
  have d2: "0 \<le> d2" "b < 3 \<Longrightarrow> d2 < 36524" using B by simp_all
  have d2': "d2 \<le> 36524"
  proof (cases "b < 3")
    case False
    with b d1(2) show ?thesis by (simp add: d2_def)
  qed (use d2 in simp)
  show "0 \<le> d2 div 1461" using d2(1) by (simp add: pos_imp_zdiv_nonneg_iff)
  have "d2 div 1461 \<le> 36524 div 1461" using d2' by (rule zdiv_mono1) simp
  then show "d2 div 1461 \<le> 24" by simp
  have d3: "0 \<le> d2 mod 1461" "d2 mod 1461 < 1461" by simp_all
  note E = capped_quotient [OF d3(1), of 365, folded e_def]
  show e: "0 \<le> e" "e \<le> 3" and "0 \<le> d2 mod 1461 - 365 * e" using E by simp_all
  show "d2 mod 1461 - 365 * e \<le> 365"
  proof (cases "e < 3")
    case False
    with e d3(2) show ?thesis by simp
  qed (use E in simp)
  assume full: "d2 mod 1461 - 365 * e = 365"
  with E(4) e have "e = 3" by fastforce
  with full have m: "d2 mod 1461 = 1460" by simp
  have "d2 div 1461 < 24 \<or> b = 3"
  proof (rule ccontr)
    assume "\<not> (d2 div 1461 < 24 \<or> b = 3)"
    then have "b < 3" and "24 \<le> d2 div 1461" using b by auto
    then have "36524 \<le> d2" using m mult_div_mod_eq [of 1461 d2] by linarith
    with d2(2) \<open>b < 3\<close> show False by simp
  qed
  with \<open>e = 3\<close> show "e = 3 \<and> (d2 div 1461 < 24 \<or> b = 3)" by simp
qed

lemma days_year_yday:
  assumes "year_yday d = (y, yd)"
  shows "days_before_year y + yd = d"
    and "0 \<le> yd" and "yd < (if leap y then 366 else 365)"
proof -
  define a where "a = d div 146097"
  define b where "b = min 3 (d mod 146097 div 36524)"
  define d2 where "d2 = d mod 146097 - 36524 * b"
  define c where "c = d2 div 1461"
  define e where "e = min 3 (d2 mod 1461 div 365)"
  note bd = year_yday_bounds [of d, folded b_def, folded d2_def, folded c_def e_def]
  have y: "y = 1 + 400 * a + 100 * b + 4 * c + e" and yd: "yd = d2 mod 1461 - 365 * e"
    using assms unfolding year_yday_def Let_def a_def b_def c_def d2_def e_def
    by (simp_all only: prod.inject)
  have "d = 146097 * a + d mod 146097" and "d2 = 1461 * c + d2 mod 1461"
    by (simp_all add: a_def c_def)
  then have "d = 146097 * a + 36524 * b + 1461 * c + 365 * e + yd"
    unfolding yd by (simp add: d2_def)
  from year_split [OF this] bd show "days_before_year y + yd = d" by (simp add: y)
  show "0 \<le> yd" using bd(7) by (simp add: yd)
  show "yd < (if leap y then 366 else 365)"
  proof (cases "yd = 365")
    case False
    with bd(8) yd show ?thesis by simp
  next
    case True
    with bd(9) yd have e: "e = 3" and c: "c < 24 \<or> b = 3" by simp_all
    have y': "y = 400 * a + 100 * b + 4 * (c + 1)" using y e by simp
    have "y mod 4 = 0"
      by (rule int_mod_pos_eq [where q = "100 * a + 25 * b + (c + 1)"]) (use y' in simp_all)
    moreover have "y mod 100 \<noteq> 0 \<or> y mod 400 = 0"
    proof (cases "c < 24")
      case True
      have "y mod 100 = 4 * (c + 1)"
        by (rule int_mod_pos_eq [where q = "4 * a + b"]) (use True bd(3) y' in simp_all)
      then show ?thesis using bd(3) by simp
    next
      case False
      with bd(4) have "c = 24" by simp
      with c y' have "y = 400 * (a + 1)" by simp
      then show ?thesis by simp
    qed
    ultimately show ?thesis using True by (simp add: leap_def)
  qed
qed

lemma month_start_simps [simp]:
  "month_start lp 1 = 0" "month_start lp 2 = 31"
  "month_start lp 3 = 59 + of_bool lp" "month_start lp 4 = 90 + of_bool lp"
  "month_start lp 5 = 120 + of_bool lp" "month_start lp 6 = 151 + of_bool lp"
  "month_start lp 7 = 181 + of_bool lp" "month_start lp 8 = 212 + of_bool lp"
  "month_start lp 9 = 243 + of_bool lp" "month_start lp 10 = 273 + of_bool lp"
  "month_start lp 11 = 304 + of_bool lp" "month_start lp 12 = 334 + of_bool lp"
  "month_start lp 13 = 365 + of_bool lp"
  by (simp_all add: month_start_def)

lemma month_day_correct:
  assumes "month_day lp yd = (m, dy)" and "0 \<le> yd" and "yd < (if lp then 366 else 365)"
  shows "1 \<le> m \<and> m \<le> 12 \<and> 1 \<le> dy \<and> dy \<le> month_start lp (m + 1) - month_start lp m
    \<and> month_start lp m + dy - 1 = yd"
proof (cases lp)
  case True
  with assms show ?thesis
    by (auto simp: month_day_def Let_def split: if_split_asm)
next
  case False
  with assms show ?thesis
    by (auto simp: month_day_def Let_def split: if_split_asm)
qed

section \<open>RFC 3339 text\<close>

definition pad2 :: "nat \<Rightarrow> string" where
  "pad2 n = [digit (n div 10), digit n]"

definition two :: "string \<Rightarrow> nat \<Rightarrow> nat option" where
  "two s i = do { a \<leftarrow> digit_val (s ! i); b \<leftarrow> digit_val (s ! (i + 1)); Some (10 * a + b) }"

lemma digit_mod [simp]: "digit (n mod 10) = digit n"
  by (simp add: digit_def)

lemma digit_val_digit_mod [simp]: "digit_val (digit n) = Some (n mod 10)"
  using digit_val_digit [of "n mod 10"] by simp

text \<open>Nine digits of nanoseconds, trailing zeros dropped on output and filled in on input.\<close>

fun fixed_digits :: "nat \<Rightarrow> int \<Rightarrow> string" where
  "fixed_digits 0 n = []"
| "fixed_digits (Suc k) n = fixed_digits k (n div 10) @ [digit (nat (n mod 10))]"

definition trim_zeros :: "string \<Rightarrow> string" where
  "trim_zeros s = rev (dropWhile (\<lambda>c. c = CHR ''0'') (rev s))"

definition frac_text :: "int \<Rightarrow> string" where
  "frac_text ns = (if ns = 0 then [] else CHR ''.'' # trim_zeros (fixed_digits 9 ns))"

definition pad9 :: "string \<Rightarrow> string" where
  "pad9 ds = take 9 (ds @ replicate 9 (CHR ''0''))"

definition split_frac :: "string \<Rightarrow> int option \<times> string" where
  "split_frac s =
     (case s of c # c2 # t \<Rightarrow>
        if c = CHR ''.'' \<and> digit_val c2 \<noteq> None
        then (digits_val 0 (pad9 (takeWhile (\<lambda>x. digit_val x \<noteq> None) (c2 # t))),
              dropWhile (\<lambda>x. digit_val x \<noteq> None) (c2 # t))
        else (Some 0, s)
      | _ \<Rightarrow> (Some 0, s))"

text \<open>The zone: \<open>Z\<close>, or a signed offset \<open>hh:mm\<close>, in seconds east of UTC.\<close>

definition parse_zone :: "string \<Rightarrow> int option" where
  "parse_zone z =
     (if z = ''Z'' then Some 0
      else if length z = 6 \<and> (z ! 0 = CHR ''+'' \<or> z ! 0 = CHR ''-'') \<and> z ! 3 = CHR '':''
      then do {
        h \<leftarrow> two z 1; m \<leftarrow> two z 4;
        if h < 24 \<and> m < 60
        then Some ((if z ! 0 = CHR ''-'' then -1 else 1) * int (3600 * h + 60 * m))
        else None }
      else None)"

definition format_rfc3339 :: "instant \<Rightarrow> string" where
  "format_rfc3339 t =
     (let s = t div 1000000000; ns = t mod 1000000000;
          sod = s mod 86400;
          (y, yd) = year_yday (s div 86400 + 719162);
          (m, dy) = month_day (leap y) yd
      in pad2 (nat (y div 100)) @ pad2 (nat (y mod 100)) @ ''-'' @ pad2 (nat m) @ ''-'' @ pad2 (nat dy)
         @ ''T'' @ pad2 (nat (sod div 3600)) @ '':'' @ pad2 (nat (sod div 60 mod 60)) @ '':''
         @ pad2 (nat (sod mod 60)) @ frac_text ns @ ''Z'')"

definition parse_rfc3339 :: "string \<Rightarrow> instant option" where
  "parse_rfc3339 s =
     (if 20 \<le> length s \<and> s ! 4 = CHR ''-'' \<and> s ! 7 = CHR ''-'' \<and> s ! 10 = CHR ''T''
         \<and> s ! 13 = CHR '':'' \<and> s ! 16 = CHR '':''
      then do {
        y1 \<leftarrow> two s 0; y2 \<leftarrow> two s 2; m \<leftarrow> two s 5; dy \<leftarrow> two s 8;
        hh \<leftarrow> two s 11; mi \<leftarrow> two s 14; ss \<leftarrow> two s 17;
        let y = int (100 * y1 + y2);
        if 1 \<le> m \<and> m \<le> 12 \<and> 1 \<le> dy
           \<and> int dy \<le> month_start (leap y) (int m + 1) - month_start (leap y) (int m)
           \<and> hh < 24 \<and> mi < 60 \<and> ss < 60
        then do {
          let (frac, z) = split_frac (drop 19 s);
          ns \<leftarrow> frac;
          off \<leftarrow> parse_zone z;
          let days = days_before_year y + month_start (leap y) (int m) + int dy - 1 - 719162;
          Some (1000000000 * (86400 * days + int (3600 * hh + 60 * mi + ss) - off) + ns) }
        else None }
      else None)"

text \<open>The years the JSON encoder accepts.\<close>

definition year_of :: "instant \<Rightarrow> int" where
  "year_of t = fst (year_yday (t div 1000000000 div 86400 + 719162))"

lemma length_fixed_digits [simp]: "length (fixed_digits k n) = k"
  by (induction k arbitrary: n) auto

lemma fixed_digits_digits: "c \<in> set (fixed_digits k n) \<Longrightarrow> digit_val c \<noteq> None"
  by (induction k arbitrary: n) auto

lemma digits_val_fixed:
  "0 \<le> n \<Longrightarrow> digits_val acc (fixed_digits k n) = Some (acc * 10 ^ k + n mod 10 ^ k)"
proof (induction k arbitrary: n)
  case 0
  then show ?case by simp
next
  case (Suc k)
  then have "0 \<le> n div 10" by simp
  with Suc.IH have "digits_val acc (fixed_digits k (n div 10)) = Some (acc * 10 ^ k + n div 10 mod 10 ^ k)"
    by blast
  moreover have "n mod 10 ^ Suc k = 10 * (n div 10 mod 10 ^ k) + n mod 10"
    by (simp add: zmod_zmult2_eq)
  moreover have "int (nat (n mod 10) mod 10) = n mod 10" by simp
  ultimately show ?case by (simp add: digits_val_append)
qed

lemma trim_zeros_refill:
  "trim_zeros s @ replicate (length s - length (trim_zeros s)) (CHR ''0'') = s"
proof -
  let ?z = "takeWhile (\<lambda>c. c = CHR ''0'') (rev s)" and ?r = "dropWhile (\<lambda>c. c = CHR ''0'') (rev s)"
  have "?z = replicate (length ?z) (CHR ''0'')"
    by (rule sym, rule replicate_length_same) (auto dest: set_takeWhileD)
  moreover have "s = rev ?r @ rev ?z"
    by (metis rev_append rev_rev_ident takeWhile_dropWhile_id)
  moreover have "length s - length (rev ?r) = length ?z"
    by (metis diff_add_inverse length_append length_rev add.commute takeWhile_dropWhile_id)
  ultimately show ?thesis
    by (metis rev_replicate trim_zeros_def)
qed

lemma set_trim_zeros: "set (trim_zeros s) \<subseteq> set s"
  by (auto simp: trim_zeros_def dest: set_dropWhileD)

lemma pad9_trim: "length s = 9 \<Longrightarrow> pad9 (trim_zeros s) = s"
proof -
  assume len: "length s = 9"
  have "length (trim_zeros s) \<le> 9"
    using trim_zeros_refill [of s] len by (metis le_add1 length_append)
  then have "pad9 (trim_zeros s) = trim_zeros s @ replicate (9 - length (trim_zeros s)) (CHR ''0'')"
    by (simp add: pad9_def)
  then show ?thesis using trim_zeros_refill [of s] len by simp
qed

lemma Z_not_digit [simp]: "digit_val (CHR ''Z'') = None"
  by (simp add: digit_val_def Let_def)

lemma split_frac_dot:
  assumes "ds \<noteq> []" and "\<forall>c\<in>set ds. digit_val c \<noteq> None"
  shows "split_frac (CHR ''.'' # ds @ ''Z'') = (digits_val 0 (pad9 ds), ''Z'')"
proof (cases ds)
  case (Cons c t)
  with assms(2) have "takeWhile (\<lambda>x. digit_val x \<noteq> None) (ds @ ''Z'') = ds"
    and "dropWhile (\<lambda>x. digit_val x \<noteq> None) (ds @ ''Z'') = ''Z''"
    by (simp_all add: takeWhile_append dropWhile_append)
  with Cons assms(2) show ?thesis by (simp add: split_frac_def)
qed (use assms in simp)

lemma split_frac_text:
  assumes "0 \<le> ns" and "ns < 1000000000"
  shows "split_frac (frac_text ns @ ''Z'') = (Some ns, ''Z'')"
proof (cases "ns = 0")
  case True
  then show ?thesis by (simp add: frac_text_def split_frac_def)
next
  case False
  define ds where "ds = fixed_digits 9 ns"
  have len: "length ds = 9" by (simp add: ds_def)
  have val: "digits_val 0 ds = Some ns" using digits_val_fixed [of ns 0 9] assms by (simp add: ds_def)
  have dig: "\<forall>c\<in>set (trim_zeros ds). digit_val c \<noteq> None"
    using set_trim_zeros fixed_digits_digits unfolding ds_def by blast
  have "trim_zeros ds \<noteq> []"
  proof
    assume "trim_zeros ds = []"
    then have "ds = replicate 9 (CHR ''0'')" using trim_zeros_refill [of ds] len by simp
    then have "digits_val 0 ds = Some 0"
      by (simp add: eval_nat_numeral digit_val_def)
    with val False show False by simp
  qed
  from split_frac_dot [OF this dig] show ?thesis
    using False val pad9_trim [OF len] by (simp add: frac_text_def ds_def)
qed

lemma two_digits:
  assumes "s ! i = digit (n div 10)" and "s ! (i + 1) = digit n" and "n < 100"
  shows "two s i = Some n"
proof -
  from \<open>n < 100\<close> have "n div 10 < 10" by simp
  with assms show ?thesis by (simp add: two_def)
qed

text \<open>The fixed part of the text, read field by field.\<close>

lemma parse_fields:
  assumes bounds: "y < 10000" "1 \<le> m" "m \<le> 12" "1 \<le> dy" "dy < 100"
      "hh < 24" "mi < 60" "ss < 60"
    and dom: "int dy \<le> month_start (leap (int y)) (int m + 1) - month_start (leap (int y)) (int m)"
    and rest: "split_frac r = (Some ns, z)" "parse_zone z = Some off" "r \<noteq> []"
  shows "parse_rfc3339 (pad2 (y div 100) @ pad2 (y mod 100) @ ''-'' @ pad2 m @ ''-'' @ pad2 dy @ ''T''
           @ pad2 hh @ '':'' @ pad2 mi @ '':'' @ pad2 ss @ r)
         = Some (1000000000 * (86400 * (days_before_year (int y)
               + month_start (leap (int y)) (int m) + int dy - 1 - 719162)
             + int (3600 * hh + 60 * mi + ss) - off) + ns)"
    (is "parse_rfc3339 ?s = _")
proof -
  have fields: "parse_rfc3339 S = Some (1000000000 * (86400 * (days_before_year (int y)
        + month_start (leap (int y)) (int m) + int dy - 1 - 719162)
        + int (3600 * hh + 60 * mi + ss) - off) + ns)"
    if "two S 0 = Some (y div 100)" "two S 2 = Some (y mod 100)" "two S 5 = Some m"
      "two S 8 = Some dy" "two S 11 = Some hh" "two S 14 = Some mi" "two S 17 = Some ss"
      "drop 19 S = r" "20 \<le> length S" "S ! 4 = CHR ''-''" "S ! 7 = CHR ''-''" "S ! 10 = CHR ''T''"
      "S ! 13 = CHR '':''" "S ! 16 = CHR '':''" for S
  proof -
    have "100 * int (y div 100) + int (y mod 100) = int y" by presburger
    with that bounds dom rest show ?thesis
      by (simp add: parse_rfc3339_def Let_def)
  qed
  show ?thesis
    by (rule fields) (use bounds rest(3) in \<open>auto intro!: two_digits simp: pad2_def Suc_le_eq\<close>)
qed

lemma month_length:
  fixes m :: int
  assumes "1 \<le> m" and "m \<le> 12"
  shows "month_start lp (m + 1) - month_start lp m \<le> 31"
proof -
  from assms have "m = 1 \<or> m = 2 \<or> m = 3 \<or> m = 4 \<or> m = 5 \<or> m = 6 \<or> m = 7
    \<or> m = 8 \<or> m = 9 \<or> m = 10 \<or> m = 11 \<or> m = 12" by presburger
  then show ?thesis by (elim disjE) simp_all
qed

text \<open>Reading back a formatted instant gives that instant.\<close>

lemma parse_format:
  assumes "0 \<le> year_of t" and "year_of t \<le> 9999"
  shows "parse_rfc3339 (format_rfc3339 t) = Some t"
proof -
  define s where "s = t div 1000000000"
  define ns where "ns = t mod 1000000000"
  define sod where "sod = s mod 86400"
  define d where "d = s div 86400 + 719162"
  obtain y yd where yy: "year_yday d = (y, yd)" by fastforce
  obtain m dy where mm: "month_day (leap y) yd = (m, dy)" by fastforce
  note Y = days_year_yday [OF yy]
  have M: "1 \<le> m" "m \<le> 12" "1 \<le> dy" "dy \<le> month_start (leap y) (m + 1) - month_start (leap y) m"
    "month_start (leap y) m + dy - 1 = yd"
    using month_day_correct [OF mm Y(2,3)] by simp_all
  have y: "0 \<le> y" "y \<le> 9999" using assms yy by (simp_all add: year_of_def d_def s_def)
  have ns: "0 \<le> ns" "ns < 1000000000" by (simp_all add: ns_def)
  have sod: "0 \<le> sod" "sod < 86400" by (simp_all add: sod_def)
  have "dy \<le> 31" using M(4) month_length [OF M(1,2), of "leap y"] by linarith
  let ?hh = "nat (sod div 3600)" and ?mi = "nat (sod div 60 mod 60)" and ?ss = "nat (sod mod 60)"
  have "sod div 3600 < 24" using sod by (simp add: div_less_iff_less_mult)
  have f1: "format_rfc3339 t = pad2 (nat y div 100) @ pad2 (nat y mod 100) @ ''-'' @ pad2 (nat m)
      @ ''-'' @ pad2 (nat dy) @ ''T'' @ pad2 ?hh @ '':'' @ pad2 ?mi @ '':'' @ pad2 ?ss
      @ frac_text ns @ ''Z''"
    using yy mm y
    by (simp add: format_rfc3339_def Let_def s_def ns_def sod_def d_def nat_div_distrib nat_mod_distrib)
  have n: "int (nat y) = y" "int (nat m) = m" "int (nat dy) = dy" using y M by simp_all
  have b: "nat y < 10000" "1 \<le> nat m" "nat m \<le> 12" "1 \<le> nat dy" "nat dy < 100"
    "?hh < 24" "?mi < 60" "?ss < 60"
    using y M(1-3) \<open>dy \<le> 31\<close> \<open>sod div 3600 < 24\<close> by simp_all
  have z: "parse_zone ''Z'' = Some 0" and ne: "frac_text ns @ ''Z'' \<noteq> []"
    by (simp_all add: parse_zone_def)
  have f2: "parse_rfc3339 (format_rfc3339 t) = Some (1000000000 * (86400 * (days_before_year y
      + month_start (leap y) m + dy - 1 - 719162) + int (3600 * ?hh + 60 * ?mi + ?ss) - 0) + ns)"
    unfolding f1
    by (rule parse_fields [OF b, unfolded n, OF M(4) split_frac_text [OF ns] z ne])
  have f3: "int (3600 * ?hh + 60 * ?mi + ?ss) = sod"
  proof -
    have "sod div 3600 = sod div 60 div 60" by (simp add: zdiv_zmult2_eq [of 60 sod 60, simplified])
    then have "3600 * (sod div 3600) + 60 * (sod div 60 mod 60) + sod mod 60 = sod"
      using mult_div_mod_eq [of 60 sod] mult_div_mod_eq [of 60 "sod div 60"] by linarith
    moreover have "0 \<le> sod div 3600" using sod by (simp add: pos_imp_zdiv_nonneg_iff)
    ultimately show ?thesis by simp
  qed
  have f4: "days_before_year y + month_start (leap y) m + dy - 1 - 719162 = s div 86400"
    using Y(1) M(5) by (simp add: d_def)
  have f5: "86400 * (s div 86400) + sod = s" and f6: "1000000000 * s + ns = t"
    by (simp_all add: sod_def s_def ns_def)
  show ?thesis unfolding f2 f3 f4 diff_zero f5 f6 ..
qed

end
