(* ===== verification/Runtime.thy ===== *)
theory Runtime
  imports Go_Time "HOL-Library.Word"
begin

unbundle bit_operations_syntax

text \<open>
  The process-wide effects every component uses: the wall clock, the random source behind
  \<open>uid.New\<close>, and the metric counters.  Also \<open>pkg/uid\<close>: the version 4 identifiers, byte by byte.
\<close>

section \<open>The world\<close>

text \<open>
  \<open>wall\<close> is what \<open>time.Now().UTC()\<close> reads; \<open>rng\<close> is the stream of random bytes and
  \<open>rng_pos\<close> the number already drawn; \<open>meter\<close> is the log of counter increments, each the
  instrument name followed by its label values, newest first.
\<close>

record world =
  wall :: instant
  rng :: "nat \<Rightarrow> 8 word"
  rng_pos :: nat
  meter :: "string list list"

definition count :: "string list \<Rightarrow> 'm world_scheme \<Rightarrow> 'm world_scheme" where
  "count c w = w\<lparr>meter := c # meter w\<rparr>"

lemma count_frame [frame, simp]:
  "wall (count c w) = wall w" "rng (count c w) = rng w" "rng_pos (count c w) = rng_pos w"
  "meter (count c w) = c # meter w" "world.more (count c w) = world.more w"
  by (simp_all add: count_def)

text \<open>\<open>counting c m\<close>: the code increments a counter and goes on with \<open>m\<close>.\<close>

definition counting :: "string list \<Rightarrow> ('m world_scheme, 'a) op \<Rightarrow> ('m world_scheme, 'a) op" where
  "counting c m w = m (count c w)"

lemma counting_run [simp]: "counting c m w = m (count c w)"
  by (simp add: counting_def)

section \<open>Contexts\<close>

text \<open>
  A \<open>context.Context\<close> is the instant at which it is cancelled, if it ever is.  \<open>await\<close> is the
  \<open>select\<close> between \<open>ctx.Done()\<close> and a timer: the earlier event decides.
\<close>

type_synonym go_context = "instant option"

definition await :: "go_context \<Rightarrow> duration \<Rightarrow> ('m world_scheme, unit) op" where
  "await ctx d w =
     (let fires = wall w + max 0 d in
      case ctx of
        Some t \<Rightarrow> if t \<le> fires then (Inl (Plain ''context canceled''), w\<lparr>wall := max (wall w) t\<rparr>)
                  else (Inr (), w\<lparr>wall := fires\<rparr>)
      | None \<Rightarrow> (Inr (), w\<lparr>wall := fires\<rparr>))"

lemma await_frame:
  "await ctx d w = (r, w') \<Longrightarrow> \<exists>t. w' = w\<lparr>wall := t\<rparr> \<and> wall w \<le> t \<and> t \<le> wall w + max 0 d"
  by (auto simp: await_def Let_def split: option.splits if_splits)

section \<open>Identifiers\<close>

definition hex_digit :: "8 word \<Rightarrow> char" where
  "hex_digit n = (let k = unat n in if k < 10 then char_of (48 + k) else char_of (87 + k))"

definition hex_encode :: "8 word list \<Rightarrow> string" where
  "hex_encode bs = concat (map (\<lambda>b. [hex_digit (drop_bit 4 b), hex_digit (b AND 15)]) bs)"

text \<open>\<open>uid.New\<close> on its 16 random bytes: version and variant bits set, then the dashed text.\<close>

definition uid_of_bytes :: "8 word list \<Rightarrow> string" where
  "uid_of_bytes b0 =
     (let b1 = b0[6 := (b0 ! 6 AND 15) OR 64];
          b = b1[8 := (b1 ! 8 AND 63) OR 128]
      in hex_encode (take 4 b) @ ''-'' @ hex_encode (take 2 (drop 4 b)) @ ''-''
         @ hex_encode (take 2 (drop 6 b)) @ ''-'' @ hex_encode (take 2 (drop 8 b)) @ ''-''
         @ hex_encode (drop 10 b))"

definition uid_New :: "'m world_scheme \<Rightarrow> string \<times> 'm world_scheme" where
  "uid_New w = (uid_of_bytes (map (\<lambda>i. rng w (rng_pos w + i)) [0..<16]),
                w\<lparr>rng_pos := rng_pos w + 16\<rparr>)"

definition is_hex :: "char \<Rightarrow> bool" where
  "is_hex c \<longleftrightarrow> (let n = (of_char c :: nat) in (48 \<le> n \<and> n \<le> 57) \<or> (97 \<le> n \<and> n \<le> 102))"

text \<open>The canonical text of an RFC 4122 version 4 identifier.\<close>

definition canonical_v4 :: "string \<Rightarrow> bool" where
  "canonical_v4 s \<longleftrightarrow> length s = 36
     \<and> (\<forall>i\<in>{0..<36}. if i \<in> {8, 13, 18, 23} then s ! i = CHR ''-'' else is_hex (s ! i))
     \<and> s ! 14 = CHR ''4'' \<and> s ! 19 \<in> set ''89ab''"

lemma is_hex_digit: "unat n < 16 \<Longrightarrow> is_hex (hex_digit n)"
  by (auto simp: is_hex_def hex_digit_def Let_def)

lemma length_hex_encode [simp]: "length (hex_encode bs) = 2 * length bs"
  by (induction bs) (simp_all add: hex_encode_def)

lemma unat_high_nibble: "unat (drop_bit 4 (b :: 8 word)) < 16"
proof -
  have "unat b < 256" using unsigned_less [of b] by simp
  then have "unat b div 16 < 16" by simp
  then show ?thesis by (simp add: unat_drop_bit_eq drop_bit_eq_div unat_div)
qed

lemma unat_low_nibble: "unat (b AND 15 :: 8 word) < 16"
proof -
  have "unat (b AND 15) \<le> unat (15 :: 8 word)"
    by (rule word_and_le1 [THEN word_le_nat_alt [THEN iffD1]])
  then show ?thesis by simp
qed

lemma hex_encode_hex: "c \<in> set (hex_encode bs) \<Longrightarrow> is_hex c"
  by (induction bs) (auto simp: hex_encode_def is_hex_digit unat_high_nibble unat_low_nibble)

lemma version_nibble: "drop_bit 4 ((b AND 15) OR 64 :: 8 word) = 4"
  by (rule bit_word_eqI) (auto simp: bit_simps)

lemma variant_nibble:
  "drop_bit 4 ((b AND 63) OR 128 :: 8 word) \<in> {8, 9, 10, 11}"
proof -
  define x where "x = drop_bit 4 b AND (3 :: 8 word)"
  have "unat x \<le> unat (3 :: 8 word)"
    unfolding x_def by (rule word_and_le1 [THEN word_le_nat_alt [THEN iffD1]])
  then have "unat x = 0 \<or> unat x = 1 \<or> unat x = 2 \<or> unat x = 3" by auto
  then have "x = 0 \<or> x = 1 \<or> x = 2 \<or> x = 3"
    by (auto simp: word_unat_eq_iff)
  moreover have "drop_bit 4 ((b AND 63) OR 128 :: 8 word) = x OR 8"
    unfolding x_def by (rule bit_word_eqI) (auto simp: bit_simps)
  ultimately show ?thesis by (elim disjE) simp_all
qed

lemma hex_digit_simps [simp]:
  "hex_digit 4 = CHR ''4''" "hex_digit 8 = CHR ''8''" "hex_digit 9 = CHR ''9''"
  "hex_digit 10 = CHR ''a''" "hex_digit 11 = CHR ''b''"
  by code_simp+

lemma canonical_v4I:
  assumes s: "s = A @ ''-'' @ B @ ''-'' @ C @ ''-'' @ D @ ''-'' @ F"
    and len: "length A = 8" "length B = 4" "length C = 4" "length D = 4" "length F = 12"
    and hex: "\<forall>c\<in>set A \<union> set B \<union> set C \<union> set D \<union> set F. is_hex c"
    and ver: "C ! 0 = CHR ''4''" and var: "D ! 0 \<in> set ''89ab''"
  shows "canonical_v4 s"
proof -
  have "if i \<in> {8, 13, 18, 23} then s ! i = CHR ''-'' else is_hex (s ! i)" if "i < 36" for i
  proof -
    from that consider "i < 8" | "i = 8" | "8 < i \<and> i < 13" | "i = 13" | "13 < i \<and> i < 18" | "i = 18"
      | "18 < i \<and> i < 23" | "i = 23" | "23 < i \<and> i < 36" by linarith
    then show ?thesis
      using hex by cases (auto simp: s len nth_append nth_Cons')
  qed
  moreover have "s ! 14 = CHR ''4''" "s ! 19 \<in> set ''89ab''" "length s = 36"
    using ver var by (simp_all add: s len nth_append)
  ultimately show ?thesis by (simp add: canonical_v4_def)
qed

text \<open>Every generated identifier is a canonical version 4 UUID.\<close>

lemma uid_canonical:
  assumes "length bs = 16"
  shows "canonical_v4 (uid_of_bytes bs)"
proof -
  define b where "b = bs[6 := (bs ! 6 AND 15) OR 64, 8 := (bs ! 8 AND 63) OR 128]"
  have len: "length b = 16" using assms by (simp add: b_def)
  have b6: "b ! 6 = (bs ! 6 AND 15) OR 64" and b8: "b ! 8 = (bs ! 8 AND 63) OR 128"
    using assms by (simp_all add: b_def)
  have first: "hex_encode (take 2 (drop k b)) ! 0 = hex_digit (drop_bit 4 (b ! k))" if "k < 16" for k
    using len that by (cases "drop k b") (auto simp: hex_encode_def hd_drop_conv_nth [symmetric])
  have "uid_of_bytes bs = hex_encode (take 4 b) @ ''-'' @ hex_encode (take 2 (drop 4 b)) @ ''-''
      @ hex_encode (take 2 (drop 6 b)) @ ''-'' @ hex_encode (take 2 (drop 8 b)) @ ''-''
      @ hex_encode (drop 10 b)"
    using assms by (simp add: uid_of_bytes_def Let_def b_def)
  then show ?thesis
  proof (rule canonical_v4I)
    show "hex_encode (take 2 (drop 6 b)) ! 0 = CHR ''4''"
      by (simp add: first b6 version_nibble)
    show "hex_encode (take 2 (drop 8 b)) ! 0 \<in> set ''89ab''"
      using variant_nibble [of "bs ! 8"] by (auto simp: first b8)
  qed (use len hex_encode_hex in auto)
qed

lemma uid_New_canonical: "uid_New w = (u, w') \<Longrightarrow> canonical_v4 u"
  by (auto simp: uid_New_def uid_canonical)

lemma uid_New_frame [frame]:
  "uid_New w = (u, w') \<Longrightarrow> w' = w\<lparr>rng_pos := rng_pos w + 16\<rparr>"
  by (simp add: uid_New_def)

end
