(* ===== verification/Json.thy ===== *)
theory Json
  imports Go_Time
begin

text \<open>
  JSON documents and the part of \<open>encoding/json\<close> the services use: \<open>Marshal\<close> builds an object
  field by field, \<open>Unmarshal\<close> fills the fields of a Go struct from an object.  Documents are
  syntax trees; the bytes of a message body are \<open>Some\<close> document, or \<open>None\<close> when they are not valid
  JSON.  A number literal is \<open>JInt\<close> when it is written as an integer, \<open>JReal\<close> otherwise.
\<close>

datatype json =
    JNull
  | JBool bool
  | JInt int
  | JReal string
  | JStr string
  | JArr "json list"
  | JObj "(string \<times> json) list"

type_synonym payload = "json option"
type_synonym fields = "(string \<times> json) list"

section \<open>Unmarshal\<close>

text \<open>
  The object behind a document: a top-level \<open>null\<close> leaves the struct alone, any other document
  that is not an object is a type error, and bytes that are not JSON are a syntax error.
\<close>

definition unmarshal :: "payload \<Rightarrow> err + fields" where
  "unmarshal p =
     (case p of
        None \<Rightarrow> Inl (Plain ''invalid character'')
      | Some JNull \<Rightarrow> Inr []
      | Some (JObj kvs) \<Rightarrow> Inr kvs
      | Some _ \<Rightarrow> Inl (Plain ''json: cannot unmarshal into Go value''))"

text \<open>
  One struct field: every key that names it (letter case ignored) assigns it, the last one wins,
  \<open>null\<close> is a no-op, and a value of the wrong type is an error of the whole document.
\<close>

fun dec_field :: "(json \<Rightarrow> err + 'a) \<Rightarrow> 'a \<Rightarrow> string \<Rightarrow> fields \<Rightarrow> err + 'a" where
  "dec_field rd cur name [] = Inr cur"
| "dec_field rd cur name ((k, v) # kvs) =
     (if equal_fold k name \<and> v \<noteq> JNull
      then (case rd v of Inl e \<Rightarrow> Inl e | Inr x \<Rightarrow> dec_field rd x name kvs)
      else dec_field rd cur name kvs)"

definition type_error :: "err" where
  "type_error = Plain ''json: cannot unmarshal value into Go struct field''"

fun rd_string :: "json \<Rightarrow> err + string" where
  "rd_string (JStr s) = Inr s"
| "rd_string _ = Inl type_error"

fun rd_int :: "json \<Rightarrow> err + int" where
  "rd_int (JInt n) = (if int64 n then Inr n else Inl type_error)"
| "rd_int _ = Inl type_error"

fun rd_time :: "json \<Rightarrow> err + instant" where
  "rd_time (JStr s) =
     (case parse_rfc3339 s of None \<Rightarrow> Inl (Plain ''parsing time'') | Some t \<Rightarrow> Inr t)"
| "rd_time _ = Inl (Plain ''Time.UnmarshalJSON: input is not a JSON string'')"

text \<open>The zero \<open>time.Time\<close>: 0001-01-01T00:00:00Z.\<close>

definition zero_time :: instant where
  "zero_time = -62135596800000000000"

definition str_field :: "string \<Rightarrow> fields \<Rightarrow> err + string" where
  "str_field = dec_field rd_string []"

definition int_field :: "string \<Rightarrow> fields \<Rightarrow> err + int" where
  "int_field = dec_field rd_int 0"

definition time_field :: "string \<Rightarrow> fields \<Rightarrow> err + instant" where
  "time_field = dec_field rd_time zero_time"

lemmas field_defs = str_field_def int_field_def time_field_def

text \<open>Decoding goes on with the next field only while no error has occurred.\<close>

definition thenE :: "err + 'a \<Rightarrow> ('a \<Rightarrow> err + 'b) \<Rightarrow> err + 'b" where
  "thenE r f = (case r of Inl e \<Rightarrow> Inl e | Inr a \<Rightarrow> f a)"

lemma thenE_simps [simp]: "thenE (Inl e) f = Inl e" "thenE (Inr a) f = f a"
  by (simp_all add: thenE_def)

lemma thenE_Inr: "thenE r f = Inr b \<longleftrightarrow> (\<exists>a. r = Inr a \<and> f a = Inr b)"
  by (cases r) auto

section \<open>Marshal\<close>

text \<open>\<open>time.Time\<close> refuses years outside 0 to 9999.\<close>

definition enc_time :: "instant \<Rightarrow> err + json" where
  "enc_time t =
     (if 0 \<le> year_of t \<and> year_of t \<le> 9999 then Inr (JStr (format_rfc3339 t))
      else Inl (Plain ''Time.MarshalJSON: year outside of range [0,9999]''))"

definition omitempty :: "string \<Rightarrow> string \<Rightarrow> fields" where
  "omitempty k v = (if v = [] then [] else [(k, JStr v)])"

lemma rd_time_enc: "enc_time t = Inr v \<Longrightarrow> rd_time v = Inr t"
  by (auto simp: enc_time_def parse_format split: if_splits)

lemma enc_time_not_null [simp]: "enc_time t = Inr v \<Longrightarrow> v \<noteq> JNull"
  by (auto simp: enc_time_def split: if_splits)

lemma unmarshal_obj [simp]: "unmarshal (Some (JObj kvs)) = Inr kvs"
  by (simp add: unmarshal_def)

text \<open>Reading a field is reading the last value bound to its name.\<close>

lemma dec_field_absent:
  "\<forall>(k, v)\<in>set kvs. \<not> equal_fold k name \<Longrightarrow> dec_field rd cur name kvs = Inr cur"
  by (induction kvs) auto

end
