(* ===== verification/Envelope.thy ===== *)
theory Envelope
  imports Runtime Json
begin

text \<open>
  \<open>pkg/envelope\<close> and \<open>internal/broker\<close>: streams, subjects, event types, the envelope around an
  event, the map from event types to subjects, and the stream topology shared by the services.
\<close>

section \<open>Streams, subjects and event types\<close>

definition StreamReservations :: string where "StreamReservations = ''RESERVATIONS''"
definition StreamPayments :: string where "StreamPayments = ''PAYMENTS''"

definition SubjectReservationsAll :: string where
  "SubjectReservationsAll = ''pulsarpass.reservations.>''"
definition SubjectPaymentsAll :: string where
  "SubjectPaymentsAll = ''pulsarpass.payments.>''"

definition SubjectReservationReserve :: string where
  "SubjectReservationReserve = ''pulsarpass.reservations.commands.reserve''"
definition SubjectPaymentProcess :: string where
  "SubjectPaymentProcess = ''pulsarpass.payments.commands.process''"

definition SubjectTicketReserved :: string where
  "SubjectTicketReserved = ''pulsarpass.reservations.events.ticket-reserved''"
definition SubjectTicketConfirmed :: string where
  "SubjectTicketConfirmed = ''pulsarpass.reservations.events.ticket-confirmed''"
definition SubjectTicketReleased :: string where
  "SubjectTicketReleased = ''pulsarpass.reservations.events.ticket-released''"
definition SubjectReservationExpired :: string where
  "SubjectReservationExpired = ''pulsarpass.reservations.events.reservation-expired''"
definition SubjectReservationCancelled :: string where
  "SubjectReservationCancelled = ''pulsarpass.reservations.events.reservation-cancelled''"
definition SubjectPaymentSucceeded :: string where
  "SubjectPaymentSucceeded = ''pulsarpass.payments.events.payment-succeeded''"
definition SubjectPaymentFailed :: string where
  "SubjectPaymentFailed = ''pulsarpass.payments.events.payment-failed''"

definition TypeReservationReserve :: string where "TypeReservationReserve = ''reservation.reserve''"
definition TypeTicketReserved :: string where "TypeTicketReserved = ''ticket.reserved''"
definition TypeTicketConfirmed :: string where "TypeTicketConfirmed = ''ticket.confirmed''"
definition TypeTicketReleased :: string where "TypeTicketReleased = ''ticket.released''"
definition TypeReservationExpired :: string where "TypeReservationExpired = ''reservation.expired''"
definition TypeReservationCancelled :: string where
  "TypeReservationCancelled = ''reservation.cancelled''"
definition TypePaymentProcess :: string where "TypePaymentProcess = ''payment.process''"
definition TypePaymentSucceeded :: string where "TypePaymentSucceeded = ''payment.succeeded''"
definition TypePaymentFailed :: string where "TypePaymentFailed = ''payment.failed''"

lemmas stream_defs = StreamReservations_def StreamPayments_def
  SubjectReservationsAll_def SubjectPaymentsAll_def

lemmas subject_defs = SubjectReservationReserve_def SubjectPaymentProcess_def
  SubjectTicketReserved_def SubjectTicketConfirmed_def SubjectTicketReleased_def
  SubjectReservationExpired_def SubjectReservationCancelled_def
  SubjectPaymentSucceeded_def SubjectPaymentFailed_def

lemmas type_defs = TypeReservationReserve_def TypeTicketReserved_def TypeTicketConfirmed_def
  TypeTicketReleased_def TypeReservationExpired_def TypeReservationCancelled_def
  TypePaymentProcess_def TypePaymentSucceeded_def TypePaymentFailed_def

definition CurrentVersion :: int where "CurrentVersion = 1"

section \<open>Envelopes\<close>

record 'd envelope =
  env_event_id :: string
  env_event_type :: string
  env_event_version :: int
  env_source :: string
  env_correlation_id :: string
  env_causation_id :: string
  env_occurred_at :: instant
  env_data :: 'd

definition envelope_New ::
  "string \<Rightarrow> string \<Rightarrow> string \<Rightarrow> string \<Rightarrow> 'd \<Rightarrow> 'm world_scheme \<Rightarrow> 'd envelope \<times> 'm world_scheme" where
  "envelope_New eventType source correlationID causationID data w =
     (case uid_New w of (u, w') \<Rightarrow>
        (\<lparr>env_event_id = u, env_event_type = eventType, env_event_version = CurrentVersion,
          env_source = source, env_correlation_id = correlationID,
          env_causation_id = causationID, env_occurred_at = wall w', env_data = data\<rparr>, w'))"

definition SubjectFor :: "string \<Rightarrow> string" where
  "SubjectFor eventType =
     (if eventType = TypeReservationReserve then SubjectReservationReserve
      else if eventType = TypeTicketReserved then SubjectTicketReserved
      else if eventType = TypeTicketConfirmed then SubjectTicketConfirmed
      else if eventType = TypeTicketReleased then SubjectTicketReleased
      else if eventType = TypeReservationExpired then SubjectReservationExpired
      else if eventType = TypeReservationCancelled then SubjectReservationCancelled
      else if eventType = TypePaymentProcess then SubjectPaymentProcess
      else if eventType = TypePaymentSucceeded then SubjectPaymentSucceeded
      else if eventType = TypePaymentFailed then SubjectPaymentFailed
      else '''')"

definition event_types :: "string list" where
  "event_types = [TypeReservationReserve, TypeTicketReserved, TypeTicketConfirmed,
     TypeTicketReleased, TypeReservationExpired, TypeReservationCancelled,
     TypePaymentProcess, TypePaymentSucceeded, TypePaymentFailed]"

section \<open>Stream topology\<close>

record stream_spec =
  ss_name :: string
  ss_subjects :: "string list"

definition Streams :: "stream_spec list" where
  "Streams = [\<lparr>ss_name = StreamReservations, ss_subjects = [SubjectReservationsAll]\<rparr>,
              \<lparr>ss_name = StreamPayments, ss_subjects = [SubjectPaymentsAll]\<rparr>]"

text \<open>\<open>streamFor\<close>: the first declared stream one of whose patterns has the subject as prefix.\<close>

definition captures :: "string \<Rightarrow> stream_spec \<Rightarrow> bool" where
  "captures subject spec \<longleftrightarrow>
     (\<exists>pattern\<in>set (ss_subjects spec). has_prefix subject (trim_suffix pattern ''>''))"

definition streamFor :: "stream_spec list \<Rightarrow> string \<Rightarrow> err + string" where
  "streamFor specs subject =
     (case find (captures subject) specs of
        Some spec \<Rightarrow> Inr (ss_name spec)
      | None \<Rightarrow> Inl (Plain (''eventbus: no stream declared for subject '' @ subject)))"

lemma envelope_New_frame [frame]:
  "envelope_New t s c d x w = (e, w') \<Longrightarrow> w' = w\<lparr>rng_pos := rng_pos w + 16\<rparr>"
  by (auto simp: envelope_New_def uid_New_def)

lemma SubjectFor_simps [simp]:
  "SubjectFor TypeTicketReserved = SubjectTicketReserved"
  "SubjectFor TypeTicketConfirmed = SubjectTicketConfirmed"
  "SubjectFor TypeTicketReleased = SubjectTicketReleased"
  "SubjectFor TypePaymentSucceeded = SubjectPaymentSucceeded"
  "SubjectFor TypePaymentFailed = SubjectPaymentFailed"
  by (simp_all add: SubjectFor_def type_defs)

text \<open>Distinct event types have distinct subjects.\<close>

lemma SubjectFor_inj: "inj_on SubjectFor (set event_types)"
  by (simp add: event_types_def inj_on_def SubjectFor_def type_defs subject_defs)

end
