(* ===== verification/EventBus.thy ===== *)
theory EventBus
  imports Envelope
begin

text \<open>
  \<open>pkg/eventbus\<close>: messages, the in-memory bus, and the JetStream bus: what it publishes, how it
  hands a delivery to a handler and acknowledges it, the paced redelivery, the consumers a process
  owns and the DLQ advisories it counts.  The broker behind it is the parameter \<open>send\<close>; what its
  clients may rely on is in \<open>Broker\<close>.
\<close>

section \<open>Messages and handlers\<close>

type_synonym headers = "string \<rightharpoonup> string"

record message =
  m_id :: string
  m_subject :: string
  m_payload :: payload
  m_headers :: headers

type_synonym 's handler = "message \<Rightarrow> ('s, unit) op"

text \<open>Go's map lookup: the zero string when the key is absent.\<close>

definition hdr :: "headers \<Rightarrow> string \<Rightarrow> string" where
  "hdr h k = (case h k of None \<Rightarrow> [] | Some v \<Rightarrow> v)"

section \<open>The in-memory bus\<close>

type_synonym 's memory_bus = "string \<rightharpoonup> 's handler list"

definition mem_new :: "'s memory_bus" where
  "mem_new = Map.empty"

definition mem_handlers :: "'s memory_bus \<Rightarrow> string \<Rightarrow> 's handler list" where
  "mem_handlers b subject = (case b subject of None \<Rightarrow> [] | Some hs \<Rightarrow> hs)"

definition mem_subscribe :: "string \<Rightarrow> string \<Rightarrow> 's handler option \<Rightarrow> 's memory_bus \<Rightarrow> err + 's memory_bus" where
  "mem_subscribe subject queue handler b =
     (case handler of
        None \<Rightarrow> Inl (Plain ''eventbus: subject and handler are required'')
      | Some h \<Rightarrow>
          if subject = '''' then Inl (Plain ''eventbus: subject and handler are required'')
          else Inr (b(subject \<mapsto> mem_handlers b subject @ [h])))"

fun run_handlers :: "'s handler list \<Rightarrow> message \<Rightarrow> ('s, unit) op" where
  "run_handlers [] msg = ok ()"
| "run_handlers (h # hs) msg = andThen (h msg) (\<lambda>_. run_handlers hs msg)"

definition mem_publish :: "'s memory_bus \<Rightarrow> message \<Rightarrow> ('s, unit) op" where
  "mem_publish b msg =
     (if mem_handlers b (m_subject msg) = [] then fail (Sentinel ErrNoHandler)
      else run_handlers (mem_handlers b (m_subject msg)) msg)"

section \<open>JetStream: publishing and handling a delivery\<close>

text \<open>
  A message on the wire.  \<open>n_delivered\<close> is the delivery count of the metadata, \<open>None\<close> when the
  metadata cannot be read.
\<close>

record nats_msg =
  n_subject :: string
  n_data :: payload
  n_header :: headers
  n_delivered :: "nat option"

definition NatsMsgId :: string where "NatsMsgId = ''Nats-Msg-Id''"

text \<open>
  \<open>Publish\<close>: the trace propagator \<open>inject\<close> writes into the headers, they are copied, and the id
  travels as the deduplication key.
\<close>

definition js_wire :: "(headers \<Rightarrow> headers) \<Rightarrow> message \<Rightarrow> nats_msg" where
  "js_wire inject msg =
     \<lparr>n_subject = m_subject msg, n_data = m_payload msg,
      n_header = (inject (m_headers msg))(NatsMsgId \<mapsto> m_id msg), n_delivered = None\<rparr>"

definition js_publish ::
  "(headers \<Rightarrow> headers) \<Rightarrow> (nats_msg \<Rightarrow> ('s, unit) op) \<Rightarrow> message \<Rightarrow> ('s, unit) op" where
  "js_publish inject send msg = send (js_wire inject msg)"

definition redeliveryDelay :: "nat \<Rightarrow> duration" where
  "redeliveryDelay numDelivered =
     (if numDelivered = 1 then 100 * millisecond
      else if numDelivered = 2 then 250 * millisecond
      else if numDelivered = 3 then 500 * millisecond
      else if numDelivered = 4 then second
      else 2 * second)"

datatype verdict = Ack | NakWithDelay duration

definition js_message :: "nats_msg \<Rightarrow> message" where
  "js_message msg =
     \<lparr>m_id = hdr (n_header msg) NatsMsgId, m_subject = n_subject msg,
      m_payload = n_data msg, m_headers = n_header msg\<rparr>"

definition js_handle :: "'s handler \<Rightarrow> nats_msg \<Rightarrow> 's \<Rightarrow> verdict \<times> 's" where
  "js_handle handler msg s =
     (case handler (js_message msg) s of
        (Inl e, s') \<Rightarrow>
          (NakWithDelay (case n_delivered msg of Some n \<Rightarrow> redeliveryDelay n | None \<Rightarrow> 2 * second), s')
      | (Inr _, s') \<Rightarrow> (Ack, s'))"

section \<open>JetStream: configuration, consumers, shutdown and DLQ\<close>

record js_config =
  cfg_url :: string
  cfg_streams :: "stream_spec list"
  cfg_dedup_window :: duration
  cfg_ack_wait :: duration
  cfg_max_deliver :: int
  cfg_backoff :: "duration list"
  cfg_dlq_group :: string

definition js_defaults :: "js_config \<Rightarrow> err + js_config" where
  "js_defaults cfg =
     (if cfg_streams cfg = [] then Inl (Plain ''eventbus: at least one stream must be declared'')
      else Inr (cfg
        \<lparr>cfg_dedup_window := (if cfg_dedup_window cfg \<le> 0 then 2 * minute else cfg_dedup_window cfg),
         cfg_ack_wait := (if cfg_ack_wait cfg \<le> 0 then 30 * second else cfg_ack_wait cfg),
         cfg_max_deliver := (if cfg_max_deliver cfg \<le> 0 then 10 else cfg_max_deliver cfg)\<rparr>))"

text \<open>\<open>broker.Connect\<close>: the shared topology with production defaults, the service name as DLQ group.\<close>

definition broker_config :: "string \<Rightarrow> string \<Rightarrow> js_config" where
  "broker_config url name =
     \<lparr>cfg_url = url, cfg_streams = Streams, cfg_dedup_window = 2 * minute, cfg_ack_wait = 0,
      cfg_max_deliver = 0, cfg_backoff = [], cfg_dlq_group = name\<rparr>"

record jetstream =
  js_cfg :: js_config
  js_durables :: "string list"
  js_closed :: bool

definition ownConsumer :: "string \<Rightarrow> jetstream \<Rightarrow> jetstream" where
  "ownConsumer queue j = j\<lparr>js_durables := queue # js_durables j\<rparr>"

definition ownsConsumer :: "jetstream \<Rightarrow> string \<Rightarrow> bool" where
  "ownsConsumer j queue \<longleftrightarrow> queue \<in> set (js_durables j)"

record consumer_config =
  cc_durable :: string
  cc_filter :: string
  cc_ack_wait :: duration
  cc_max_deliver :: int
  cc_backoff :: "duration list"

text \<open>\<open>create\<close> is the broker's answer to \<open>CreateOrUpdateConsumer\<close>: an error, or nothing.\<close>

definition js_subscribe ::
  "(string \<Rightarrow> consumer_config \<Rightarrow> err option) \<Rightarrow> string \<Rightarrow> string \<Rightarrow> jetstream \<Rightarrow> err + jetstream" where
  "js_subscribe create subject queue j =
     (if queue = '''' then Inl (Plain ''eventbus: durable consumer name (queue) is required'')
      else case streamFor (cfg_streams (js_cfg j)) subject of
             Inl e \<Rightarrow> Inl e
           | Inr stream \<Rightarrow>
               (case create stream \<lparr>cc_durable = queue, cc_filter = subject, cc_ack_wait = cfg_ack_wait (js_cfg j),
                    cc_max_deliver = cfg_max_deliver (js_cfg j), cc_backoff = cfg_backoff (js_cfg j)\<rparr> of
                  Some e \<Rightarrow> Inl (Wrapped (''eventbus: ensure consumer '' @ queue @ '': '') e '''')
                | None \<Rightarrow> Inr (ownConsumer queue j)))"

text \<open>\<open>Close\<close> is idempotent: the second call returns at once; the flag says whether this one drains.\<close>

definition js_close :: "jetstream \<Rightarrow> bool \<times> jetstream" where
  "js_close j = (if js_closed j then (False, j) else (True, j\<lparr>js_closed := True\<rparr>))"

definition js_isClosed :: "jetstream \<Rightarrow> bool" where
  "js_isClosed j = js_closed j"

text \<open>The subject of the advisories, and the queue group the listener joins if there is one.\<close>

definition listenDLQ :: "js_config \<Rightarrow> string \<times> string option" where
  "listenDLQ cfg = (''$JS.EVENT.ADVISORY.CONSUMER.MAX_DELIVERIES.>'',
     if cfg_dlq_group cfg = '''' then None else Some (cfg_dlq_group cfg))"

definition incDLQAdvisory :: "string \<Rightarrow> string \<Rightarrow> 'm world_scheme \<Rightarrow> 'm world_scheme" where
  "incDLQAdvisory stream consumer = count [''pulsar_eventbus_dlq_advisories_total'', stream, consumer]"

text \<open>
  The advisory listener: the payload is decoded leniently (an undecodable one is an empty
  advisory), and only the owner of the consumer counts it.
\<close>

definition lenient :: "'a \<Rightarrow> err + 'a \<Rightarrow> 'a" where
  "lenient d r = (case r of Inl _ \<Rightarrow> d | Inr x \<Rightarrow> x)"

definition on_dlq_advisory :: "jetstream \<Rightarrow> payload \<Rightarrow> 'm world_scheme \<Rightarrow> 'm world_scheme" where
  "on_dlq_advisory j data w =
     (let kvs = lenient [] (unmarshal data);
          stream = lenient [] (str_field ''stream'' kvs);
          consumer = lenient [] (str_field ''consumer'' kvs)
      in if ownsConsumer j consumer then incDLQAdvisory stream consumer w else w)"

section \<open>Spans\<close>

text \<open>What the two ends of a delivery report: a span with its attributes, and its error status.\<close>

datatype span_kind = SpanProducer | SpanConsumer

record span =
  sp_name :: string
  sp_kind :: span_kind
  sp_attributes :: "(string \<times> string) list"
  sp_error :: "string option"

definition CorrelationIDHeader :: string where "CorrelationIDHeader = ''Correlation-Id''"

definition messagingAttributes :: "message \<Rightarrow> (string \<times> string) list" where
  "messagingAttributes msg =
     [(''messaging.system'', ''nats''), (''messaging.destination.name'', m_subject msg),
      (''messaging.message.id'', m_id msg)]"

definition correlation_attribute :: "message \<Rightarrow> (string \<times> string) list" where
  "correlation_attribute msg =
     (let cid = hdr (m_headers msg) CorrelationIDHeader in if cid = '''' then [] else [(''correlation_id'', cid)])"

definition publishSpan :: "message \<Rightarrow> span" where
  "publishSpan msg = \<lparr>sp_name = ''publish '' @ m_subject msg, sp_kind = SpanProducer,
     sp_attributes = messagingAttributes msg @ correlation_attribute msg, sp_error = None\<rparr>"

definition consumeSpan :: "message \<Rightarrow> span" where
  "consumeSpan msg = \<lparr>sp_name = ''consume '' @ m_subject msg, sp_kind = SpanConsumer,
     sp_attributes = messagingAttributes msg @ correlation_attribute msg, sp_error = None\<rparr>"

definition ended :: "string \<Rightarrow> err + unit \<Rightarrow> span \<Rightarrow> span" where
  "ended failure r sp = (case r of Inl e \<Rightarrow> sp\<lparr>sp_error := Some failure\<rparr> | Inr _ \<Rightarrow> sp)"

text \<open>The span a publish and a handled delivery leave behind.\<close>

definition js_publish_span ::
  "(headers \<Rightarrow> headers) \<Rightarrow> (nats_msg \<Rightarrow> ('s, unit) op) \<Rightarrow> message \<Rightarrow> 's \<Rightarrow> span" where
  "js_publish_span inject send msg s = ended ''publish failed'' (fst (js_publish inject send msg s)) (publishSpan msg)"

definition js_handle_span :: "'s handler \<Rightarrow> nats_msg \<Rightarrow> 's \<Rightarrow> span" where
  "js_handle_span handler msg s =
     ended ''handler failed'' (fst (handler (js_message msg) s)) (consumeSpan (js_message msg))"

section \<open>Facts the clients use\<close>

text \<open>The spans at both ends of a message have the same attributes if the propagator keeps its correlation.\<close>

lemma spans_agree:
  assumes "inject (m_headers msg) CorrelationIDHeader = m_headers msg CorrelationIDHeader"
  shows "sp_attributes (js_handle_span handler (js_wire inject msg) s)
    = sp_attributes (js_publish_span inject send msg s')"
  using assms by (auto simp: js_handle_span_def js_publish_span_def ended_def consumeSpan_def publishSpan_def
      messagingAttributes_def correlation_attribute_def js_message_def js_wire_def hdr_def NatsMsgId_def
      CorrelationIDHeader_def split: sum.splits)


lemma run_handlers_append:
  "run_handlers (hs @ gs) msg s = andThen (run_handlers hs msg) (\<lambda>_. run_handlers gs msg) s"
  by (induction hs arbitrary: s) (auto simp: andThen_def split: prod.splits sum.splits)

lemma js_handle_Ack: "js_handle h msg s = (Ack, s') \<longleftrightarrow> h (js_message msg) s = (Inr (), s')"
  by (auto simp: js_handle_def split: prod.splits sum.splits)

lemma js_handle_Nak:
  "js_handle h msg s = (NakWithDelay d, s') \<Longrightarrow> \<exists>e. h (js_message msg) s = (Inl e, s')"
  by (auto simp: js_handle_def split: prod.splits sum.splits)

lemma redeliveryDelay_bounds: "100 * millisecond \<le> redeliveryDelay n \<and> redeliveryDelay n \<le> 2 * second"
  by (simp add: redeliveryDelay_def duration_defs)

text \<open>What the consumer sees is what was published, with the id among the headers.\<close>

lemma js_message_wire:
  "js_message (js_wire inject msg)
     = msg\<lparr>m_headers := (inject (m_headers msg))(NatsMsgId \<mapsto> m_id msg)\<rparr>"
  by (simp add: js_message_def js_wire_def hdr_def)

section \<open>Registering consumers\<close>

text \<open>
  The loop of both \<open>Register\<close> methods: every consumer is a subject, a durable name and a handler;
  the first failing subscription aborts.
\<close>

fun register_all ::
  "(string \<Rightarrow> string \<Rightarrow> 's handler \<Rightarrow> 'b \<Rightarrow> err + 'b) \<Rightarrow> (string \<times> string \<times> 's handler) list \<Rightarrow> 'b \<Rightarrow> err + 'b" where
  "register_all subscribe [] bus = Inr bus"
| "register_all subscribe ((subject, durable, handler) # cs) bus =
     (case subscribe subject durable handler bus of
        Inl e \<Rightarrow> Inl (Wrapped (''subscribe '' @ subject @ '': '') e '''')
      | Inr bus' \<Rightarrow> register_all subscribe cs bus')"

end
