(* ===== verification/Domain.thy ===== *)
theory Domain
  imports Runtime
begin

text \<open>
  \<open>internal/core/domain\<close>: the inventory aggregate, the reservation state machine, the ticket
  lifecycle, with their sentinel errors.  A method with a pointer receiver returns the updated value
  or the error that leaves it untouched; \<open>int\<close> arithmetic wraps at 64 bits.
\<close>

section \<open>Events\<close>

record event =
  e_id :: string
  e_name :: string
  e_venue :: string
  e_starts_at :: instant
  e_sale_opens_at :: instant
  e_price_cents :: int
  e_capacity :: int
  e_reserved_count :: int
  e_sold_count :: int
  e_created_at :: instant
  e_updated_at :: instant

definition event_Reserve :: "int \<Rightarrow> event \<Rightarrow> err + event" where
  "event_Reserve n e =
     (if n \<le> 0 then Inl (Sentinel ErrInvalidQuantity)
      else if wrap64 (wrap64 (e_reserved_count e + n) + e_sold_count e) > e_capacity e
      then Inl (Sentinel ErrSoldOut)
      else Inr (e\<lparr>e_reserved_count := wrap64 (e_reserved_count e + n)\<rparr>))"

definition event_Release :: "int \<Rightarrow> event \<Rightarrow> err + event" where
  "event_Release n e =
     (if n \<le> 0 \<or> n > e_reserved_count e then Inl (Sentinel ErrNotEnoughReserved)
      else Inr (e\<lparr>e_reserved_count := wrap64 (e_reserved_count e - n)\<rparr>))"

definition event_ConfirmSold :: "int \<Rightarrow> event \<Rightarrow> err + event" where
  "event_ConfirmSold n e =
     (if n \<le> 0 \<or> n > e_reserved_count e then Inl (Sentinel ErrNotEnoughReserved)
      else Inr (e\<lparr>e_reserved_count := wrap64 (e_reserved_count e - n),
                  e_sold_count := wrap64 (e_sold_count e + n)\<rparr>))"

definition SaleIsOpen :: "instant \<Rightarrow> event \<Rightarrow> bool" where
  "SaleIsOpen now e \<longleftrightarrow> \<not> time_before now (e_sale_opens_at e)"

section \<open>Reservations\<close>

datatype reservation_status = PENDING | CONFIRMED | EXPIRED | FAILED | CANCELLED

fun status_text :: "reservation_status \<Rightarrow> string" where
  "status_text PENDING = ''PENDING''"
| "status_text CONFIRMED = ''CONFIRMED''"
| "status_text EXPIRED = ''EXPIRED''"
| "status_text FAILED = ''FAILED''"
| "status_text CANCELLED = ''CANCELLED''"

text \<open>The order of the lifecycle: every reservation starts at the bottom and only moves up.\<close>

fun status_rank :: "reservation_status \<Rightarrow> nat" where
  "status_rank PENDING = 0"
| "status_rank CONFIRMED = 1"
| "status_rank EXPIRED = 2"
| "status_rank FAILED = 3"
| "status_rank CANCELLED = 4"

lemma status_rank_inj: "status_rank s = status_rank t \<longleftrightarrow> s = t"
  by (cases s; cases t) simp_all

instantiation reservation_status :: linorder
begin

definition less_eq_reservation_status :: "reservation_status \<Rightarrow> reservation_status \<Rightarrow> bool" where
  "less_eq_reservation_status s t \<longleftrightarrow> status_rank s \<le> status_rank t"

definition less_reservation_status :: "reservation_status \<Rightarrow> reservation_status \<Rightarrow> bool" where
  "less_reservation_status s t \<longleftrightarrow> status_rank s < status_rank t"

instance
  by standard
    (auto simp: less_eq_reservation_status_def less_reservation_status_def status_rank_inj)

end

lemma PENDING_least: "PENDING < s \<longleftrightarrow> s \<noteq> PENDING"
  by (cases s) (simp_all add: less_reservation_status_def)

record reservation =
  r_id :: string
  r_event_id :: string
  r_user_id :: string
  r_status :: reservation_status
  r_quantity :: int
  r_amount_cents :: int
  r_currency :: string
  r_expires_at :: instant
  r_confirmed_at :: "instant option"
  r_version :: int
  r_created_at :: instant
  r_updated_at :: instant

record reservation_input =
  in_id :: string
  in_event_id :: string
  in_user_id :: string
  in_quantity :: int
  in_amount_cents :: int
  in_currency :: string
  in_ttl :: duration
  in_now :: instant

definition NewReservation :: "reservation_input \<Rightarrow> 'm world_scheme \<Rightarrow> reservation \<times> 'm world_scheme" where
  "NewReservation inp w =
     (let currency = (if in_currency inp = '''' then ''BRL'' else in_currency inp) in
      case (if in_id inp = '''' then uid_New w else (in_id inp, w)) of (i, w') \<Rightarrow>
        (\<lparr>r_id = i, r_event_id = in_event_id inp, r_user_id = in_user_id inp, r_status = PENDING,
          r_quantity = in_quantity inp, r_amount_cents = in_amount_cents inp,
          r_currency = currency, r_expires_at = time_add (in_now inp) (in_ttl inp),
          r_confirmed_at = None, r_version = 1, r_created_at = in_now inp,
          r_updated_at = in_now inp\<rparr>, w'))"

definition touch :: "instant \<Rightarrow> reservation \<Rightarrow> reservation" where
  "touch now r = r\<lparr>r_version := wrap64 (r_version r + 1), r_updated_at := now\<rparr>"

definition invalidTransition :: "reservation_status \<Rightarrow> reservation_status \<Rightarrow> err" where
  "invalidTransition old new =
     Wrapped '''' (Sentinel ErrInvalidTransition) ('': '' @ status_text old @ '' -> '' @ status_text new)"

definition Confirm :: "instant \<Rightarrow> reservation \<Rightarrow> err + reservation" where
  "Confirm now r =
     (if r_status r \<noteq> PENDING then Inl (invalidTransition (r_status r) CONFIRMED)
      else Inr (touch now (r\<lparr>r_status := CONFIRMED, r_confirmed_at := Some now\<rparr>)))"

definition Expire :: "instant \<Rightarrow> reservation \<Rightarrow> err + reservation" where
  "Expire now r =
     (if r_status r \<noteq> PENDING then Inl (invalidTransition (r_status r) EXPIRED)
      else if \<not> time_after now (r_expires_at r) then Inl (Sentinel ErrReservationNotExpired)
      else Inr (touch now (r\<lparr>r_status := EXPIRED\<rparr>)))"

definition MarkFailed :: "instant \<Rightarrow> reservation \<Rightarrow> err + reservation" where
  "MarkFailed now r =
     (if r_status r \<noteq> PENDING then Inl (invalidTransition (r_status r) FAILED)
      else Inr (touch now (r\<lparr>r_status := FAILED\<rparr>)))"

definition Cancel :: "instant \<Rightarrow> reservation \<Rightarrow> err + reservation" where
  "Cancel now r =
     (if r_status r \<noteq> PENDING then Inl (invalidTransition (r_status r) CANCELLED)
      else Inr (touch now (r\<lparr>r_status := CANCELLED\<rparr>)))"

lemmas transition_defs = Confirm_def Expire_def MarkFailed_def Cancel_def touch_def

section \<open>Tickets\<close>

datatype ticket_status = AVAILABLE | RESERVED | SOLD

fun ticket_text :: "ticket_status \<Rightarrow> string" where
  "ticket_text AVAILABLE = ''AVAILABLE''"
| "ticket_text RESERVED = ''RESERVED''"
| "ticket_text SOLD = ''SOLD''"

record ticket =
  t_id :: string
  t_event_id :: string
  t_reservation_id :: string
  t_seat_label :: string
  t_status :: ticket_status
  t_created_at :: instant
  t_updated_at :: instant

definition ticketTransition :: "ticket_status \<Rightarrow> ticket_status \<Rightarrow> err" where
  "ticketTransition old new =
     Wrapped '''' (Sentinel ErrInvalidTransition) ('': '' @ ticket_text old @ '' -> '' @ ticket_text new)"

definition MarkReserved :: "string \<Rightarrow> instant \<Rightarrow> ticket \<Rightarrow> err + ticket" where
  "MarkReserved reservationID now t =
     (if t_status t \<noteq> AVAILABLE then Inl (ticketTransition (t_status t) RESERVED)
      else Inr (t\<lparr>t_status := RESERVED, t_reservation_id := reservationID, t_updated_at := now\<rparr>))"

definition MarkSold :: "instant \<Rightarrow> ticket \<Rightarrow> err + ticket" where
  "MarkSold now t =
     (if t_status t \<noteq> RESERVED then Inl (ticketTransition (t_status t) SOLD)
      else Inr (t\<lparr>t_status := SOLD, t_updated_at := now\<rparr>))"

definition ticket_Release :: "instant \<Rightarrow> ticket \<Rightarrow> err + ticket" where
  "ticket_Release now t =
     (if t_status t \<noteq> RESERVED then Inl (ticketTransition (t_status t) AVAILABLE)
      else Inr (t\<lparr>t_status := AVAILABLE, t_reservation_id := '''', t_updated_at := now\<rparr>))"

section \<open>Facts the services use\<close>

lemma errors_is_invalidTransition [simp]:
  "errors_is (invalidTransition s t) x \<longleftrightarrow> x = ErrInvalidTransition"
  by (auto simp: invalidTransition_def)

text \<open>What every legal transition does to a reservation, whichever of the four it is.\<close>

definition moved :: "instant \<Rightarrow> reservation_status \<Rightarrow> reservation \<Rightarrow> reservation \<Rightarrow> bool" where
  "moved now s r r' \<longleftrightarrow> r_status r = PENDING \<and>
     r' = r\<lparr>r_status := s, r_confirmed_at := (if s = CONFIRMED then Some now else r_confirmed_at r),
            r_version := wrap64 (r_version r + 1), r_updated_at := now\<rparr>"

lemma Confirm_Inr: "Confirm now r = Inr r' \<longleftrightarrow> moved now CONFIRMED r r'"
  by (auto simp: transition_defs moved_def)

lemma Expire_Inr:
  "Expire now r = Inr r' \<longleftrightarrow> moved now EXPIRED r r' \<and> time_after now (r_expires_at r)"
  by (auto simp: transition_defs moved_def)

lemma MarkFailed_Inr: "MarkFailed now r = Inr r' \<longleftrightarrow> moved now FAILED r r'"
  by (auto simp: transition_defs moved_def)

lemma Cancel_Inr: "Cancel now r = Inr r' \<longleftrightarrow> moved now CANCELLED r r'"
  by (auto simp: transition_defs moved_def)

lemmas transition_Inr = Confirm_Inr Expire_Inr MarkFailed_Inr Cancel_Inr

text \<open>A reservation that has left PENDING is refused by all four transitions.\<close>

lemma terminal_refuses:
  assumes "r_status r \<noteq> PENDING"
  shows "Confirm now r = Inl (invalidTransition (r_status r) CONFIRMED)"
    "Expire now r = Inl (invalidTransition (r_status r) EXPIRED)"
    "MarkFailed now r = Inl (invalidTransition (r_status r) FAILED)"
    "Cancel now r = Inl (invalidTransition (r_status r) CANCELLED)"
  using assms by (simp_all add: transition_defs)

lemma NewReservation_frame [frame]:
  "NewReservation inp w = (r, w') \<Longrightarrow> w' = w\<lparr>rng_pos := rng_pos w'\<rparr>"
  by (auto simp: NewReservation_def Let_def uid_New_def split: if_splits)

end
