(* ===== verification/Postgres.thy ===== *)
theory Postgres
  imports Runtime
begin

text \<open>
  \<open>pkg/pgtx\<close> and the PostgreSQL server as the adapters use it: statements that may fail or lose
  their reply, transactions with rollback, and the column types whose checks the code relies on.
  The tables are the type parameter \<open>'db\<close>; each service instantiates it.
\<close>

section \<open>The connection\<close>

text \<open>
  One entry of the fault script is consumed by every round trip: \<open>Refused\<close> never reaches the
  server, \<open>AckLost\<close> is executed but its reply never arrives.  No entry left means a healthy
  connection.
\<close>

datatype fault = Refused string | AckLost string

fun fault_err :: "fault \<Rightarrow> err" where
  "fault_err (Refused s) = Plain s"
| "fault_err (AckLost s) = Plain s"

text \<open>
  The transaction the context carries.  \<open>InTx\<close> and \<open>Aborted\<close> remember the tables at \<open>BEGIN\<close>;
  after an error inside a transaction PostgreSQL refuses every further statement.
\<close>

datatype 'db tx_state = NoTx | InTx 'db | Aborted 'db

record 'db pg_world = world +
  db :: 'db
  pg_clock :: instant
  tx :: "'db tx_state"
  faults :: "fault option list"

definition next_fault :: "('db, 'm) pg_world_scheme \<Rightarrow> fault option \<times> ('db, 'm) pg_world_scheme" where
  "next_fault w =
     (case faults w of [] \<Rightarrow> (None, w) | f # fs \<Rightarrow> (f, w\<lparr>faults := fs\<rparr>))"

text \<open>One statement on the querier of the context: the transaction if there is one, else the pool.\<close>

definition stmt ::
  "(instant \<Rightarrow> 'db \<Rightarrow> (err + 'a) \<times> 'db) \<Rightarrow> (('db, 'm) pg_world_scheme, 'a) op" where
  "stmt f w =
     (case next_fault w of (flt, w1) \<Rightarrow>
       (case tx w1 of
          Aborted s \<Rightarrow> (Inl (PgError ''25P02''), w1)
        | InTx s \<Rightarrow>
            (case flt of
               Some x \<Rightarrow> (Inl (fault_err x), w1\<lparr>tx := Aborted s\<rparr>)
             | None \<Rightarrow>
                 (case f (pg_clock w1) (db w1) of
                    (Inl e, d) \<Rightarrow> (Inl e, w1\<lparr>tx := Aborted s\<rparr>)
                  | (Inr a, d) \<Rightarrow> (Inr a, w1\<lparr>db := d\<rparr>)))
        | NoTx \<Rightarrow>
            (case flt of
               Some (Refused x) \<Rightarrow> (Inl (Plain x), w1)
             | Some (AckLost x) \<Rightarrow>
                 (case f (pg_clock w1) (db w1) of
                    (Inl e, d) \<Rightarrow> (Inl (Plain x), w1)
                  | (Inr a, d) \<Rightarrow> (Inl (Plain x), w1\<lparr>db := d\<rparr>))
             | None \<Rightarrow>
                 (case f (pg_clock w1) (db w1) of
                    (Inl e, d) \<Rightarrow> (Inl e, w1)
                  | (Inr a, d) \<Rightarrow> (Inr a, w1\<lparr>db := d\<rparr>)))))"

section \<open>pkg/pgtx\<close>

definition tx_of :: "('db, 'm) pg_world_scheme \<Rightarrow> 'db option" where
  "tx_of w = (case tx w of NoTx \<Rightarrow> None | InTx s \<Rightarrow> Some s | Aborted s \<Rightarrow> Some s)"

definition TxFromContext :: "(('db, 'm) pg_world_scheme, 'db) op" where
  "TxFromContext w =
     (case tx_of w of None \<Rightarrow> (Inl (Sentinel ErrNoTransaction), w) | Some s \<Rightarrow> (Inr s, w))"

definition rollback :: "('db, 'm) pg_world_scheme \<Rightarrow> ('db, 'm) pg_world_scheme" where
  "rollback w = (case tx_of w of None \<Rightarrow> w | Some s \<Rightarrow> w\<lparr>db := s, tx := NoTx\<rparr>)"

definition begin_tx :: "(('db, 'm) pg_world_scheme, unit) op" where
  "begin_tx w =
     (case next_fault w of
        (Some x, w1) \<Rightarrow> (Inl (fault_err x), w1)
      | (None, w1) \<Rightarrow> (Inr (), w1\<lparr>tx := InTx (db w1)\<rparr>))"

definition commit_tx :: "(('db, 'm) pg_world_scheme, unit) op" where
  "commit_tx w =
     (case next_fault w of (flt, w1) \<Rightarrow>
       (case tx w1 of
          InTx s \<Rightarrow>
            (case flt of
               None \<Rightarrow> (Inr (), w1\<lparr>tx := NoTx\<rparr>)
             | Some (AckLost x) \<Rightarrow> (Inl (Plain x), w1\<lparr>tx := NoTx\<rparr>)
             | Some (Refused x) \<Rightarrow> (Inl (Plain x), rollback w1))
        | _ \<Rightarrow> (Inl (Plain ''commit unexpectedly resulted in rollback''), rollback w1)))"

text \<open>
  \<open>WithinTx\<close>: a nested call runs inside the surrounding transaction; otherwise begin, run,
  and commit or roll back.
\<close>

definition WithinTx ::
  "(('db, 'm) pg_world_scheme, 'a) op \<Rightarrow> (('db, 'm) pg_world_scheme, 'a) op" where
  "WithinTx fn w =
     (if tx_of w \<noteq> None then fn w
      else case begin_tx w of
             (Inl e, w1) \<Rightarrow> (Inl e, w1)
           | (Inr _, w1) \<Rightarrow>
               (case fn w1 of
                  (Inl e, w2) \<Rightarrow> (Inl e, rollback w2)
                | (Inr a, w2) \<Rightarrow>
                    (case commit_tx w2 of
                       (Inl e, w3) \<Rightarrow> (Inl e, w3)
                     | (Inr _, w3) \<Rightarrow> (Inr a, w3))))"

section \<open>Column types\<close>

text \<open>\<open>INTEGER\<close> is 32 bits, \<open>BIGINT\<close> is 64; out of range is SQLSTATE 22003.\<close>

definition int4 :: "int \<Rightarrow> bool" where
  "int4 n \<longleftrightarrow> -2147483648 \<le> n \<and> n \<le> 2147483647"

text \<open>\<open>TIMESTAMPTZ\<close> keeps microseconds.\<close>

definition timestamptz :: "instant \<Rightarrow> instant" where
  "timestamptz t = t div 1000 * 1000"

text \<open>\<open>CHAR(3)\<close> is blank-padded, and too long a value is an error (trailing blanks are cut).\<close>

definition char3 :: "string \<Rightarrow> string option" where
  "char3 s =
     (if length s \<le> 3 then Some (s @ replicate (3 - length s) CHR '' '')
      else if \<forall>c\<in>set (drop 3 s). c = CHR '' '' then Some (take 3 s) else None)"

text \<open>
  \<open>UUID\<close> input: 32 hexadecimal digits of either case, a hyphen allowed after every fourth one, the
  whole optionally in braces; the value reads back as its canonical lower-case text.  Anything else
  is SQLSTATE 22P02.
\<close>

definition hex_lower :: "char \<Rightarrow> char option" where
  "hex_lower c = (if is_hex (to_lower c) then Some (to_lower c) else None)"

fun uuid_digits :: "nat \<Rightarrow> string \<Rightarrow> (string \<times> string) option" where
  "uuid_digits 0 s = Some ([], s)"
| "uuid_digits (Suc n) (a # b # s) =
     (case (hex_lower a, hex_lower b) of
        (Some x, Some y) \<Rightarrow>
          (case uuid_digits n (if even n \<and> 0 < n \<and> has_prefix s ''-'' then tl s else s) of
             None \<Rightarrow> None
           | Some (h, t) \<Rightarrow> Some (x # y # h, t))
      | _ \<Rightarrow> None)"
| "uuid_digits (Suc n) _ = None"

definition uuid_text :: "string \<Rightarrow> string" where
  "uuid_text h = take 8 h @ ''-'' @ take 4 (drop 8 h) @ ''-'' @ take 4 (drop 12 h) @ ''-''
     @ take 4 (drop 16 h) @ ''-'' @ drop 20 h"

definition uuid_in :: "string \<Rightarrow> string option" where
  "uuid_in s =
     (let braces = has_prefix s ''{'' in
      case uuid_digits 16 (if braces then tl s else s) of
        None \<Rightarrow> None
      | Some (h, t) \<Rightarrow> if t = (if braces then ''}'' else '''') then Some (uuid_text h) else None)"

lemma hex_lower_hex: "hex_lower c = Some x \<Longrightarrow> is_hex x"
  by (auto simp: hex_lower_def split: if_splits)

lemma uuid_digits_hex:
  "uuid_digits n s = Some (h, t) \<Longrightarrow> length h = 2 * n \<and> (\<forall>c\<in>set h. is_hex c)"
proof (induction n s arbitrary: h t rule: uuid_digits.induct)
  case (2 n a b s)
  let ?s = "if even n \<and> 0 < n \<and> has_prefix s ''-'' then tl s else s"
  from 2 (2) obtain x y h' t' where xy: "hex_lower a = Some x" "hex_lower b = Some y"
    and d: "uuid_digits n ?s = Some (h', t')" and h: "h = x # y # h'"
    by (simp only: uuid_digits.simps split: option.splits prod.splits) auto
  with 2 (1) [OF _ _ _ d] have "length h' = 2 * n \<and> (\<forall>c\<in>set h'. is_hex c)" by simp
  with xy h show ?case by (simp add: hex_lower_hex)
qed auto

lemma is_hex_lower:
  assumes "is_hex c" shows "hex_lower c = Some c"
proof -
  from assms have "to_lower c = c" by (auto simp: is_hex_def to_lower_def Let_def)
  with assms show ?thesis by (simp add: hex_lower_def)
qed


lemma uuid_digits_step:
  "is_hex a \<Longrightarrow> is_hex b \<Longrightarrow> uuid_digits (Suc n) (a # b # s) =
     map_option (\<lambda>(h, t). (a # b # h, t))
       (uuid_digits n (if even n \<and> 0 < n \<and> has_prefix s ''-'' then tl s else s))"
  by (simp add: is_hex_lower split: option.splits prod.splits)

lemma uuid_digits_num:
  assumes "is_hex a" "is_hex b"
  shows "uuid_digits (numeral k) (a # b # s) = map_option (\<lambda>(h, t). (a # b # h, t))
      (uuid_digits (pred_numeral k) (if even (pred_numeral k) \<and> 0 < pred_numeral k \<and> has_prefix s ''-'' then tl s else s))"
    and "uuid_digits (Suc 0) (a # b # s) = Some ([a, b], s)"
  using uuid_digits_step [OF assms] uuid_digits_step [OF assms, of 0] by (simp_all add: numeral_eq_Suc)

lemma dash_prefix [simp]: "has_prefix (CHR ''-'' # s) ''-''"
  by (simp add: has_prefix_def)

lemma hex_not_dash [simp]: "is_hex c \<Longrightarrow> \<not> has_prefix (c # s) ''-''" "is_hex c \<Longrightarrow> \<not> has_prefix (c # s) ''{''"
  by (auto simp: has_prefix_def is_hex_def Let_def)

lemma upt32: "[0..<32] = [0, 1, 2, 3, 4, 5, 6, 7, 8, 9, 10, 11, 12, 13, 14, 15, 16, 17, 18, 19, 20, 21, 22, 23, 24, 25, 26, 27, 28, 29, 30, 31]" and upt36: "[0..<36] = [0, 1, 2, 3, 4, 5, 6, 7, 8, 9, 10, 11, 12, 13, 14, 15, 16, 17, 18, 19, 20, 21, 22, 23, 24, 25, 26, 27, 28, 29, 30, 31, 32, 33, 34, 35]"
  by code_simp+

lemma uuid_text_in:
  assumes len: "length h = 32" and hex: "\<forall>c\<in>set h. is_hex c"
  shows "uuid_in (uuid_text h) = Some (uuid_text h)"
proof -
  define f where "f i = h ! i" for i
  have "h = map f [0..<32]" unfolding f_def by (metis len map_nth)
  then have h: "h = map f [0, 1, 2, 3, 4, 5, 6, 7, 8, 9, 10, 11, 12, 13, 14, 15, 16, 17, 18, 19, 20, 21, 22, 23, 24, 25, 26, 27, 28, 29, 30, 31]"
    by (simp only: upt32)
  have f: "is_hex (f i)" if "i < 32" for i
    using that len hex by (simp add: f_def)
  have ds: "uuid_digits 16 (uuid_text h) = Some (h, [])"
    unfolding h uuid_text_def 
    by (simp add: uuid_digits_num f del: uuid_digits.simps(2))
  moreover have "\<not> has_prefix (uuid_text h) ''{''"
    unfolding h uuid_text_def by (simp add: f)
  ultimately show ?thesis by (simp add: uuid_in_def)
qed

lemma uuid_in_canonical:
  assumes "uuid_in s = Some k"
  shows "uuid_in k = Some k"
proof -
  from assms obtain h t where "uuid_digits 16 (if has_prefix s ''{'' then tl s else s) = Some (h, t)"
    and k: "k = uuid_text h"
    by (auto simp only: uuid_in_def Let_def option.inject split: option.splits prod.splits if_splits)
  with uuid_digits_hex have "length h = 2 * 16 \<and> (\<forall>c\<in>set h. is_hex c)" by blast
  then show ?thesis unfolding k by (intro uuid_text_in) auto
qed

text \<open>An identifier made by \<open>uid.New\<close> reads back as itself.\<close>

lemma uuid_in_v4:
  assumes "canonical_v4 s"
  shows "uuid_in s = Some s"
proof -
  define f where "f i = s ! i" for i
  have len: "length s = 36" and c: "\<forall>i\<in>{0..<36}. if i \<in> {8, 13, 18, 23} then f i = CHR ''-'' else is_hex (f i)"
    using assms by (simp_all add: canonical_v4_def f_def)
  have "s = map f [0..<36]" unfolding f_def by (metis len map_nth)
  then have s: "s = map f [0, 1, 2, 3, 4, 5, 6, 7, 8, 9, 10, 11, 12, 13, 14, 15, 16, 17, 18, 19, 20, 21, 22, 23, 24, 25, 26, 27, 28, 29, 30, 31, 32, 33, 34, 35]"
    by (simp only: upt36)
  define h where "h = take 8 s @ take 4 (drop 9 s) @ take 4 (drop 14 s) @ take 4 (drop 19 s) @ drop 24 s"
  have "f 8 = CHR ''-''" "f 13 = CHR ''-''" "f 18 = CHR ''-''" "f 23 = CHR ''-''"
    using c by auto
  then have "s = uuid_text h" by (subst s) (simp add: h_def uuid_text_def s)
  moreover have "length h = 32" by (simp add: h_def len)
  moreover have "\<forall>c\<in>set h. is_hex c" using c by (simp add: h_def s)
  ultimately show ?thesis using uuid_text_in by metis
qed

text \<open>A \<open>SELECT\<close> by a \<open>UUID\<close> key.\<close>

definition by_id :: "string \<Rightarrow> (string \<Rightarrow> 'db \<Rightarrow> 'a) \<Rightarrow> instant \<Rightarrow> 'db \<Rightarrow> (err + 'a) \<times> 'db" where
  "by_id i q now d =
     (case uuid_in i of
        None \<Rightarrow> (Inl (PgError ''22P02''), d)
      | Some k \<Rightarrow> (Inr (q k d), d))"

lemma by_id_Inr: "by_id i q now d = (Inr a, d') \<longleftrightarrow> (\<exists>k. uuid_in i = Some k \<and> a = q k d \<and> d' = d)"
  by (auto simp: by_id_def split: option.splits)

text \<open>\<open>TEXT\<close> holds any characters but NUL (SQLSTATE 22021).\<close>

definition text_ok :: "string \<Rightarrow> bool" where
  "text_ok s \<longleftrightarrow> CHR 0x00 \<notin> set s"

fun is_unique_violation :: "err \<Rightarrow> bool" where
  "is_unique_violation (PgError code) = (code = ''23505'')"
| "is_unique_violation (Wrapped _ e _) = is_unique_violation e"
| "is_unique_violation _ = False"

section \<open>What a statement may do\<close>

named_theorems tx_keep "operations that stay inside the transaction they run in"

text \<open>\<open>tx_body m\<close>: \<open>m\<close> leaves the context as it is: inside a transaction it neither commits nor
  rolls back, and outside it opens none.\<close>

definition tx_body :: "(('db, 'm) pg_world_scheme, 'a) op \<Rightarrow> bool" where
  "tx_body m \<longleftrightarrow> (\<forall>w r w'. m w = (r, w') \<longrightarrow> tx_of w' = tx_of w)"

lemma tx_bodyI: "(\<And>w r w'. m w = (r, w') \<Longrightarrow> tx_of w' = tx_of w) \<Longrightarrow> tx_body m"
  by (auto simp: tx_body_def)

lemma tx_bodyD: "tx_body m \<Longrightarrow> m w = (r, w') \<Longrightarrow> tx_of w' = tx_of w"
  by (auto simp: tx_body_def)

lemma tx_of_simps [simp]:
  "tx w = NoTx \<Longrightarrow> tx_of w = None" "tx w = InTx s \<Longrightarrow> tx_of w = Some s"
  "tx w = Aborted s \<Longrightarrow> tx_of w = Some s"
  by (simp_all add: tx_of_def)

lemma tx_of_None [simp]: "tx_of w = None \<longleftrightarrow> tx w = NoTx"
  by (simp add: tx_of_def split: tx_state.splits)

lemma tx_body_NoTx: "tx_body m \<Longrightarrow> m w = (r, w') \<Longrightarrow> tx w = NoTx \<Longrightarrow> tx w' = NoTx"
  by (metis tx_bodyD tx_of_None)

lemma tx_of_update [simp]:
  "tx_of (w\<lparr>db := d\<rparr>) = tx_of w" "tx_of (w\<lparr>faults := fs\<rparr>) = tx_of w"
  "tx_of (w\<lparr>wall := t\<rparr>) = tx_of w" "tx_of (w\<lparr>rng_pos := n\<rparr>) = tx_of w"
  "tx_of (w\<lparr>meter := m\<rparr>) = tx_of w" "tx_of (count c w) = tx_of w"
  by (simp_all add: tx_of_def count_def)

lemma next_fault_eq:
  "next_fault w = (f, w1) \<Longrightarrow> w1 = w\<lparr>faults := tl (faults w)\<rparr>"
  by (auto simp: next_fault_def split: list.splits)

lemma next_fault_quiet [simp]: "faults w = [] \<Longrightarrow> next_fault w = (None, w)"
  by (simp add: next_fault_def)

lemma stmt_Inr:
  assumes "stmt f w = (Inr a, w')"
  obtains d where "f (pg_clock w) (db w) = (Inr a, d)" "w' = w\<lparr>faults := tl (faults w), db := d\<rparr>"
    "tx w = NoTx \<or> (\<exists>s. tx w = InTx s)"
  using assms
  by (auto simp: stmt_def dest!: next_fault_eq split: prod.splits sum.splits option.splits
      tx_state.splits fault.splits)

lemma stmt_Inl:
  assumes "stmt f w = (Inl e, w')"
  shows "tx_of w' = tx_of w \<and> pg_clock w' = pg_clock w \<and>
    (db w' = db w \<or> (tx w = NoTx \<and> (\<exists>a. f (pg_clock w) (db w) = (Inr a, db w'))))"
  using assms
  by (auto simp: stmt_def tx_of_def dest!: next_fault_eq split: prod.splits sum.splits option.splits
      tx_state.splits fault.splits)

lemma stmt_tx_body [tx_keep]: "tx_body (stmt f)"
proof (rule tx_bodyI)
  fix w :: "('a, 'b) pg_world_scheme" and r w'
  assume "stmt f w = (r, w')"
  then show "tx_of w' = tx_of w"
    by (cases r) (auto dest: stmt_Inl elim!: stmt_Inr)
qed

lemma stmt_quiet:
  assumes "faults w = []" and "tx w = NoTx \<or> (\<exists>s. tx w = InTx s)"
  shows "f (pg_clock w) (db w) = (Inr a, d) \<Longrightarrow> stmt f w = (Inr a, w\<lparr>db := d\<rparr>)"
    and "f (pg_clock w) (db w) = (Inl e, d) \<Longrightarrow> \<exists>w'. stmt f w = (Inl e, w') \<and> tx_of w' = tx_of w"
  using assms by (auto simp: stmt_def tx_of_def)

lemma tx_body_ok [tx_keep]: "tx_body (ok a)"
  by (rule tx_bodyI) simp

lemma tx_body_fail [tx_keep]: "tx_body (fail e)"
  by (rule tx_bodyI) simp

lemma tx_body_andThen [tx_keep]:
  assumes "tx_body m" and "\<And>a. tx_body (f a)"
  shows "tx_body (andThen m f)"
  using assms unfolding tx_body_def andThen_def
  by (simp split: prod.splits sum.splits)

lemma tx_body_onResult [tx_keep]:
  assumes "tx_body m" and "\<And>a. tx_body (f a)"
  shows "tx_body (onResult m f)"
  using assms unfolding tx_body_def onResult_def
  by (simp split: prod.splits)

lemma tx_body_wrapErr [tx_keep]: "tx_body m \<Longrightarrow> tx_body (wrapErr e m)"
  by (rule tx_bodyI) (auto simp: wrapErr_def split: prod.splits sum.splits dest: tx_bodyD)

lemma tx_body_reading [tx_keep]:
  assumes "\<And>w. tx_of (snd (g w)) = tx_of w" and "\<And>a. tx_body (f a)"
  shows "tx_body (reading g f)"
proof (rule tx_bodyI)
  fix w :: "('a, 'b) pg_world_scheme" and r w'
  assume run: "reading g f w = (r, w')"
  obtain a w1 where g: "g w = (a, w1)" by fastforce
  with assms(1) [of w] have "tx_of w1 = tx_of w" by simp
  with run g show "tx_of w' = tx_of w"
    by (auto simp: reading_def dest: tx_bodyD [OF assms(2)])
qed

lemma tx_body_counting [tx_keep]: "tx_body m \<Longrightarrow> tx_body (counting c m)"
  by (rule tx_bodyI) (auto dest: tx_bodyD)

lemma tx_body_if [tx_keep]: "tx_body m \<Longrightarrow> tx_body n \<Longrightarrow> tx_body (if b then m else n)"
  by simp

lemma tx_body_option [tx_keep]:
  "tx_body m \<Longrightarrow> (\<And>x. tx_body (f x)) \<Longrightarrow> tx_body (case x of None \<Rightarrow> m | Some y \<Rightarrow> f y)"
  by (cases x) simp_all

lemma tx_body_sum [tx_keep]:
  "(\<And>x. tx_body (f x)) \<Longrightarrow> (\<And>x. tx_body (g x)) \<Longrightarrow> tx_body (case x of Inl y \<Rightarrow> f y | Inr y \<Rightarrow> g y)"
  by (cases x) simp_all

section \<open>What a transaction may do\<close>

definition begun :: "('db, 'm) pg_world_scheme \<Rightarrow> ('db, 'm) pg_world_scheme" where
  "begun w = w\<lparr>faults := tl (faults w), tx := InTx (db w)\<rparr>"

lemma begun_simps [simp]:
  "db (begun w) = db w" "tx (begun w) = InTx (db w)" "pg_clock (begun w) = pg_clock w"
  "wall (begun w) = wall w" "rng (begun w) = rng w" "rng_pos (begun w) = rng_pos w"
  "meter (begun w) = meter w" "more (begun w) = more w"
  by (simp_all add: begun_def)

lemma begin_tx_cases:
  "begin_tx w = (r, w1) \<Longrightarrow>
     (\<exists>e. r = Inl e \<and> w1 = w\<lparr>faults := tl (faults w)\<rparr>) \<or> (r = Inr () \<and> w1 = begun w)"
  by (auto simp: begin_tx_def begun_def dest!: next_fault_eq split: prod.splits option.splits)

lemma commit_tx_cases:
  assumes "commit_tx w = (r, w')" and "tx_of w = Some s"
  shows "tx w' = NoTx \<and> ((db w' = s \<and> (\<exists>e. r = Inl e)) \<or> (db w' = db w \<and> tx w = InTx s))"
  using assms
  by (auto simp: commit_tx_def rollback_def tx_of_def dest!: next_fault_eq
      split: prod.splits option.splits tx_state.splits fault.splits)

text \<open>
  The outcomes of a unit of work, whatever fails: either nothing of it is kept and the caller gets
  an error, or the body succeeded and all of it is kept (the caller may still get an error when the
  reply to \<open>COMMIT\<close> is lost).
\<close>

lemma WithinTx_outcomes:
  assumes run: "WithinTx fn w = (r, w')" and out: "tx w = NoTx" and body: "tx_body fn"
  shows "tx w' = NoTx"
    and "(db w' = db w \<and> (\<exists>e. r = Inl e)) \<or>
      (\<exists>a w2. fn (begun w) = (Inr a, w2) \<and> tx w2 = InTx (db w) \<and> db w' = db w2
         \<and> (r = Inr a \<or> (\<exists>e. r = Inl e)))"
proof -
  have "tx w' = NoTx \<and> ((db w' = db w \<and> (\<exists>e. r = Inl e)) \<or>
      (\<exists>a w2. fn (begun w) = (Inr a, w2) \<and> tx w2 = InTx (db w) \<and> db w' = db w2
         \<and> (r = Inr a \<or> (\<exists>e. r = Inl e))))"
  proof (cases "begin_tx w")
    case (Pair b w1)
    show ?thesis
    proof (cases b)
      case (Inl e)
      with Pair run out begin_tx_cases [OF Pair] show ?thesis
        by (auto simp: WithinTx_def)
    next
      case (Inr u)
      with begin_tx_cases [OF Pair] have w1: "w1 = begun w" by auto
      obtain x w2 where fn: "fn (begun w) = (x, w2)" by fastforce
      have tx2: "tx_of w2 = Some (db w)"
        using tx_bodyD [OF body fn] by simp
      show ?thesis
      proof (cases x)
        case (Inl e)
        with run Pair Inr w1 fn out tx2 show ?thesis
          by (auto simp: WithinTx_def rollback_def)
      next
        case (Inr a)
        obtain c w3 where c: "commit_tx w2 = (c, w3)" by fastforce
        from run Pair \<open>b = Inr u\<close> w1 fn out Inr c
        have res: "w' = w3" "r = (case c of Inl e \<Rightarrow> Inl e | Inr _ \<Rightarrow> Inr a)"
          by (auto simp: WithinTx_def split: sum.splits)
        from commit_tx_cases [OF c tx2] res fn Inr show ?thesis
          by (auto split: sum.splits)
      qed
    qed
  qed
  then show "tx w' = NoTx" and "(db w' = db w \<and> (\<exists>e. r = Inl e)) \<or>
      (\<exists>a w2. fn (begun w) = (Inr a, w2) \<and> tx w2 = InTx (db w) \<and> db w' = db w2
         \<and> (r = Inr a \<or> (\<exists>e. r = Inl e)))"
    by auto
qed

lemma WithinTx_tx_body [tx_keep]: "tx_body fn \<Longrightarrow> tx_body (WithinTx fn)"
proof (rule tx_bodyI)
  fix w :: "('a, 'b) pg_world_scheme" and r w'
  assume fn: "tx_body fn" and run: "WithinTx fn w = (r, w')"
  show "tx_of w' = tx_of w"
  proof (cases "tx_of w = None")
    case True
    with WithinTx_outcomes(1) [OF run _ fn] show ?thesis by (metis tx_of_None)
  next
    case False
    with run fn show ?thesis by (simp add: WithinTx_def tx_bodyD)
  qed
qed

text \<open>What neither the statements nor the body touch is kept by the transaction around them.\<close>

lemma WithinTx_keeps:
  fixes w :: "('db, 'm) pg_world_scheme"
  assumes run: "WithinTx fn w = (x, w')" and fn: "\<And>w y w1. fn w = (y, w1) \<Longrightarrow> g w1 = g w"
    and g: "\<And>(w :: ('db, 'm) pg_world_scheme) d. g (w\<lparr>db := d\<rparr>) = g w" "\<And>(w :: ('db, 'm) pg_world_scheme) s. g (w\<lparr>tx := s\<rparr>) = g w"
      "\<And>(w :: ('db, 'm) pg_world_scheme) f. g (w\<lparr>faults := f\<rparr>) = g w"
  shows "g w' = g w"
proof (cases "tx_of w = None")
  case True
  have rb: "g (rollback u) = g u" for u
    by (simp add: rollback_def g split: option.splits)
  have bg: "begin_tx w = (y, w1) \<Longrightarrow> g w1 = g w" for y w1
    by (auto dest!: begin_tx_cases simp: begun_def g)
  have cm: "commit_tx w2 = (y, w3) \<Longrightarrow> g w3 = g w2" for y w2 w3
    by (auto simp: commit_tx_def rb g dest!: next_fault_eq split: prod.splits option.splits tx_state.splits fault.splits)
  from run True show ?thesis
    by (auto simp: WithinTx_def rb dest!: bg fn cm split: prod.splits sum.splits)
next
  case False
  with run fn show ?thesis by (simp add: WithinTx_def)
qed

lemma WithinTx_more:
  assumes "WithinTx fn w = (x, w')" "\<And>w y w1. fn w = (y, w1) \<Longrightarrow> pg_world.more w1 = pg_world.more w"
  shows "pg_world.more w' = pg_world.more w"
  using assms by (rule WithinTx_keeps) simp_all

lemma WithinTx_ok:
  assumes "faults w = []" "tx w = NoTx"
    and "fn (w\<lparr>tx := InTx (db w)\<rparr>) = (Inr a, w2)" "faults w2 = []" "tx w2 = InTx s"
  shows "WithinTx fn w = (Inr a, w2\<lparr>tx := NoTx\<rparr>)"
  using assms by (simp add: WithinTx_def begin_tx_def commit_tx_def)

lemma WithinTx_fail:
  assumes "faults w = []" "tx w = NoTx"
    and "fn (w\<lparr>tx := InTx (db w)\<rparr>) = (Inl e, w2)" "tx_of w2 = Some s"
  shows "WithinTx fn w = (Inl e, w2\<lparr>db := s, tx := NoTx\<rparr>)"
  using assms by (simp add: WithinTx_def begin_tx_def rollback_def)

lemma WithinTx_nested: "tx_of w \<noteq> None \<Longrightarrow> WithinTx fn w = fn w"
  by (simp add: WithinTx_def)

text \<open>A use case commits all of its effect or none, and a nil error means it was committed.\<close>

lemma unit_of_work:
  assumes run: "WithinTx fn w = (x, w')" and out: "tx w = NoTx" and body: "tx_body fn"
    and eff: "\<And>a w2. fn (begun w) = (Inr a, w2) \<Longrightarrow> P a (db w) (db w2)"
  shows "tx w' = NoTx" "db w' = db w \<or> (\<exists>a. P a (db w) (db w'))" "x = Inr a \<Longrightarrow> P a (db w) (db w')"
  using WithinTx_outcomes [OF run out body] eff by (auto; metis)+

lemma unit_success:
  assumes "WithinTx fn w = (Inr a, w')" "tx w = NoTx" "tx_body fn"
  obtains w2 where "fn (begun w) = (Inr a, w2)" "db w' = db w2"
  using WithinTx_outcomes(2) [OF assms] by auto

section \<open>A healthy connection\<close>

definition healthy :: "('db, 'm) pg_world_scheme \<Rightarrow> bool" where
  "healthy w \<longleftrightarrow> faults w = [] \<and> (\<forall>s. tx w \<noteq> Aborted s)"

lemma healthy_simps [simp]:
  "healthy (w\<lparr>db := d\<rparr>) = healthy w" "healthy (w\<lparr>rng_pos := n\<rparr>) = healthy w"
  "healthy (w\<lparr>wall := t\<rparr>) = healthy w" "healthy (w\<lparr>pg_clock := t\<rparr>) = healthy w"
  "faults w = [] \<Longrightarrow> healthy (w\<lparr>tx := InTx s\<rparr>)" "faults w = [] \<Longrightarrow> healthy (w\<lparr>tx := NoTx\<rparr>)"
  by (simp_all add: healthy_def)

lemma stmt_run:
  "healthy w \<Longrightarrow> f (pg_clock w) (db w) = (Inr a, d) \<Longrightarrow> stmt f w = (Inr a, w\<lparr>db := d\<rparr>)"
  by (cases "tx w") (auto simp: healthy_def stmt_def)

lemma stmt_run_error:
  "healthy w \<Longrightarrow> f (pg_clock w) (db w) = (Inl e, d) \<Longrightarrow> fst (stmt f w) = Inl e"
  by (cases "tx w") (auto simp: healthy_def stmt_def)

lemma stmt_run_refused:
  "healthy w \<Longrightarrow> tx w = NoTx \<Longrightarrow> f (pg_clock w) (db w) = (Inl e, d) \<Longrightarrow> stmt f w = (Inl e, w)"
  by (auto simp: healthy_def stmt_def)

text \<open>A statement costs no time of the caller's clock and draws no random number.\<close>

lemma stmt_frame:
  assumes "stmt f w = (r, w')"
  shows "wall w' = wall w" "rng w' = rng w" "rng_pos w' = rng_pos w" "meter w' = meter w"
    "pg_clock w' = pg_clock w" "pg_world.more w' = pg_world.more w"
  using assms
  by (auto simp: stmt_def dest!: next_fault_eq split: prod.splits sum.splits option.splits
      tx_state.splits fault.splits)

lemma NoTx_update: "tx w = NoTx \<Longrightarrow> w\<lparr>rng_pos := n, db := d, tx := NoTx\<rparr> = w\<lparr>rng_pos := n, db := d\<rparr>"
  by (cases w) simp

lemma is_hex_not_nul: "is_hex c \<Longrightarrow> c \<noteq> CHR 0x00"
  by (auto simp: is_hex_def)

lemma uuid_text_ok:
  assumes "uuid_in s = Some k"
  shows "text_ok k"
proof -
  from assms obtain h t where "uuid_digits 16 (if has_prefix s ''{'' then tl s else s) = Some (h, t)"
    and k: "k = uuid_text h"
    by (auto simp only: uuid_in_def Let_def option.inject split: option.splits prod.splits if_splits)
  with uuid_digits_hex have "\<forall>c\<in>set h. is_hex c" by blast
  then show ?thesis
    unfolding text_ok_def k uuid_text_def using is_hex_not_nul
    by (auto dest!: in_set_takeD in_set_dropD)
qed

lemma canonical_nonempty: "uuid_in k = Some k \<Longrightarrow> k \<noteq> ''''"
  by (auto simp: uuid_in_def has_prefix_def numeral_eq_Suc)

lemma uuid_in_Nil [simp]: "uuid_in '''' = None"
  by (auto simp: uuid_in_def has_prefix_def numeral_eq_Suc)

end
