(* ===== verification/Outbox.thy ===== *)
theory Outbox
  imports Postgres Envelope
begin

text \<open>
  The transactional outbox: the table both databases have, the records the services enqueue in the
  transaction of the state change, and the statements of \<open>pulsar-horizon\<close> on it.
\<close>

section \<open>Records and rows\<close>

record outbox_record =
  ob_id :: string
  ob_subject :: string
  ob_event_type :: string
  ob_event_version :: int
  ob_source :: string
  ob_correlation_id :: string
  ob_causation_id :: string
  ob_payload :: payload
  ob_occurred_at :: instant

record outbox_row =
  o_id :: string
  o_subject :: string
  o_event_type :: string
  o_event_version :: int
  o_source :: string
  o_correlation_id :: string
  o_causation_id :: string
  o_payload :: json
  o_created_at :: instant
  o_processed_at :: "instant option"

text \<open>The tables of a database, extended by each service's own.\<close>

record outbox_db =
  t_outbox :: "outbox_row list"

section \<open>Enqueue\<close>

text \<open>\<open>INSERT\<close> of one record: column input, then the primary key.\<close>

definition insert_outbox :: "outbox_record \<Rightarrow> outbox_row list \<Rightarrow> err + outbox_row list" where
  "insert_outbox rec rows =
     (case (uuid_in (ob_id rec), ob_payload rec) of
        (Some i, Some p) \<Rightarrow>
          if \<not> int4 (ob_event_version rec) then Inl (PgError ''22003'')
          else if \<not> (text_ok (ob_subject rec) \<and> text_ok (ob_event_type rec) \<and> text_ok (ob_source rec)
              \<and> text_ok (ob_correlation_id rec) \<and> text_ok (ob_causation_id rec))
          then Inl (PgError ''22021'')
          else if i \<in> o_id ` set rows then Inl (PgError ''23505'')
          else Inr (rows @ [\<lparr>o_id = i, o_subject = ob_subject rec, o_event_type = ob_event_type rec,
            o_event_version = ob_event_version rec, o_source = ob_source rec,
            o_correlation_id = ob_correlation_id rec, o_causation_id = ob_causation_id rec,
            o_payload = p, o_created_at = timestamptz (ob_occurred_at rec), o_processed_at = None\<rparr>])
      | _ \<Rightarrow> Inl (PgError ''22P02''))"

text \<open>A batch is one round trip and one implicit transaction: the first error undoes all of it.\<close>

fun insert_batch :: "outbox_record list \<Rightarrow> outbox_row list \<Rightarrow> err + outbox_row list" where
  "insert_batch [] rows = Inr rows"
| "insert_batch (r # rs) rows =
     (case insert_outbox r rows of Inl e \<Rightarrow> Inl e | Inr rows' \<Rightarrow> insert_batch rs rows')"

definition Enqueue ::
  "outbox_record list \<Rightarrow> (('x outbox_db_scheme, 'm) pg_world_scheme, unit) op" where
  "Enqueue records =
     (if records = [] then ok ()
      else stmt (\<lambda>now d.
        case insert_batch records (t_outbox d) of
          Inl e \<Rightarrow> (Inl e, d)
        | Inr rows \<Rightarrow> (Inr (), d\<lparr>t_outbox := rows\<rparr>)))"

text \<open>
  \<open>record\<close> of both services: the envelope gives the id and the time, the payload is stored bare.
\<close>

definition record_event ::
  "string \<Rightarrow> string \<Rightarrow> string \<Rightarrow> string \<Rightarrow> err + json \<Rightarrow> ('m world_scheme, outbox_record) op" where
  "record_event source eventType correlationID causationID payload w =
     (case payload of
        Inl e \<Rightarrow> (Inl e, w)
      | Inr p \<Rightarrow>
          (case envelope_New eventType source correlationID causationID p w of (env, w') \<Rightarrow>
            (Inr \<lparr>ob_id = env_event_id env, ob_subject = SubjectFor eventType,
                  ob_event_type = env_event_type env, ob_event_version = env_event_version env,
                  ob_source = env_source env, ob_correlation_id = env_correlation_id env,
                  ob_causation_id = env_causation_id env, ob_payload = Some (env_data env),
                  ob_occurred_at = env_occurred_at env\<rparr>, w')))"

lemma insert_outbox_Inr:
  "insert_outbox rec rows = Inr rows' \<Longrightarrow>
     \<exists>r. rows' = rows @ [r] \<and> o_id r \<notin> o_id ` set rows \<and> o_subject r = ob_subject rec
       \<and> o_event_type r = ob_event_type rec \<and> o_correlation_id r = ob_correlation_id rec
       \<and> Some (o_payload r) = ob_payload rec \<and> o_processed_at r = None"
  by (auto simp: insert_outbox_def split: option.splits if_splits prod.splits)

lemma Enqueue_tx_body [tx_keep]: "tx_body (Enqueue rs)"
  by (simp add: Enqueue_def tx_keep)

text \<open>What a successful \<open>Enqueue\<close> of one record leaves behind: exactly one more row.\<close>

lemma Enqueue_one:
  assumes "Enqueue [rec] w = (Inr (), w')"
  obtains r where "w' = w\<lparr>faults := tl (faults w), db := (db w)\<lparr>t_outbox := t_outbox (db w) @ [r]\<rparr>\<rparr>"
    "o_id r \<notin> o_id ` set (t_outbox (db w))" "o_event_type r = ob_event_type rec"
    "o_correlation_id r = ob_correlation_id rec" "Some (o_payload r) = ob_payload rec"
    "o_subject r = ob_subject rec" "o_processed_at r = None"
proof -
  from assms obtain d where d: "(case insert_batch [rec] (t_outbox (db w)) of
      Inl e \<Rightarrow> (Inl e, db w) | Inr rows \<Rightarrow> (Inr (), (db w)\<lparr>t_outbox := rows\<rparr>)) = (Inr (), d)"
    and w': "w' = w\<lparr>faults := tl (faults w), db := d\<rparr>"
    by (auto simp: Enqueue_def elim!: stmt_Inr)
  from d obtain rows where "insert_outbox rec (t_outbox (db w)) = Inr rows"
    and "d = (db w)\<lparr>t_outbox := rows\<rparr>"
    by (auto split: sum.splits)
  with insert_outbox_Inr [of rec "t_outbox (db w)" rows] w' that show ?thesis by auto
qed

lemma record_event_Inr:
  "record_event src ty c k p w = (Inr rec, w') \<Longrightarrow>
     w' = w\<lparr>rng_pos := rng_pos w + 16\<rparr> \<and> ob_event_type rec = ty \<and> ob_subject rec = SubjectFor ty
     \<and> ob_correlation_id rec = c \<and> ob_causation_id rec = k \<and> ob_source rec = src
     \<and> p = Inr (the (ob_payload rec)) \<and> ob_payload rec \<noteq> None
     \<and> canonical_v4 (ob_id rec) \<and> ob_event_version rec = CurrentVersion
     \<and> ob_occurred_at rec = wall w"
  by (auto simp: record_event_def envelope_New_def split: sum.splits prod.splits
      dest: uid_New_canonical uid_New_frame)

lemma record_event_Inl: "record_event src ty c k p w = (Inl e, w') \<Longrightarrow> w' = w \<and> p = Inl e"
  by (auto simp: record_event_def split: sum.splits prod.splits)

section \<open>A healthy connection\<close>

definition fresh_id :: "'x outbox_db_scheme \<Rightarrow> 'm world_scheme \<Rightarrow> bool" where
  "fresh_id d w \<longleftrightarrow> fst (uid_New w) \<notin> o_id ` set (t_outbox d)"

lemma Enqueue_row_run:
  assumes w: "healthy w" and i: "uuid_in (ob_id rec) = Some i" "ob_payload rec = Some p"
    and ok: "int4 (ob_event_version rec)" "text_ok (ob_subject rec)" "text_ok (ob_event_type rec)"
      "text_ok (ob_source rec)" "text_ok (ob_correlation_id rec)" "text_ok (ob_causation_id rec)"
    and new: "i \<notin> o_id ` set (t_outbox (db w))"
  shows "\<exists>r. o_id r = i \<and> Enqueue [rec] w = (Inr (), w\<lparr>db := (db w)\<lparr>t_outbox := t_outbox (db w) @ [r]\<rparr>\<rparr>)"
proof -
  from assms obtain r where r: "insert_outbox rec (t_outbox (db w)) = Inr (t_outbox (db w) @ [r])" "o_id r = i"
    by (auto simp: insert_outbox_def)
  then have "stmt (\<lambda>now d. case insert_batch [rec] (t_outbox d) of
      Inl e \<Rightarrow> (Inl e, d) | Inr rows \<Rightarrow> (Inr (), d\<lparr>t_outbox := rows\<rparr>)) w
    = (Inr (), w\<lparr>db := (db w)\<lparr>t_outbox := t_outbox (db w) @ [r]\<rparr>\<rparr>)"
    by (intro stmt_run [OF w]) simp
  with r(2) show ?thesis by (auto simp: Enqueue_def)
qed

lemma Enqueue_run:
  assumes "healthy w" "uuid_in (ob_id rec) = Some i" "ob_payload rec = Some p"
    and "int4 (ob_event_version rec)" "text_ok (ob_subject rec)" "text_ok (ob_event_type rec)"
      "text_ok (ob_source rec)" "text_ok (ob_correlation_id rec)" "text_ok (ob_causation_id rec)"
    and "i \<notin> o_id ` set (t_outbox (db w))"
  shows "\<exists>d. Enqueue [rec] w = (Inr (), w\<lparr>db := d\<rparr>)"
  using Enqueue_row_run [OF assms] by blast

lemma record_run:
  "record_event src ty c k (Inr p) w = (Inr \<lparr>ob_id = fst (uid_New w), ob_subject = SubjectFor ty,
     ob_event_type = ty, ob_event_version = CurrentVersion, ob_source = src, ob_correlation_id = c,
     ob_causation_id = k, ob_payload = Some p, ob_occurred_at = wall w\<rparr>, w\<lparr>rng_pos := rng_pos w + 16\<rparr>)"
  by (simp add: record_event_def envelope_New_def uid_New_def)

lemma fresh_id_tx [simp]: "fresh_id d (w\<lparr>tx := s\<rparr>) = fresh_id d w"
  by (simp add: fresh_id_def uid_New_def)

end
