(* ===== verification/Core_Store.thy ===== *)
theory Core_Store
  imports Domain Outbox
begin

text \<open>
  The core database (\<open>migrations/core\<close>) and \<open>internal/core/adapter/postgres\<close>: every statement with
  its column input, its \<open>WHERE\<close> guard, its constraints and the rows it touches; then the
  well-formedness of the tables and the ledger that ties the event counters to the reservations.
\<close>

section \<open>Tables\<close>

record core_db = outbox_db +
  t_events :: "event list"
  t_reservations :: "reservation list"

type_synonym 'm core_world = "(core_db, 'm) pg_world_scheme"

definition find_event :: "core_db \<Rightarrow> string \<Rightarrow> event option" where
  "find_event d k = find (\<lambda>e. e_id e = k) (t_events d)"

definition find_reservation :: "core_db \<Rightarrow> string \<Rightarrow> reservation option" where
  "find_reservation d k = find (\<lambda>r. r_id r = k) (t_reservations d)"

definition write_event :: "event \<Rightarrow> core_db \<Rightarrow> core_db" where
  "write_event e d = d\<lparr>t_events := map (\<lambda>x. if e_id x = e_id e then e else x) (t_events d)\<rparr>"

definition write_reservation :: "reservation \<Rightarrow> core_db \<Rightarrow> core_db" where
  "write_reservation r d =
     d\<lparr>t_reservations := map (\<lambda>x. if r_id x = r_id r then r else x) (t_reservations d)\<rparr>"

text \<open>The constraints of \<open>events\<close> and \<open>reservations\<close>.\<close>

definition counts_valid :: "event \<Rightarrow> bool" where
  "counts_valid e \<longleftrightarrow> 0 \<le> e_reserved_count e \<and> 0 \<le> e_sold_count e
     \<and> e_reserved_count e + e_sold_count e \<le> e_capacity e"

definition row_valid :: "reservation \<Rightarrow> bool" where
  "row_valid r \<longleftrightarrow> 0 < r_quantity r \<and> 0 \<le> r_amount_cents r \<and> 0 < r_version r"

definition active :: "reservation \<Rightarrow> bool" where
  "active r \<longleftrightarrow> r_status r = PENDING \<or> r_status r = CONFIRMED"

definition clashes :: "reservation \<Rightarrow> reservation \<Rightarrow> bool" where
  "clashes r x \<longleftrightarrow> r_id r = r_id x \<or>
     (active r \<and> active x \<and> r_user_id r = r_user_id x \<and> r_event_id r = r_event_id x)"

section \<open>Inventory\<close>

definition Inventory_Event :: "string \<Rightarrow> ('m core_world, event) op" where
  "Inventory_Event i =
     andThen (stmt (by_id i (\<lambda>k d. find_event d k)))
       (\<lambda>row. case row of None \<Rightarrow> fail (Sentinel ErrNotFound) | Some e \<Rightarrow> ok e)"

text \<open>
  A conditional \<open>UPDATE\<close> of one event: \<open>guard\<close> is the rest of the \<open>WHERE\<close> clause and \<open>set\<close> the new
  row; integer arithmetic outside 32 bits and a violated \<open>CHECK\<close> are errors.
\<close>

definition update_event ::
  "string \<Rightarrow> int \<Rightarrow> (event \<Rightarrow> int) \<Rightarrow> (event \<Rightarrow> bool) \<Rightarrow> (instant \<Rightarrow> event \<Rightarrow> event) \<Rightarrow>
     instant \<Rightarrow> core_db \<Rightarrow> (err + nat) \<times> core_db" where
  "update_event i n computed guard assign now d =
     (case uuid_in i of
        None \<Rightarrow> (Inl (PgError ''22P02''), d)
      | Some k \<Rightarrow>
          if \<not> int4 n then (Inl (PgError ''22003''), d)
          else case find_event d k of
                 None \<Rightarrow> (Inr 0, d)
               | Some e \<Rightarrow>
                   if \<not> int4 (computed e) then (Inl (PgError ''22003''), d)
                   else if \<not> guard e then (Inr 0, d)
                   else let e' = assign now e in
                     if \<not> (int4 (e_reserved_count e') \<and> int4 (e_sold_count e'))
                     then (Inl (PgError ''22003''), d)
                     else if \<not> counts_valid e' then (Inl (PgError ''23514''), d)
                     else (Inr 1, write_event e' d))"

definition eventExists :: "string \<Rightarrow> ('m core_world, bool) op" where
  "eventExists i = stmt (by_id i (\<lambda>k d. find_event d k \<noteq> None))"

definition notFoundOr :: "string \<Rightarrow> err \<Rightarrow> ('m core_world, 'a) op" where
  "notFoundOr i fallback =
     andThen (eventExists i) (\<lambda>exists. fail (if exists then fallback else Sentinel ErrNotFound))"

definition ReserveCapacity :: "string \<Rightarrow> int \<Rightarrow> ('m core_world, unit) op" where
  "ReserveCapacity i n =
     andThen (stmt (update_event i n (\<lambda>e. e_reserved_count e + e_sold_count e + n)
         (\<lambda>e. e_reserved_count e + e_sold_count e + n \<le> e_capacity e)
         (\<lambda>now e. e\<lparr>e_reserved_count := e_reserved_count e + n, e_updated_at := timestamptz now\<rparr>)))
       (\<lambda>rows. if rows = 0 then notFoundOr i (Sentinel ErrSoldOut) else ok ())"

definition ReleaseCapacity :: "string \<Rightarrow> int \<Rightarrow> ('m core_world, unit) op" where
  "ReleaseCapacity i n =
     andThen (stmt (update_event i n (\<lambda>e. 0)
         (\<lambda>e. e_reserved_count e \<ge> n)
         (\<lambda>now e. e\<lparr>e_reserved_count := e_reserved_count e - n, e_updated_at := timestamptz now\<rparr>)))
       (\<lambda>rows. if rows = 0 then notFoundOr i (Sentinel ErrNotEnoughReserved) else ok ())"

definition CommitSold :: "string \<Rightarrow> int \<Rightarrow> ('m core_world, unit) op" where
  "CommitSold i n =
     andThen (stmt (update_event i n (\<lambda>e. 0)
         (\<lambda>e. e_reserved_count e \<ge> n)
         (\<lambda>now e. e\<lparr>e_reserved_count := e_reserved_count e - n,
                    e_sold_count := e_sold_count e + n, e_updated_at := timestamptz now\<rparr>)))
       (\<lambda>rows. if rows = 0 then notFoundOr i (Sentinel ErrNotEnoughReserved) else ok ())"

section \<open>Reservations\<close>

text \<open>What the columns keep of a reservation, once its id, event and currency are read.\<close>

definition stored :: "string \<Rightarrow> string \<Rightarrow> string \<Rightarrow> reservation \<Rightarrow> reservation" where
  "stored i ev cur r = r\<lparr>r_id := i, r_event_id := ev, r_currency := cur,
     r_expires_at := timestamptz (r_expires_at r),
     r_confirmed_at := map_option timestamptz (r_confirmed_at r),
     r_created_at := timestamptz (r_created_at r), r_updated_at := timestamptz (r_updated_at r)\<rparr>"

definition insert_reservation :: "reservation \<Rightarrow> instant \<Rightarrow> core_db \<Rightarrow> (err + nat) \<times> core_db" where
  "insert_reservation r now d =
     (case (uuid_in (r_id r), uuid_in (r_event_id r)) of
        (Some i, Some ev) \<Rightarrow>
          (case char3 (r_currency r) of
             None \<Rightarrow> (Inl (PgError ''22001''), d)
           | Some cur \<Rightarrow>
               let row = stored i ev cur r in
               if \<not> (int4 (r_quantity r) \<and> int4 (r_version r)) then (Inl (PgError ''22003''), d)
               else if \<not> (text_ok (r_user_id r) \<and> text_ok (r_currency r)) then (Inl (PgError ''22021''), d)
               else if \<not> row_valid row then (Inl (PgError ''23514''), d)
               else if \<exists>x\<in>set (t_reservations d). clashes row x then (Inl (PgError ''23505''), d)
               else if find_event d ev = None then (Inl (PgError ''23503''), d)
               else (Inr 1, d\<lparr>t_reservations := t_reservations d @ [row]\<rparr>))
      | _ \<Rightarrow> (Inl (PgError ''22P02''), d))"

definition Reservations_Create :: "reservation \<Rightarrow> ('m core_world, unit) op" where
  "Reservations_Create r =
     wrapErr (\<lambda>e. if is_unique_violation e then Sentinel ErrConflict else e)
       (andThen (stmt (insert_reservation r)) (\<lambda>_. ok ()))"

definition Reservations_Get :: "string \<Rightarrow> ('m core_world, reservation) op" where
  "Reservations_Get i =
     andThen (stmt (by_id i (\<lambda>k d. find_reservation d k)))
       (\<lambda>row. case row of None \<Rightarrow> fail (Sentinel ErrNotFound) | Some r \<Rightarrow> ok r)"

text \<open>\<open>UPDATE ... WHERE id = $1 AND version = $4 - 1\<close>, the optimistic lock.\<close>

definition update_reservation :: "reservation \<Rightarrow> instant \<Rightarrow> core_db \<Rightarrow> (err + nat) \<times> core_db" where
  "update_reservation r now d =
     (case uuid_in (r_id r) of
        None \<Rightarrow> (Inl (PgError ''22P02''), d)
      | Some k \<Rightarrow>
          if \<not> (int4 (r_version r) \<and> int4 (r_version r - 1)) then (Inl (PgError ''22003''), d)
          else case find (\<lambda>x. r_id x = k \<and> r_version x = r_version r - 1) (t_reservations d) of
                 None \<Rightarrow> (Inr 0, d)
               | Some x \<Rightarrow>
                   let row = x\<lparr>r_status := r_status r,
                     r_confirmed_at := map_option timestamptz (r_confirmed_at r),
                     r_version := r_version r, r_updated_at := timestamptz (r_updated_at r)\<rparr> in
                   if \<not> row_valid row then (Inl (PgError ''23514''), d)
                   else if \<exists>y\<in>set (t_reservations d). r_id y \<noteq> k \<and> clashes row y
                   then (Inl (PgError ''23505''), d)
                   else (Inr 1, write_reservation row d))"

definition Reservations_Update :: "reservation \<Rightarrow> ('m core_world, unit) op" where
  "Reservations_Update r =
     andThen (stmt (update_reservation r))
       (\<lambda>rows. if rows = 0 then fail (Sentinel ErrConflict) else ok ())"

definition Core_Enqueue :: "outbox_record list \<Rightarrow> ('m core_world, unit) op" where
  "Core_Enqueue = Enqueue"

section \<open>What the statements do\<close>

lemma update_event_rows:
  assumes "update_event i n calc guard assign now d = (Inr m, d')" "m \<noteq> 0"
  obtains k e where "uuid_in i = Some k" "find_event d k = Some e" "guard e"
    "d' = write_event (assign now e) d"
  using assms by (auto simp: update_event_def Let_def split: option.splits if_splits)

lemma notFoundOr_fails: "notFoundOr i e w \<noteq> (Inr a, w')"
  by (auto simp: notFoundOr_def op_simps)

text \<open>The three capacity operations: a nil error means the guarded row was written.\<close>

lemma capacity_write:
  assumes "andThen (stmt (update_event i n calc guard assign)) (\<lambda>rows. if rows = 0 then notFoundOr i e0 else ok ()) w
      = (Inr u, w')"
  obtains k e where "uuid_in i = Some k" "find_event (db w) k = Some e" "guard e"
    "db w' = write_event (assign (pg_clock w) e) (db w)"
proof -
  from assms obtain rows w1 where st: "stmt (update_event i n calc guard assign) w = (Inr rows, w1)"
    and rows: "rows \<noteq> 0" "w' = w1"
    by (auto simp: andThen_Inr notFoundOr_fails split: if_splits)
  from st obtain d where d: "update_event i n calc guard assign (pg_clock w) (db w) = (Inr rows, d)"
    and w1: "w1 = w\<lparr>faults := tl (faults w), db := d\<rparr>"
    by (rule stmt_Inr)
  from d rows(1) show ?thesis
    by (rule update_event_rows) (use that w1 rows(2) in auto)
qed

lemma insert_reservation_Inr:
  assumes "insert_reservation r now d = (Inr m, d')"
  shows "\<exists>i ev cur. uuid_in (r_id r) = Some i \<and> uuid_in (r_event_id r) = Some ev
    \<and> char3 (r_currency r) = Some cur \<and> row_valid r \<and> int4 (r_version r) \<and> int4 (r_quantity r)
    \<and> (\<forall>x\<in>set (t_reservations d). \<not> clashes (stored i ev cur r) x) \<and> find_event d ev \<noteq> None
    \<and> d' = d\<lparr>t_reservations := t_reservations d @ [stored i ev cur r]\<rparr>"
  using assms
  by (auto simp: insert_reservation_def Let_def row_valid_def stored_def split: option.splits if_splits)

lemma Create_write:
  assumes "Reservations_Create r w = (Inr u, w')"
  shows "\<exists>d. insert_reservation r (pg_clock w) (db w) = (Inr d, db w')"
  using assms by (auto simp: Reservations_Create_def andThen_Inr elim!: stmt_Inr)

lemma update_reservation_rows:
  assumes "update_reservation r now d = (Inr m, d')" "m \<noteq> 0"
  shows "\<exists>x. x \<in> set (t_reservations d) \<and> uuid_in (r_id r) = Some (r_id x)
    \<and> r_version r = r_version x + 1 \<and> int4 (r_version r)
    \<and> d' = write_reservation (x\<lparr>r_status := r_status r,
         r_confirmed_at := map_option timestamptz (r_confirmed_at r),
         r_version := r_version r, r_updated_at := timestamptz (r_updated_at r)\<rparr>) d"
  using assms
  by (auto simp: update_reservation_def Let_def split: option.splits if_splits dest!: find_SomeD)

lemma Update_write:
  assumes "Reservations_Update r w = (Inr u, w')"
  shows "\<exists>m. m \<noteq> 0 \<and> update_reservation r (pg_clock w) (db w) = (Inr m, db w')"
  using assms by (auto simp: Reservations_Update_def andThen_Inr split: if_splits elim!: stmt_Inr)

lemma Get_read:
  assumes "Reservations_Get i w = (Inr r, w')"
  shows "db w' = db w \<and> tx w' = tx w \<and> (\<exists>k. uuid_in i = Some k \<and> find_reservation (db w) k = Some r)"
proof -
  from assms have "stmt (by_id i (\<lambda>k d. find_reservation d k)) w = (Inr (Some r), w')"
    by (auto simp: Reservations_Get_def andThen_Inr split: option.splits)
  then show ?thesis by (rule stmt_Inr) (auto simp: by_id_Inr)
qed

lemma by_id_db: "stmt (by_id i q) w = (x, w') \<Longrightarrow> db w' = db w"
  by (cases x) (auto simp: by_id_Inr dest!: stmt_Inl elim!: stmt_Inr)

lemma Get_db: "Reservations_Get i w = (x, w') \<Longrightarrow> db w' = db w"
  by (cases x) (auto simp: Reservations_Get_def op_simps dest: by_id_db split: option.splits)

lemma Event_read:
  assumes "Inventory_Event i w = (Inr e, w')"
  shows "db w' = db w \<and> tx w' = tx w \<and> (\<exists>k. uuid_in i = Some k \<and> find_event (db w) k = Some e)"
proof -
  from assms have "stmt (by_id i (\<lambda>k d. find_event d k)) w = (Inr (Some e), w')"
    by (auto simp: Inventory_Event_def andThen_Inr split: option.splits)
  then show ?thesis by (rule stmt_Inr) (auto simp: by_id_Inr)
qed

text \<open>Every adapter stays inside the transaction it runs in.\<close>

lemma core_tx_bodies [tx_keep]:
  "tx_body (Inventory_Event i)" "tx_body (ReserveCapacity i n)" "tx_body (ReleaseCapacity i n)"
  "tx_body (CommitSold i n)" "tx_body (Reservations_Create r)" "tx_body (Reservations_Get i)"
  "tx_body (Reservations_Update r)" "tx_body (Core_Enqueue recs)"
  unfolding Inventory_Event_def ReserveCapacity_def ReleaseCapacity_def CommitSold_def
      Reservations_Create_def Reservations_Get_def Reservations_Update_def Core_Enqueue_def
      notFoundOr_def eventExists_def
  by (intro tx_keep)+

end
