(* ===== verification/Core_Service.thy ===== *)
theory Core_Service
  imports Core_Store
begin

text \<open>
  \<open>internal/core/application\<close>: the ports, the emitted payloads and the reservation use cases, each
  with the branches and the order of effects of the code.  A use case is split where the code has
  read what it needs and starts to write (\<open>reserve_write\<close>, \<open>confirm_loaded\<close>, \<open>release_loaded\<close>),
  so that concurrent executions can be stated over the same definitions.
\<close>

section \<open>Ports\<close>

text \<open>The state is the world of \<open>Runtime\<close> extended by whatever the adapters keep.\<close>

record 'm hold_store =
  hs_Set :: "string \<Rightarrow> duration \<Rightarrow> ('m world_scheme, unit) op"
  hs_Release :: "string \<Rightarrow> ('m world_scheme, unit) op"

record 'm service =
  sv_Create :: "reservation \<Rightarrow> ('m world_scheme, unit) op"
  sv_Get :: "string \<Rightarrow> ('m world_scheme, reservation) op"
  sv_Update :: "reservation \<Rightarrow> ('m world_scheme, unit) op"
  sv_Event :: "string \<Rightarrow> ('m world_scheme, event) op"
  sv_ReserveCapacity :: "string \<Rightarrow> int \<Rightarrow> ('m world_scheme, unit) op"
  sv_ReleaseCapacity :: "string \<Rightarrow> int \<Rightarrow> ('m world_scheme, unit) op"
  sv_CommitSold :: "string \<Rightarrow> int \<Rightarrow> ('m world_scheme, unit) op"
  sv_Enqueue :: "outbox_record list \<Rightarrow> ('m world_scheme, unit) op"
  sv_tx :: "(('m world_scheme, reservation) op \<Rightarrow> ('m world_scheme, reservation) op) option"
  sv_Now :: "'m world_scheme \<Rightarrow> instant"
  sv_ttl :: duration
  sv_source :: string
  sv_holds :: "'m hold_store option"
  sv_IsValid :: "string \<Rightarrow> bool"

text \<open>\<open>SystemClock\<close>.\<close>

definition SystemClock_Now :: "'m world_scheme \<Rightarrow> instant" where
  "SystemClock_Now w = wall w"

section \<open>Emitted payloads\<close>

definition TicketReservedPayload :: "reservation \<Rightarrow> err + json" where
  "TicketReservedPayload r =
     (case enc_time (r_expires_at r) of
        Inl e \<Rightarrow> Inl e
      | Inr t \<Rightarrow> Inr (JObj [(''reservation_id'', JStr (r_id r)), (''event_id'', JStr (r_event_id r)),
          (''user_id'', JStr (r_user_id r)), (''quantity'', JInt (r_quantity r)),
          (''amount_cents'', JInt (r_amount_cents r)), (''currency'', JStr (r_currency r)),
          (''expires_at'', t)]))"

definition TicketConfirmedPayload :: "reservation \<Rightarrow> err + json" where
  "TicketConfirmedPayload r =
     Inr (JObj [(''reservation_id'', JStr (r_id r)), (''event_id'', JStr (r_event_id r)),
       (''quantity'', JInt (r_quantity r))])"

datatype release_reason = reasonExpired | reasonFailed | reasonCancelled

fun reason_text :: "release_reason \<Rightarrow> string" where
  "reason_text reasonExpired = ''expired''"
| "reason_text reasonFailed = ''payment_failed''"
| "reason_text reasonCancelled = ''cancelled''"

definition TicketReleasedPayload :: "release_reason \<Rightarrow> reservation \<Rightarrow> err + json" where
  "TicketReleasedPayload reason r =
     Inr (JObj [(''reservation_id'', JStr (r_id r)), (''event_id'', JStr (r_event_id r)),
       (''quantity'', JInt (r_quantity r)), (''reason'', JStr (reason_text reason))])"

section \<open>Use cases\<close>

record reserve_command =
  rc_reservation_id :: string
  rc_event_id :: string
  rc_user_id :: string
  rc_quantity :: int

definition record_core ::
  "'m service \<Rightarrow> string \<Rightarrow> string \<Rightarrow> string \<Rightarrow> err + json \<Rightarrow> ('m world_scheme, outbox_record) op" where
  "record_core sv = record_event (sv_source sv)"

definition inTx ::
  "'m service \<Rightarrow> ('m world_scheme, reservation) op \<Rightarrow> ('m world_scheme, reservation) op" where
  "inTx sv fn = (case sv_tx sv of None \<Rightarrow> fn | Some run \<Rightarrow> run fn)"

definition releaseHold :: "'m service \<Rightarrow> reservation \<Rightarrow> ('m world_scheme, unit) op" where
  "releaseHold sv res =
     (case sv_holds sv of
        None \<Rightarrow> ok ()
      | Some h \<Rightarrow> onResult (hs_Release h (r_id res)) (\<lambda>_. ok ()))"

definition load :: "'m service \<Rightarrow> string \<Rightarrow> ('m world_scheme, reservation) op" where
  "load sv i = (if i = '''' then fail (Sentinel ErrNotFound) else sv_Get sv i)"

definition new_input :: "'m service \<Rightarrow> reserve_command \<Rightarrow> instant \<Rightarrow> event \<Rightarrow> reservation_input" where
  "new_input sv cmd now event =
     \<lparr>in_id = rc_reservation_id cmd, in_event_id = rc_event_id cmd, in_user_id = rc_user_id cmd,
      in_quantity = rc_quantity cmd,
      in_amount_cents = wrap64 (e_price_cents event * rc_quantity cmd),
      in_currency = '''', in_ttl = sv_ttl sv, in_now = now\<rparr>"

definition reserve_write ::
  "'m service \<Rightarrow> reserve_command \<Rightarrow> instant \<Rightarrow> event \<Rightarrow> ('m world_scheme, reservation) op" where
  "reserve_write sv cmd now event =
     andThen (sv_ReserveCapacity sv (rc_event_id cmd) (rc_quantity cmd)) (\<lambda>_.
     reading (NewReservation (new_input sv cmd now event)) (\<lambda>res.
     andThen (sv_Create sv res) (\<lambda>_.
     andThen (record_core sv TypeTicketReserved (r_id res) '''' (TicketReservedPayload res)) (\<lambda>rec.
     andThen (sv_Enqueue sv [rec]) (\<lambda>_. ok res)))))"

definition reserve_new :: "'m service \<Rightarrow> reserve_command \<Rightarrow> ('m world_scheme, reservation) op" where
  "reserve_new sv cmd =
     reading (\<lambda>w. (sv_Now sv w, w)) (\<lambda>now.
     andThen (sv_Event sv (rc_event_id cmd)) (\<lambda>event.
     if \<not> SaleIsOpen now event then fail (Sentinel ErrSaleNotOpen)
     else reserve_write sv cmd now event))"

definition reserve :: "'m service \<Rightarrow> reserve_command \<Rightarrow> ('m world_scheme, reservation) op" where
  "reserve sv cmd =
     (if rc_event_id cmd = '''' \<or> rc_user_id cmd = '''' \<or> rc_quantity cmd \<le> 0
      then fail (Sentinel ErrInvalidQuantity)
      else if rc_reservation_id cmd \<noteq> '''' \<and> \<not> sv_IsValid sv (rc_reservation_id cmd)
      then fail (Sentinel ErrInvalidID)
      else if rc_reservation_id cmd \<noteq> ''''
      then onResult (sv_Get sv (rc_reservation_id cmd)) (\<lambda>r.
             case r of
               Inr existing \<Rightarrow> ok existing
             | Inl e \<Rightarrow> if \<not> errors_is e ErrNotFound then fail e else reserve_new sv cmd)
      else reserve_new sv cmd)"

definition Reserve :: "'m service \<Rightarrow> reserve_command \<Rightarrow> ('m world_scheme, reservation) op" where
  "Reserve sv cmd =
     andThen (inTx sv (reserve sv cmd)) (\<lambda>res.
       case sv_holds sv of
         None \<Rightarrow> ok res
       | Some h \<Rightarrow>
           reading (\<lambda>w. (sv_Now sv w, w)) (\<lambda>now.
           onResult (hs_Set h (r_id res) (time_sub (r_expires_at res) now)) (\<lambda>_. ok res)))"

definition cannotConfirm :: "reservation_status \<Rightarrow> err" where
  "cannotConfirm s =
     Wrapped '''' (Sentinel ErrInvalidTransition) ('': cannot confirm reservation in status '' @ status_text s)"

definition confirm_loaded :: "'m service \<Rightarrow> reservation \<Rightarrow> ('m world_scheme, reservation) op" where
  "confirm_loaded sv res0 =
     (if r_status res0 = CONFIRMED then ok res0
      else if r_status res0 \<noteq> PENDING then fail (cannotConfirm (r_status res0))
      else
        reading (\<lambda>w. (sv_Now sv w, w)) (\<lambda>now.
        case Confirm now res0 of
          Inl e \<Rightarrow> fail e
        | Inr res \<Rightarrow>
            andThen (sv_CommitSold sv (r_event_id res) (r_quantity res)) (\<lambda>_.
            andThen (sv_Update sv res) (\<lambda>_.
            andThen (record_core sv TypeTicketConfirmed (r_id res) '''' (TicketConfirmedPayload res)) (\<lambda>rec.
            andThen (sv_Enqueue sv [rec]) (\<lambda>_. ok res))))))"

definition confirm :: "'m service \<Rightarrow> string \<Rightarrow> ('m world_scheme, reservation) op" where
  "confirm sv i = andThen (load sv i) (confirm_loaded sv)"

definition Service_Confirm :: "'m service \<Rightarrow> string \<Rightarrow> ('m world_scheme, reservation) op" where
  "Service_Confirm sv i =
     andThen (inTx sv (confirm sv i)) (\<lambda>res. andThen (releaseHold sv res) (\<lambda>_. ok res))"

fun leave :: "release_reason \<Rightarrow> instant \<Rightarrow> reservation \<Rightarrow> err + reservation" where
  "leave reasonExpired = Expire"
| "leave reasonFailed = MarkFailed"
| "leave reasonCancelled = Cancel"

definition release_loaded ::
  "'m service \<Rightarrow> release_reason \<Rightarrow> reservation \<Rightarrow> ('m world_scheme, reservation) op" where
  "release_loaded sv reason res0 =
     (if r_status res0 \<in> {EXPIRED, FAILED, CANCELLED} then ok res0
      else
        reading (\<lambda>w. (sv_Now sv w, w)) (\<lambda>now.
        case leave reason now res0 of
          Inl e \<Rightarrow> fail e
        | Inr res \<Rightarrow>
            andThen (sv_ReleaseCapacity sv (r_event_id res) (r_quantity res)) (\<lambda>_.
            andThen (sv_Update sv res) (\<lambda>_.
            andThen (record_core sv TypeTicketReleased (r_id res) '''' (TicketReleasedPayload reason res)) (\<lambda>rec.
            andThen (sv_Enqueue sv [rec]) (\<lambda>_. ok res))))))"

definition releaseInTx :: "'m service \<Rightarrow> string \<Rightarrow> release_reason \<Rightarrow> ('m world_scheme, reservation) op" where
  "releaseInTx sv i reason = andThen (load sv i) (release_loaded sv reason)"

definition release :: "'m service \<Rightarrow> string \<Rightarrow> release_reason \<Rightarrow> ('m world_scheme, reservation) op" where
  "release sv i reason =
     andThen (inTx sv (releaseInTx sv i reason)) (\<lambda>res. andThen (releaseHold sv res) (\<lambda>_. ok res))"

definition Service_Expire :: "'m service \<Rightarrow> string \<Rightarrow> ('m world_scheme, reservation) op" where
  "Service_Expire sv i = release sv i reasonExpired"

definition Service_Fail :: "'m service \<Rightarrow> string \<Rightarrow> ('m world_scheme, reservation) op" where
  "Service_Fail sv i = release sv i reasonFailed"

definition Service_Cancel :: "'m service \<Rightarrow> string \<Rightarrow> ('m world_scheme, reservation) op" where
  "Service_Cancel sv i = release sv i reasonCancelled"

end
