(* ===== verification/Ledger.thy ===== *)
theory Ledger
  imports Core_Store
begin

text \<open>
  What the core tables promise: they are well formed, the counters of every event are exactly the
  units of its PENDING and CONFIRMED reservations (the ledger), and every reservation has exactly the
  outbox rows of the transitions it made.  The two effects a committed use case can have, a booking
  and a settlement, keep all of it.
\<close>

section \<open>Invariants\<close>

definition units :: "core_db \<Rightarrow> reservation_status \<Rightarrow> string \<Rightarrow> int" where
  "units d s k =
     sum_list (map (\<lambda>r. if r_event_id r = k \<and> r_status r = s then r_quantity r else 0)
       (t_reservations d))"

definition wf_reservation :: "core_db \<Rightarrow> reservation \<Rightarrow> bool" where
  "wf_reservation d r \<longleftrightarrow> uuid_in (r_id r) = Some (r_id r)
     \<and> uuid_in (r_event_id r) = Some (r_event_id r) \<and> find_event d (r_event_id r) \<noteq> None
     \<and> row_valid r \<and> int4 (r_version r) \<and> int4 (r_quantity r)"

definition wf_event :: "event \<Rightarrow> bool" where
  "wf_event e \<longleftrightarrow> uuid_in (e_id e) = Some (e_id e) \<and> int4 (e_capacity e)
     \<and> 0 < e_price_cents e \<and> int64 (e_price_cents e)"

definition wf_core :: "core_db \<Rightarrow> bool" where
  "wf_core d \<longleftrightarrow> (\<forall>e\<in>set (t_events d). wf_event e)
     \<and> distinct (map e_id (t_events d)) \<and> distinct (map r_id (t_reservations d))
     \<and> distinct (map o_id (t_outbox d))
     \<and> (\<forall>r\<in>set (t_reservations d). wf_reservation d r)
     \<and> (\<forall>x\<in>set (t_reservations d). \<forall>y\<in>set (t_reservations d). r_id x \<noteq> r_id y \<longrightarrow> \<not> clashes x y)"

definition balanced :: "core_db \<Rightarrow> event \<Rightarrow> bool" where
  "balanced d e \<longleftrightarrow> counts_valid e \<and> e_reserved_count e = units d PENDING (e_id e)
     \<and> e_sold_count e = units d CONFIRMED (e_id e)"

definition ledger :: "core_db \<Rightarrow> bool" where
  "ledger d \<longleftrightarrow> (\<forall>e\<in>set (t_events d). balanced d e)"

text \<open>The event types of the outbox rows correlated with a reservation, oldest first.\<close>

definition trail :: "core_db \<Rightarrow> string \<Rightarrow> string list" where
  "trail d k = map o_event_type (filter (\<lambda>ob. uuid_in (o_correlation_id ob) = Some k) (t_outbox d))"

fun expected_trail :: "reservation_status \<Rightarrow> string list" where
  "expected_trail PENDING = [TypeTicketReserved]"
| "expected_trail CONFIRMED = [TypeTicketReserved, TypeTicketConfirmed]"
| "expected_trail _ = [TypeTicketReserved, TypeTicketReleased]"

definition outbox_agrees :: "core_db \<Rightarrow> bool" where
  "outbox_agrees d \<longleftrightarrow> (\<forall>k. trail d k =
     (case find_reservation d k of None \<Rightarrow> [] | Some r \<Rightarrow> expected_trail (r_status r)))"

definition core_inv :: "core_db \<Rightarrow> bool" where
  "core_inv d \<longleftrightarrow> wf_core d \<and> ledger d \<and> outbox_agrees d"

section \<open>Effects\<close>

text \<open>An outbox row that a transition of reservation \<open>k\<close> adds.\<close>

definition announces :: "core_db \<Rightarrow> string \<Rightarrow> string \<Rightarrow> outbox_row \<Rightarrow> bool" where
  "announces d ty k o' \<longleftrightarrow> o_id o' \<notin> o_id ` set (t_outbox d) \<and> o_event_type o' = ty
     \<and> uuid_in (o_correlation_id o') = Some k \<and> o_subject o' = SubjectFor ty
     \<and> o_processed_at o' = None"

definition booked :: "event \<Rightarrow> reservation \<Rightarrow> outbox_row \<Rightarrow> core_db \<Rightarrow> core_db" where
  "booked e r o' d = (write_event e d)\<lparr>t_reservations := t_reservations d @ [r], t_outbox := t_outbox d @ [o']\<rparr>"

definition settled :: "event \<Rightarrow> reservation \<Rightarrow> outbox_row \<Rightarrow> core_db \<Rightarrow> core_db" where
  "settled e r o' d = (write_reservation r (write_event e d))\<lparr>t_outbox := t_outbox d @ [o']\<rparr>"

definition books :: "core_db \<Rightarrow> event \<Rightarrow> reservation \<Rightarrow> outbox_row \<Rightarrow> core_db \<Rightarrow> bool" where
  "books d e r o' d' \<longleftrightarrow> find_event d (r_event_id r) = Some e
     \<and> r_status r = PENDING \<and> wf_reservation d r \<and> (\<forall>x\<in>set (t_reservations d). \<not> clashes r x)
     \<and> e_reserved_count e + e_sold_count e + r_quantity r \<le> e_capacity e
     \<and> announces d TypeTicketReserved (r_id r) o'
     \<and> (\<exists>t. d' = booked (e\<lparr>e_reserved_count := e_reserved_count e + r_quantity r, e_updated_at := t\<rparr>) r o' d)"

fun closing_type :: "reservation_status \<Rightarrow> string" where
  "closing_type CONFIRMED = TypeTicketConfirmed"
| "closing_type _ = TypeTicketReleased"

definition moved_counts :: "reservation_status \<Rightarrow> int \<Rightarrow> event \<Rightarrow> event" where
  "moved_counts s n e = e\<lparr>e_reserved_count := e_reserved_count e - n,
     e_sold_count := (if s = CONFIRMED then e_sold_count e + n else e_sold_count e)\<rparr>"

definition settles ::
  "core_db \<Rightarrow> reservation_status \<Rightarrow> event \<Rightarrow> reservation \<Rightarrow> outbox_row \<Rightarrow> core_db \<Rightarrow> bool" where
  "settles d s e r o' d' \<longleftrightarrow> r \<in> set (t_reservations d) \<and> r_status r = PENDING \<and> s \<noteq> PENDING
     \<and> find_event d (r_event_id r) = Some e \<and> r_quantity r \<le> e_reserved_count e
     \<and> int4 (r_version r + 1) \<and> announces d (closing_type s) (r_id r) o'
     \<and> (\<exists>t u c. d' = settled ((moved_counts s (r_quantity r) e)\<lparr>e_updated_at := t\<rparr>)
          (r\<lparr>r_status := s, r_confirmed_at := c, r_version := r_version r + 1, r_updated_at := u\<rparr>) o' d)"

section \<open>Reading the tables after an effect\<close>

lemma find_event_Some: "find_event d k = Some e \<Longrightarrow> e \<in> set (t_events d) \<and> e_id e = k"
  unfolding find_event_def by (auto dest: find_SomeD)

lemma find_reservation_Some:
  "find_reservation d k = Some r \<Longrightarrow> r \<in> set (t_reservations d) \<and> r_id r = k"
  unfolding find_reservation_def by (auto dest: find_SomeD)

lemma find_event_None: "find_event d k = None \<longleftrightarrow> k \<notin> e_id ` set (t_events d)"
  by (auto simp: find_event_def find_None_iff)

lemma find_reservation_None: "find_reservation d k = None \<longleftrightarrow> k \<notin> r_id ` set (t_reservations d)"
  by (auto simp: find_reservation_def find_None_iff)

lemma find_reservation_key:
  "wf_core d \<Longrightarrow> r \<in> set (t_reservations d) \<Longrightarrow> find_reservation d (r_id r) = Some r"
  by (simp add: find_reservation_def wf_core_def find_key)

lemma write_event_simps [simp]:
  "t_reservations (write_event e d) = t_reservations d" "t_outbox (write_event e d) = t_outbox d"
  "map e_id (t_events (write_event e d)) = map e_id (t_events d)"
  by (auto simp: write_event_def)

lemma write_reservation_simps [simp]:
  "t_events (write_reservation r d) = t_events d" "t_outbox (write_reservation r d) = t_outbox d"
  "map r_id (t_reservations (write_reservation r d)) = map r_id (t_reservations d)"
  by (auto simp: write_reservation_def)

lemma set_write_event:
  "e0 \<in> set (t_events d) \<Longrightarrow> e_id e = e_id e0 \<Longrightarrow>
     set (t_events (write_event e d)) = insert e {x \<in> set (t_events d). e_id x \<noteq> e_id e0}"
  by (auto simp: write_event_def)

lemma set_write_reservation:
  "r0 \<in> set (t_reservations d) \<Longrightarrow> r_id r = r_id r0 \<Longrightarrow>
     set (t_reservations (write_reservation r d)) = insert r {x \<in> set (t_reservations d). r_id x \<noteq> r_id r0}"
  by (auto simp: write_reservation_def)

lemma find_snoc:
  "find P (xs @ [y]) = (case find P xs of None \<Rightarrow> if P y then Some y else None | Some x \<Rightarrow> Some x)"
  by (induction xs) auto

lemma booked_simps [simp]:
  "t_events (booked e r b d) = t_events (write_event e d)"
  "t_reservations (booked e r b d) = t_reservations d @ [r]"
  "t_outbox (booked e r b d) = t_outbox d @ [b]"
  by (simp_all add: booked_def)

lemma settled_simps [simp]:
  "t_events (settled e r b d) = t_events (write_event e d)"
  "t_reservations (settled e r b d) = t_reservations (write_reservation r d)"
  "t_outbox (settled e r b d) = t_outbox d @ [b]"
  by (simp_all add: settled_def write_reservation_def)

lemma events_known_cong:
  "map e_id (t_events d') = map e_id (t_events d) \<Longrightarrow>
     find_event d' k = None \<longleftrightarrow> find_event d k = None"
  by (metis find_event_None list.set_map)

lemma wf_reservation_cong:
  "map e_id (t_events d') = map e_id (t_events d) \<Longrightarrow> wf_reservation d' = wf_reservation d"
  unfolding wf_reservation_def fun_eq_iff by (metis events_known_cong)

lemma units_cong: "t_reservations d' = t_reservations d \<Longrightarrow> units d' s k = units d s k"
  by (simp add: units_def)

lemma units_snoc:
  "t_reservations d' = t_reservations d @ [r] \<Longrightarrow>
     units d' s k = units d s k + (if r_event_id r = k \<and> r_status r = s then r_quantity r else 0)"
  by (simp add: units_def)

lemma units_write:
  assumes "distinct (map r_id (t_reservations d))" "r \<in> set (t_reservations d)"
    and "r_id r' = r_id r" "t_reservations d' = t_reservations (write_reservation r' d)"
  shows "units d' s k = units d s k
     - (if r_event_id r = k \<and> r_status r = s then r_quantity r else 0)
     + (if r_event_id r' = k \<and> r_status r' = s then r_quantity r' else 0)"
proof -
  let ?f = "\<lambda>r. if r_event_id r = k \<and> r_status r = s then r_quantity r else 0"
  have "t_reservations d' = map (\<lambda>x. if r_id x = r_id r then (\<lambda>_. r') x else x) (t_reservations d)"
    using assms(3,4) by (simp add: write_reservation_def)
  then show ?thesis
    unfolding units_def by (simp only: sum_list_replace [OF assms(1,2)])
qed

lemma trail_snoc:
  "t_outbox d' = t_outbox d @ [b] \<Longrightarrow> uuid_in (o_correlation_id b) = Some j \<Longrightarrow>
     trail d' k = trail d k @ (if k = j then [o_event_type b] else [])"
  by (auto simp: trail_def)

section \<open>Preservation\<close>

lemma booking_wf:
  assumes wf: "wf_core d" and b: "books d e r b d'"
  shows "wf_core d'"
proof -
  from b obtain t where
    d': "d' = booked (e\<lparr>e_reserved_count := e_reserved_count e + r_quantity r, e_updated_at := t\<rparr>) r b d"
    and r: "wf_reservation d r" "\<forall>x\<in>set (t_reservations d). \<not> clashes r x"
    and ob: "o_id b \<notin> o_id ` set (t_outbox d)"
    by (auto simp: books_def announces_def)
  have ids: "map e_id (t_events d') = map e_id (t_events d)" by (simp add: d')
  from b find_event_Some have "e \<in> set (t_events d)" by (auto simp: books_def)
  with wf have ev: "\<forall>x\<in>set (t_events d'). wf_event x"
    by (auto simp: wf_core_def wf_event_def d' set_write_event [of e])
  have "r_id r \<notin> r_id ` set (t_reservations d)" using r(2) by (auto simp: clashes_def)
  moreover have "\<forall>x\<in>set (t_reservations d). \<not> clashes x r"
    using r(2) by (auto simp: clashes_def)
  ultimately show ?thesis
    using wf r ob ev unfolding wf_core_def ids wf_reservation_cong [OF ids]
    by (auto simp: d')
qed

lemma settlement_wf:
  assumes wf: "wf_core d" and b: "settles d s e r b d'"
  shows "wf_core d'"
proof -
  from b obtain t u c where
    d': "d' = settled ((moved_counts s (r_quantity r) e)\<lparr>e_updated_at := t\<rparr>)
          (r\<lparr>r_status := s, r_confirmed_at := c, r_version := r_version r + 1, r_updated_at := u\<rparr>) b d"
    and r: "r \<in> set (t_reservations d)" "r_status r = PENDING" "int4 (r_version r + 1)"
    and ob: "o_id b \<notin> o_id ` set (t_outbox d)"
    by (auto simp: settles_def announces_def)
  let ?r' = "r\<lparr>r_status := s, r_confirmed_at := c, r_version := r_version r + 1, r_updated_at := u\<rparr>"
  have ids: "map e_id (t_events d') = map e_id (t_events d)" by (simp add: d')
  from b find_event_Some have "e \<in> set (t_events d)" by (auto simp: settles_def)
  with wf have ev: "\<forall>x\<in>set (t_events d'). wf_event x"
    by (auto simp: wf_core_def wf_event_def d' moved_counts_def set_write_event [of e])
  have set: "set (t_reservations d') = insert ?r' {x \<in> set (t_reservations d). r_id x \<noteq> r_id r}"
    using r(1) by (simp add: d' set_write_reservation [of r])
  have old: "wf_reservation d r" using wf r(1) by (simp add: wf_core_def)
  then have new: "wf_reservation d ?r'"
    using r(3) by (auto simp: wf_reservation_def row_valid_def)
  have cl: "r_id x \<noteq> r_id r \<Longrightarrow> \<not> clashes ?r' x \<and> \<not> clashes x ?r'" if "x \<in> set (t_reservations d)" for x
  proof -
    assume "r_id x \<noteq> r_id r"
    with wf r(1) that have "\<not> clashes r x" "\<not> clashes x r"
      unfolding wf_core_def by metis+
    with r(2) \<open>r_id x \<noteq> r_id r\<close> show ?thesis by (auto simp: clashes_def active_def)
  qed
  have "\<forall>x\<in>set (t_reservations d'). wf_reservation d x"
    using wf new unfolding set wf_core_def by blast
  moreover have "\<forall>x\<in>set (t_reservations d'). \<forall>y\<in>set (t_reservations d'). r_id x \<noteq> r_id y \<longrightarrow> \<not> clashes x y"
  proof (intro ballI impI)
    fix x y assume "x \<in> set (t_reservations d')" "y \<in> set (t_reservations d')" and ne: "r_id x \<noteq> r_id y"
    then consider "x = ?r'" "y \<in> set (t_reservations d)" "r_id y \<noteq> r_id r"
      | "y = ?r'" "x \<in> set (t_reservations d)" "r_id x \<noteq> r_id r"
      | "x \<in> set (t_reservations d)" "y \<in> set (t_reservations d)"
      unfolding set by auto
    then show "\<not> clashes x y"
      using cl wf ne by cases (auto simp: wf_core_def)
  qed
  ultimately show ?thesis
    using wf ob ev unfolding wf_core_def ids wf_reservation_cong [OF ids] by (simp add: d')
qed

lemma balanced_other:
  assumes "balanced d x" "units d' PENDING (e_id x) = units d PENDING (e_id x)"
    "units d' CONFIRMED (e_id x) = units d CONFIRMED (e_id x)"
  shows "balanced d' x"
  using assms by (simp add: balanced_def)

lemma booking_ledger:
  assumes inv: "ledger d" and wf: "wf_core d" and b: "books d e r b d'"
  shows "ledger d'"
proof -
  from b obtain t where
    d': "d' = booked (e\<lparr>e_reserved_count := e_reserved_count e + r_quantity r, e_updated_at := t\<rparr>) r b d"
    and r: "wf_reservation d r" "r_status r = PENDING"
      "e_reserved_count e + e_sold_count e + r_quantity r \<le> e_capacity e"
    and fe: "find_event d (r_event_id r) = Some e"
    by (auto simp: books_def)
  let ?e' = "e\<lparr>e_reserved_count := e_reserved_count e + r_quantity r, e_updated_at := t\<rparr>"
  from find_event_Some [OF fe] have e: "e \<in> set (t_events d)" "e_id e = r_event_id r" by auto
  have set: "set (t_events d') = insert ?e' {x \<in> set (t_events d). e_id x \<noteq> e_id e}"
    using e by (simp add: d' set_write_event [of e])
  have u: "units d' s k = units d s k + (if r_event_id r = k \<and> r_status r = s then r_quantity r else 0)" for s k
    by (rule units_snoc) (simp add: d')
  have be: "balanced d e" using inv e by (simp add: ledger_def)
  have "0 < r_quantity r" using r(1) by (simp add: wf_reservation_def row_valid_def)
  with be r(2,3) e(2) have "balanced d' ?e'"
    by (simp add: balanced_def counts_valid_def u)
  moreover have "balanced d' x" if "x \<in> set (t_events d)" "e_id x \<noteq> e_id e" for x
    using inv that e(2) by (auto simp: ledger_def u intro: balanced_other [of d x])
  ultimately show ?thesis unfolding ledger_def set by auto
qed

lemma settlement_ledger:
  assumes inv: "ledger d" and wf: "wf_core d" and b: "settles d s e r b d'"
  shows "ledger d'"
proof -
  from b obtain t v c where
    d': "d' = settled ((moved_counts s (r_quantity r) e)\<lparr>e_updated_at := t\<rparr>)
          (r\<lparr>r_status := s, r_confirmed_at := c, r_version := r_version r + 1, r_updated_at := v\<rparr>) b d"
    and r: "r \<in> set (t_reservations d)" "r_status r = PENDING" "s \<noteq> PENDING"
      "r_quantity r \<le> e_reserved_count e"
    and fe: "find_event d (r_event_id r) = Some e"
    by (auto simp: settles_def)
  let ?e' = "(moved_counts s (r_quantity r) e)\<lparr>e_updated_at := t\<rparr>"
  let ?r' = "r\<lparr>r_status := s, r_confirmed_at := c, r_version := r_version r + 1, r_updated_at := v\<rparr>"
  from find_event_Some [OF fe] have e: "e \<in> set (t_events d)" "e_id e = r_event_id r" by auto
  have eid: "e_id ?e' = e_id e" by (simp add: moved_counts_def)
  have set: "set (t_events d') = insert ?e' {x \<in> set (t_events d). e_id x \<noteq> e_id e}"
    using e eid by (simp add: d' set_write_event [of e])
  have ids: "distinct (map r_id (t_reservations d))" using wf by (simp add: wf_core_def)
  have u: "units d' s' k = units d s' k
      - (if r_event_id r = k \<and> r_status r = s' then r_quantity r else 0)
      + (if r_event_id ?r' = k \<and> r_status ?r' = s' then r_quantity ?r' else 0)" for s' k
    by (rule units_write [OF ids r(1)]) (simp_all add: d')
  have be: "balanced d e" using inv e by (simp add: ledger_def)
  have "0 < r_quantity r" using wf r(1) by (simp add: wf_core_def wf_reservation_def row_valid_def)
  with be r(2,3,4) e(2) have "balanced d' ?e'"
    by (simp add: balanced_def counts_valid_def u moved_counts_def)
  moreover have "balanced d' x" if "x \<in> set (t_events d)" "e_id x \<noteq> e_id e" for x
    using inv that e(2) by (auto simp: ledger_def u intro: balanced_other [of d x])
  ultimately show ?thesis unfolding ledger_def set by auto
qed

lemma booking_outbox:
  assumes inv: "outbox_agrees d" and wf: "wf_core d" and b: "books d e r b d'"
  shows "outbox_agrees d'"
  unfolding outbox_agrees_def
proof
  fix k
  from b have res: "t_reservations d' = t_reservations d @ [r]" and out: "t_outbox d' = t_outbox d @ [b]"
    and ty: "o_event_type b = TypeTicketReserved" "uuid_in (o_correlation_id b) = Some (r_id r)"
    and new: "find_reservation d (r_id r) = None" and pend: "r_status r = PENDING"
    by (auto simp: books_def announces_def find_reservation_None clashes_def)
  have "find_reservation d' k = (if k = r_id r then Some r else find_reservation d k)"
    using new by (auto simp: find_reservation_def res find_snoc split: option.splits)
  with inv new pend ty show "trail d' k =
      (case find_reservation d' k of None \<Rightarrow> [] | Some r \<Rightarrow> expected_trail (r_status r))"
    by (auto simp: trail_snoc [OF out ty(2)] outbox_agrees_def)
qed

lemma settlement_outbox:
  assumes inv: "outbox_agrees d" and wf: "wf_core d" and b: "settles d s e r b d'"
  shows "outbox_agrees d'"
  unfolding outbox_agrees_def
proof
  fix k
  from b obtain t v c where
    d': "d' = settled ((moved_counts s (r_quantity r) e)\<lparr>e_updated_at := t\<rparr>)
          (r\<lparr>r_status := s, r_confirmed_at := c, r_version := r_version r + 1, r_updated_at := v\<rparr>) b d"
    and r: "r \<in> set (t_reservations d)" "r_status r = PENDING" "s \<noteq> PENDING"
    and ty: "o_event_type b = closing_type s" "uuid_in (o_correlation_id b) = Some (r_id r)"
    by (auto simp: settles_def announces_def)
  let ?r' = "r\<lparr>r_status := s, r_confirmed_at := c, r_version := r_version r + 1, r_updated_at := v\<rparr>"
  have wf': "wf_core d'" by (rule settlement_wf [OF wf b])
  have out: "t_outbox d' = t_outbox d @ [b]" by (simp add: d')
  have set: "set (t_reservations d') = insert ?r' {x \<in> set (t_reservations d). r_id x \<noteq> r_id r}"
    using r(1) by (simp add: d' set_write_reservation [of r])
  have trail: "trail d j = (case find_reservation d j of None \<Rightarrow> [] | Some r \<Rightarrow> expected_trail (r_status r))" for j
    using inv by (simp add: outbox_agrees_def)
  have new: "find_reservation d' (r_id r) = Some ?r'"
    using find_reservation_key [OF wf', of ?r'] by (simp add: set)
  have other: "find_reservation d' j = find_reservation d j" if "j \<noteq> r_id r" for j
  proof (cases "find_reservation d j")
    case None
    then have "find_reservation d' j = None"
      using that by (auto simp: find_reservation_None set)
    with None show ?thesis by simp
  next
    case (Some x)
    from find_reservation_Some [OF this] that have "x \<in> set (t_reservations d')" "r_id x = j"
      by (auto simp: set)
    with find_reservation_key [OF wf'] Some show ?thesis by metis
  qed
  show "trail d' k = (case find_reservation d' k of None \<Rightarrow> [] | Some r \<Rightarrow> expected_trail (r_status r))"
  proof (cases "k = r_id r")
    case True
    with r(3) show ?thesis
      by (cases s) (simp_all add: trail_snoc [OF out ty(2)] new trail ty find_reservation_key [OF wf r(1)] r(2))
  next
    case False
    then show ?thesis by (simp add: trail_snoc [OF out ty(2)] trail other)
  qed
qed

text \<open>Both effects keep the whole invariant.\<close>

lemma booking_inv: "core_inv d \<Longrightarrow> books d e r b d' \<Longrightarrow> core_inv d'"
  unfolding core_inv_def using booking_wf booking_ledger booking_outbox by blast

lemma settlement_inv: "core_inv d \<Longrightarrow> settles d s e r b d' \<Longrightarrow> core_inv d'"
  unfolding core_inv_def using settlement_wf settlement_ledger settlement_outbox by blast

text \<open>Neither effect touches a reservation that has left PENDING.\<close>

lemma booking_keeps: "books d e q b d' \<Longrightarrow> r \<in> set (t_reservations d) \<Longrightarrow> r \<in> set (t_reservations d')"
  by (auto simp: books_def)

lemma settlement_keeps:
  assumes "wf_core d" "settles d s e q b d'" "r \<in> set (t_reservations d)" "r_status r \<noteq> PENDING"
  shows "r \<in> set (t_reservations d')"
proof -
  from assms(2) obtain t u c where q: "q \<in> set (t_reservations d)" "r_status q = PENDING"
    and d': "d' = settled ((moved_counts s (r_quantity q) e)\<lparr>e_updated_at := t\<rparr>)
        (q\<lparr>r_status := s, r_confirmed_at := c, r_version := r_version q + 1, r_updated_at := u\<rparr>) b d"
    by (auto simp: settles_def)
  have "r_id r \<noteq> r_id q"
    using assms(1,3,4) q distinct_key_eq [of r_id "t_reservations d" r q] by (auto simp: wf_core_def)
  with assms(3) show ?thesis unfolding d' by (simp add: set_write_reservation [OF q(1)])
qed

end
