(* ===== verification/Core_Contract.thy ===== *)
theory Core_Contract
  imports Core_Service Ledger
begin

text \<open>
  The contract between the reservation service and its repositories, as a locale: what a port promises
  when it returns without an error, stated on a \<open>view\<close> of the tables.  Inside it the write phases of
  the use cases are proved to have exactly a booking or a settlement as their effect.  The PostgreSQL
  adapters of \<open>Core_Store\<close> are then shown to meet the contract.
\<close>

text \<open>
  A reservation that was read from the tables, now or earlier: the row is still there, with a version
  that is not older, and it is the very same row while the version is the same.
\<close>

definition seen :: "core_db \<Rightarrow> reservation \<Rightarrow> bool" where
  "seen d r \<longleftrightarrow> 0 < r_version r \<and> (\<exists>x\<in>set (t_reservations d). r_id x = r_id r
     \<and> r_version r \<le> r_version x \<and> (r_version x = r_version r \<longrightarrow> x = r))"

lemma seen_read:
  assumes "wf_core d" "find_reservation d k = Some r"
  shows "seen d r"
proof -
  from find_reservation_Some [OF assms(2)] have "r \<in> set (t_reservations d)" by simp
  moreover with assms(1) have "0 < r_version r"
    by (auto simp: wf_core_def wf_reservation_def row_valid_def)
  ultimately show ?thesis by (auto simp: seen_def)
qed

text \<open>The reservation a command asks for.\<close>

definition requested :: "'m service \<Rightarrow> reserve_command \<Rightarrow> instant \<Rightarrow> event \<Rightarrow> reservation \<Rightarrow> bool" where
  "requested sv cmd now ev res \<longleftrightarrow> r_status res = PENDING \<and> r_event_id res = rc_event_id cmd
     \<and> r_user_id res = rc_user_id cmd \<and> r_quantity res = rc_quantity cmd
     \<and> r_amount_cents res = wrap64 (e_price_cents ev * rc_quantity cmd)
     \<and> r_expires_at res = time_add now (sv_ttl sv) \<and> r_currency res = ''BRL'' \<and> r_version res = 1
     \<and> (rc_reservation_id cmd \<noteq> '''' \<longrightarrow> r_id res = rc_reservation_id cmd)"

lemma NewReservation_requested:
  "NewReservation (new_input sv cmd now ev) w = (res, w') \<Longrightarrow> requested sv cmd now ev res"
  by (auto simp: NewReservation_def new_input_def requested_def Let_def split: prod.splits if_splits)

text \<open>The status a release gives, by its cause.\<close>

fun released_as :: "release_reason \<Rightarrow> reservation_status" where
  "released_as reasonExpired = EXPIRED"
| "released_as reasonFailed = FAILED"
| "released_as reasonCancelled = CANCELLED"

lemma leave_moves: "leave reason now r = Inr r' \<Longrightarrow> moved now (released_as reason) r r'"
  by (cases reason) (simp_all add: transition_Inr)

lemma released_as_final [simp]: "released_as reason \<noteq> PENDING" "released_as reason \<noteq> CONFIRMED"
  by (cases reason; simp)+

lemma andThen2_InrE:
  assumes "andThen m (\<lambda>_. andThen n (\<lambda>_. p)) s = (Inr b, s')"
  obtains s1 s2 where "m s = (Inr (), s1)" "n s1 = (Inr (), s2)" "p s2 = (Inr b, s')"
  using assms by (auto simp: andThen_Inr)

section \<open>The contract of the ports\<close>

locale reservation_ports =
  fixes sv :: "'m service" and view :: "'m world_scheme \<Rightarrow> core_db"
  assumes view_rng: "view (w\<lparr>rng_pos := pos\<rparr>) = view w"
    and Get_law: "sv_Get sv i w = (Inr r, w') \<Longrightarrow>
      view w' = view w \<and> (\<exists>k. uuid_in i = Some k \<and> find_reservation (view w) k = Some r)"
    and Get_frame: "sv_Get sv i w = (x, w') \<Longrightarrow> view w' = view w"
    and Event_law: "sv_Event sv i w = (Inr e, w') \<Longrightarrow>
      view w' = view w \<and> (\<exists>k. uuid_in i = Some k \<and> find_event (view w) k = Some e)"
    and ReserveCapacity_law: "sv_ReserveCapacity sv i n w = (Inr u, w') \<Longrightarrow>
      \<exists>k e t. uuid_in i = Some k \<and> find_event (view w) k = Some e
        \<and> e_reserved_count e + e_sold_count e + n \<le> e_capacity e
        \<and> view w' = write_event (e\<lparr>e_reserved_count := e_reserved_count e + n, e_updated_at := t\<rparr>) (view w)"
    and ReleaseCapacity_law: "sv_ReleaseCapacity sv i n w = (Inr u, w') \<Longrightarrow>
      \<exists>k e t. uuid_in i = Some k \<and> find_event (view w) k = Some e \<and> n \<le> e_reserved_count e
        \<and> view w' = write_event (e\<lparr>e_reserved_count := e_reserved_count e - n, e_updated_at := t\<rparr>) (view w)"
    and CommitSold_law: "sv_CommitSold sv i n w = (Inr u, w') \<Longrightarrow>
      \<exists>k e t. uuid_in i = Some k \<and> find_event (view w) k = Some e \<and> n \<le> e_reserved_count e
        \<and> view w' = write_event (e\<lparr>e_reserved_count := e_reserved_count e - n,
                e_sold_count := e_sold_count e + n, e_updated_at := t\<rparr>) (view w)"
    and Create_law: "sv_Create sv r w = (Inr u, w') \<Longrightarrow>
      \<exists>i ev cur. uuid_in (r_id r) = Some i \<and> uuid_in (r_event_id r) = Some ev
        \<and> char3 (r_currency r) = Some cur \<and> row_valid r \<and> int4 (r_version r) \<and> int4 (r_quantity r)
        \<and> (\<forall>x\<in>set (t_reservations (view w)). \<not> clashes (stored i ev cur r) x)
        \<and> find_event (view w) ev \<noteq> None
        \<and> view w' = (view w)\<lparr>t_reservations := t_reservations (view w) @ [stored i ev cur r]\<rparr>"
    and Update_law: "sv_Update sv r w = (Inr u, w') \<Longrightarrow>
      \<exists>x. x \<in> set (t_reservations (view w)) \<and> uuid_in (r_id r) = Some (r_id x)
        \<and> r_version r = r_version x + 1 \<and> int4 (r_version r)
        \<and> view w' = write_reservation (x\<lparr>r_status := r_status r,
                r_confirmed_at := map_option timestamptz (r_confirmed_at r),
                r_version := r_version r, r_updated_at := timestamptz (r_updated_at r)\<rparr>) (view w)"
    and Enqueue_law: "sv_Enqueue sv [rec] w = (Inr u, w') \<Longrightarrow>
      \<exists>b. o_id b \<notin> o_id ` set (t_outbox (view w)) \<and> o_event_type b = ob_event_type rec
        \<and> o_correlation_id b = ob_correlation_id rec \<and> o_subject b = ob_subject rec
        \<and> Some (o_payload b) = ob_payload rec \<and> o_processed_at b = None
        \<and> view w' = (view w)\<lparr>t_outbox := t_outbox (view w) @ [b]\<rparr>"
begin

lemma record_core_Inr:
  assumes "record_core sv ty c '''' p w = (Inr rec, w')"
  shows "view w' = view w" "ob_event_type rec = ty" "ob_subject rec = SubjectFor ty"
    "ob_correlation_id rec = c" "p = Inr (the (ob_payload rec))" "ob_payload rec \<noteq> None"
  using record_event_Inr [OF assms [unfolded record_core_def]] by (auto simp: view_rng)

lemma load_seen:
  "load sv i w = (Inr r, w') \<Longrightarrow> wf_core (view w) \<Longrightarrow> view w' = view w \<and> seen (view w) r"
  by (auto simp: load_def dest!: Get_law intro: seen_read split: if_splits)

text \<open>\<open>record\<close> and \<open>Enqueue\<close> together add the one row that announces the transition.\<close>

lemma announce:
  assumes "andThen (record_core sv ty c '''' p) (\<lambda>rec. andThen (sv_Enqueue sv [rec]) (\<lambda>_. ok res)) w
      = (Inr res', w')"
    and "uuid_in c = Some k"
  obtains b where "announces (view w) ty k b" "p = Inr (o_payload b)" "res' = res"
    "view w' = (view w)\<lparr>t_outbox := t_outbox (view w) @ [b]\<rparr>"
proof -
  from assms(1) obtain rec w1 where r: "record_core sv ty c '''' p w = (Inr rec, w1)"
    and e: "sv_Enqueue sv [rec] w1 = (Inr (), w')" and "res' = res"
    by (auto simp: op_simps)
  from Enqueue_law [OF e] obtain b where
    b: "o_id b \<notin> o_id ` set (t_outbox (view w1))" "o_event_type b = ob_event_type rec"
      "o_correlation_id b = ob_correlation_id rec" "o_subject b = ob_subject rec"
      "Some (o_payload b) = ob_payload rec" "o_processed_at b = None"
    and v: "view w' = (view w1)\<lparr>t_outbox := t_outbox (view w1) @ [b]\<rparr>"
    by blast
  from record_core_Inr(5) [OF r] b(5) have p: "p = Inr (o_payload b)" by (metis option.sel)
  show ?thesis
  proof (rule that [OF _ p \<open>res' = res\<close>])
    show "announces (view w) ty k b"
      using b record_core_Inr(1-4) [OF r] assms(2) by (simp add: announces_def)
    show "view w' = (view w)\<lparr>t_outbox := t_outbox (view w) @ [b]\<rparr>"
      using v record_core_Inr(1) [OF r] by simp
  qed
qed

text \<open>The write phase of \<open>reserve\<close> is a booking of what the command asks for.\<close>

lemma reserve_write_books:
  assumes run: "reserve_write sv cmd now ev w = (Inr res, w')"
  shows "\<exists>e r b cur. books (view w) e r b (view w')
    \<and> uuid_in (rc_event_id cmd) = Some (r_event_id r) \<and> uuid_in (r_id res) = Some (r_id r)
    \<and> r = stored (r_id r) (r_event_id r) cur res \<and> TicketReservedPayload res = Inr (o_payload b)
    \<and> requested sv cmd now ev res"
proof -
  let ?q = "rc_quantity cmd"
  from run obtain w1 w2 w3 where
    cap: "sv_ReserveCapacity sv (rc_event_id cmd) ?q w = (Inr (), w1)"
    and new: "NewReservation (new_input sv cmd now ev) w1 = (res, w2)"
    and cr: "sv_Create sv res w2 = (Inr (), w3)"
    and ann: "andThen (record_core sv TypeTicketReserved (r_id res) '''' (TicketReservedPayload res))
        (\<lambda>rec. andThen (sv_Enqueue sv [rec]) (\<lambda>_. ok res)) w3 = (Inr res, w')"
  proof -
    from run obtain w1 where c1: "sv_ReserveCapacity sv (rc_event_id cmd) ?q w = (Inr (), w1)"
      and r1: "reading (NewReservation (new_input sv cmd now ev)) (\<lambda>res.
        andThen (sv_Create sv res) (\<lambda>_.
        andThen (record_core sv TypeTicketReserved (r_id res) '''' (TicketReservedPayload res)) (\<lambda>rec.
        andThen (sv_Enqueue sv [rec]) (\<lambda>_. ok res)))) w1 = (Inr res, w')"
      unfolding reserve_write_def by (auto elim!: andThen_InrE)
    from r1 obtain res1 w2 where c2: "NewReservation (new_input sv cmd now ev) w1 = (res1, w2)"
      and r2: "andThen (sv_Create sv res1) (\<lambda>_.
        andThen (record_core sv TypeTicketReserved (r_id res1) '''' (TicketReservedPayload res1)) (\<lambda>rec.
        andThen (sv_Enqueue sv [rec]) (\<lambda>_. ok res1))) w2 = (Inr res, w')"
      by (rule reading_runE)
    from r2 have "res1 = res" by (elim andThen_InrE) simp
    from r2 obtain w3 where "sv_Create sv res1 w2 = (Inr (), w3)"
      "andThen (record_core sv TypeTicketReserved (r_id res1) '''' (TicketReservedPayload res1)) (\<lambda>rec.
        andThen (sv_Enqueue sv [rec]) (\<lambda>_. ok res1)) w3 = (Inr res, w')"
      by (rule andThen_InrE) simp
    with that c1 c2 \<open>res1 = res\<close> show ?thesis by blast
  qed
  from ReserveCapacity_law [OF cap] obtain k e t where
    k: "uuid_in (rc_event_id cmd) = Some k" and e: "find_event (view w) k = Some e"
    and room: "e_reserved_count e + e_sold_count e + ?q \<le> e_capacity e"
    and v1: "view w1 = write_event (e\<lparr>e_reserved_count := e_reserved_count e + ?q, e_updated_at := t\<rparr>) (view w)"
    by blast
  have v2: "view w2 = view w1"
    using NewReservation_frame [OF new] view_rng by metis
  have res: "r_event_id res = rc_event_id cmd" "r_quantity res = ?q" "r_status res = PENDING"
    using new by (auto simp: NewReservation_def new_input_def Let_def split: prod.splits)
  from Create_law [OF cr] k res obtain i cur where
    i: "uuid_in (r_id res) = Some i" and ok: "row_valid res" "int4 (r_version res)" "int4 (r_quantity res)"
    and cl: "\<forall>x\<in>set (t_reservations (view w2)). \<not> clashes (stored i k cur res) x"
    and v3: "view w3 = (view w2)\<lparr>t_reservations := t_reservations (view w2) @ [stored i k cur res]\<rparr>"
    by auto
  from announce [OF ann i] obtain b where
    b: "announces (view w3) TypeTicketReserved i b" "TicketReservedPayload res = Inr (o_payload b)"
    and v': "view w' = (view w3)\<lparr>t_outbox := t_outbox (view w3) @ [b]\<rparr>"
    by blast
  let ?r = "stored i k cur res"
  have wf: "wf_reservation (view w) ?r"
    using ok uuid_in_canonical [OF i] uuid_in_canonical [OF k] e
    by (simp add: wf_reservation_def stored_def row_valid_def)
  have "announces (view w) TypeTicketReserved (r_id ?r) b"
    using b(1) by (simp add: announces_def v3 v2 v1 stored_def)
  moreover have "view w' = booked (e\<lparr>e_reserved_count := e_reserved_count e + r_quantity ?r, e_updated_at := t\<rparr>) ?r b (view w)"
    by (simp add: v' v3 v2 v1 booked_def stored_def res)
  ultimately have "books (view w) e ?r b (view w')"
    using e room wf cl res unfolding books_def by (auto simp: stored_def v2 v1)
  moreover have "?r = stored (r_id ?r) (r_event_id ?r) cur res" by (simp add: stored_def)
  ultimately show ?thesis
    using k i b(2) NewReservation_requested [OF new] by (intro exI [of _ e] exI [of _ ?r] exI [of _ b] exI [of _ cur]) (auto simp: stored_def)
qed

text \<open>The part \<open>confirm\<close> and \<open>release\<close> share: move the counters, write the row, announce.\<close>

lemma settle_steps:
  assumes wf: "wf_core (view w)" and seen: "seen (view w) res0"
    and mv: "moved now s res0 res" and s: "s \<noteq> PENDING"
    and cnt: "uuid_in (r_event_id res0) = Some k" "find_event (view w) k = Some e" "r_quantity res0 \<le> e_reserved_count e"
      "view w1 = write_event ((moved_counts s (r_quantity res0) e)\<lparr>e_updated_at := t\<rparr>) (view w)"
    and up: "sv_Update sv res w1 = (Inr u, w2)"
    and ann: "andThen (record_core sv (closing_type s) (r_id res) '''' p)
        (\<lambda>rec. andThen (sv_Enqueue sv [rec]) (\<lambda>_. ok res)) w2 = (Inr res', w')"
  shows "\<exists>b. settles (view w) s e res0 b (view w') \<and> p = Inr (o_payload b) \<and> res' = res"
proof -
  from mv have pend: "r_status res0 = PENDING" and res: "r_id res = r_id res0" "r_status res = s"
    "r_version res = wrap64 (r_version res0 + 1)"
    by (auto simp: moved_def)
  from seen obtain y where y: "y \<in> set (t_reservations (view w))" "r_id y = r_id res0"
    "r_version res0 \<le> r_version y" "r_version y = r_version res0 \<longrightarrow> y = res0"
    by (auto simp: seen_def)
  from wf y(1) have wy: "wf_reservation (view w) y" by (simp add: wf_core_def)
  from Update_law [OF up] obtain x where
    x: "x \<in> set (t_reservations (view w1))" "uuid_in (r_id res) = Some (r_id x)"
      "r_version res = r_version x + 1" "int4 (r_version res)"
    and v2: "view w2 = write_reservation (x\<lparr>r_status := r_status res,
        r_confirmed_at := map_option timestamptz (r_confirmed_at res),
        r_version := r_version res, r_updated_at := timestamptz (r_updated_at res)\<rparr>) (view w1)"
    by blast
  have xin: "x \<in> set (t_reservations (view w))" using x(1) by (simp add: cnt(4))
  have "r_id x = r_id y"
    using wy x(2) res(1) y(2) by (simp add: wf_reservation_def)
  with wf xin y(1) have xy: "x = y"
    unfolding wf_core_def by (metis distinct_key_eq)
  have ver: "r_version y = r_version res0"
  proof -
    from wy y(3) have "r_version res0 + 1 \<le> 2147483648"
      by (simp add: wf_reservation_def int4_def)
    with seen have "int64 (r_version res0 + 1)" by (simp add: int64_def seen_def)
    with x(3) res(3) xy show ?thesis by simp
  qed
  with y(4) xy have x0: "x = res0" by simp
  have int: "int64 (r_version res0 + 1)"
    using wy xy x0 by (auto simp: wf_reservation_def int4_def int64_def)
  have canon: "uuid_in (r_id res0) = Some (r_id res0)" "uuid_in (r_event_id res0) = Some (r_event_id res0)"
    using wy xy x0 by (auto simp: wf_reservation_def)
  from canon(1) res(1) have "uuid_in (r_id res) = Some (r_id res0)" by simp
  from announce [OF ann this] obtain b where
    b: "announces (view w2) (closing_type s) (r_id res0) b" "p = Inr (o_payload b)" "res' = res"
    and v': "view w' = (view w2)\<lparr>t_outbox := t_outbox (view w2) @ [b]\<rparr>"
    by blast
  have "settles (view w) s e res0 b (view w')"
    unfolding settles_def
  proof (intro conjI exI)
    show "res0 \<in> set (t_reservations (view w))" using xin x0 by simp
    show "find_event (view w) (r_event_id res0) = Some e" using cnt(1,2) canon(2) by simp
    show "int4 (r_version res0 + 1)" using x(4) int res(3) by simp
    show "announces (view w) (closing_type s) (r_id res0) b"
      using b(1) by (simp add: announces_def v2 cnt(4))
    show "view w' = settled ((moved_counts s (r_quantity res0) e)\<lparr>e_updated_at := t\<rparr>)
        (res0\<lparr>r_status := s, r_confirmed_at := map_option timestamptz (r_confirmed_at res),
              r_version := r_version res0 + 1, r_updated_at := timestamptz (r_updated_at res)\<rparr>) b (view w)"
      using int by (simp add: v' v2 x0 res settled_def cnt(4))
  qed (use pend s cnt in auto)
  with b show ?thesis by blast
qed

lemma confirm_loaded_settles:
  assumes run: "confirm_loaded sv res0 w = (Inr res, w')"
    and wf: "wf_core (view w)" and seen: "seen (view w) res0"
  shows "(r_status res0 = CONFIRMED \<and> res = res0 \<and> w' = w) \<or>
    (\<exists>e b. settles (view w) CONFIRMED e res0 b (view w') \<and> Confirm (sv_Now sv w) res0 = Inr res
       \<and> TicketConfirmedPayload res = Inr (o_payload b))"
proof (cases "r_status res0 = CONFIRMED")
  case True
  with run show ?thesis by (simp add: confirm_loaded_def)
next
  case False
  let ?now = "sv_Now sv w"
  from run False have pend: "r_status res0 = PENDING"
    by (auto simp: confirm_loaded_def split: if_splits)
  from pend obtain res1 where c: "Confirm ?now res0 = Inr res1" by (auto simp: Confirm_def)
  with run pend have "andThen (sv_CommitSold sv (r_event_id res1) (r_quantity res1)) (\<lambda>_.
      andThen (sv_Update sv res1) (\<lambda>_.
      andThen (record_core sv TypeTicketConfirmed (r_id res1) '''' (TicketConfirmedPayload res1)) (\<lambda>rec.
      andThen (sv_Enqueue sv [rec]) (\<lambda>_. ok res1)))) w = (Inr res, w')"
    by (simp add: confirm_loaded_def reading_def)
  then obtain w1 w2 where
    cs: "sv_CommitSold sv (r_event_id res1) (r_quantity res1) w = (Inr (), w1)"
    and up: "sv_Update sv res1 w1 = (Inr (), w2)"
    and ann: "andThen (record_core sv TypeTicketConfirmed (r_id res1) '''' (TicketConfirmedPayload res1))
        (\<lambda>rec. andThen (sv_Enqueue sv [rec]) (\<lambda>_. ok res1)) w2 = (Inr res, w')"
    by (rule andThen2_InrE)
  from c have mv: "moved ?now CONFIRMED res0 res1" by (simp add: Confirm_Inr)
  then have same: "r_event_id res1 = r_event_id res0" "r_quantity res1 = r_quantity res0"
    by (auto simp: moved_def)
  from CommitSold_law [OF cs] same obtain k e t where
    cnt: "uuid_in (r_event_id res0) = Some k" "find_event (view w) k = Some e" "r_quantity res0 \<le> e_reserved_count e"
      "view w1 = write_event ((moved_counts CONFIRMED (r_quantity res0) e)\<lparr>e_updated_at := t\<rparr>) (view w)"
    by (auto simp: moved_counts_def)
  from settle_steps [OF wf seen mv _ cnt up, of "TicketConfirmedPayload res1" res w'] ann c
  show ?thesis by auto
qed

lemma release_loaded_settles:
  assumes run: "release_loaded sv reason res0 w = (Inr res, w')"
    and wf: "wf_core (view w)" and seen: "seen (view w) res0"
  shows "(r_status res0 \<in> {EXPIRED, FAILED, CANCELLED} \<and> res = res0 \<and> w' = w) \<or>
    (\<exists>e b. settles (view w) (released_as reason) e res0 b (view w') \<and> leave reason (sv_Now sv w) res0 = Inr res
       \<and> r_status res = released_as reason \<and> TicketReleasedPayload reason res = Inr (o_payload b))"
proof (cases "r_status res0 \<in> {EXPIRED, FAILED, CANCELLED}")
  case True
  with run show ?thesis by (auto simp: release_loaded_def)
next
  case False
  let ?now = "sv_Now sv w"
  from run False obtain res1 where c: "leave reason ?now res0 = Inr res1"
    by (cases "leave reason ?now res0") (auto simp: release_loaded_def reading_def)
  with run False have "andThen (sv_ReleaseCapacity sv (r_event_id res1) (r_quantity res1)) (\<lambda>_.
      andThen (sv_Update sv res1) (\<lambda>_.
      andThen (record_core sv TypeTicketReleased (r_id res1) '''' (TicketReleasedPayload reason res1)) (\<lambda>rec.
      andThen (sv_Enqueue sv [rec]) (\<lambda>_. ok res1)))) w = (Inr res, w')"
    by (simp add: release_loaded_def reading_def)
  then obtain w1 w2 where
    cs: "sv_ReleaseCapacity sv (r_event_id res1) (r_quantity res1) w = (Inr (), w1)"
    and up: "sv_Update sv res1 w1 = (Inr (), w2)"
    and ann: "andThen (record_core sv TypeTicketReleased (r_id res1) '''' (TicketReleasedPayload reason res1))
        (\<lambda>rec. andThen (sv_Enqueue sv [rec]) (\<lambda>_. ok res1)) w2 = (Inr res, w')"
    by (rule andThen2_InrE)
  let ?s = "released_as reason"
  from c have mv: "moved ?now ?s res0 res1" by (rule leave_moves)
  then have same: "r_event_id res1 = r_event_id res0" "r_quantity res1 = r_quantity res0" "r_status res1 = ?s"
    by (auto simp: moved_def)
  from ReleaseCapacity_law [OF cs] same obtain k e t where
    cnt: "uuid_in (r_event_id res0) = Some k" "find_event (view w) k = Some e" "r_quantity res0 \<le> e_reserved_count e"
      "view w1 = write_event ((moved_counts ?s (r_quantity res0) e)\<lparr>e_updated_at := t\<rparr>) (view w)"
    by (auto simp: moved_counts_def)
  have "closing_type ?s = TypeTicketReleased" by (cases reason) simp_all
  with settle_steps [OF wf seen mv released_as_final(1) cnt up, of "TicketReleasedPayload reason res1" res w'] ann c same
  show ?thesis by auto
qed

text \<open>
  The whole body of \<open>reserve\<close>: it hands back the reservation the command already created, or it
  is a booking on an open sale.
\<close>

lemma reserve_books:
  assumes run: "reserve sv cmd w = (Inr res, w')"
  shows "(view w' = view w \<and> rc_reservation_id cmd \<noteq> '''' \<and>
      (\<exists>k. uuid_in (rc_reservation_id cmd) = Some k \<and> find_reservation (view w) k = Some res)) \<or>
    (\<exists>e r b cur now ev. books (view w) e r b (view w')
      \<and> uuid_in (rc_event_id cmd) = Some (r_event_id r) \<and> uuid_in (r_id res) = Some (r_id r)
      \<and> r = stored (r_id r) (r_event_id r) cur res \<and> TicketReservedPayload res = Inr (o_payload b)
      \<and> SaleIsOpen now ev \<and> find_event (view w) (r_event_id r) = Some ev
      \<and> requested sv cmd now ev res)"
proof -
  have new: "\<exists>e r b cur now ev. books (view w) e r b (view w')
      \<and> uuid_in (rc_event_id cmd) = Some (r_event_id r) \<and> uuid_in (r_id res) = Some (r_id r)
      \<and> r = stored (r_id r) (r_event_id r) cur res \<and> TicketReservedPayload res = Inr (o_payload b)
      \<and> SaleIsOpen now ev \<and> find_event (view w) (r_event_id r) = Some ev
      \<and> requested sv cmd now ev res"
    if r: "reserve_new sv cmd w1 = (Inr res, w')" and v1: "view w1 = view w" for w1
  proof -
    from r obtain ev w2 where e: "sv_Event sv (rc_event_id cmd) w1 = (Inr ev, w2)"
      and open_: "SaleIsOpen (sv_Now sv w1) ev"
      and wr: "reserve_write sv cmd (sv_Now sv w1) ev w2 = (Inr res, w')"
      unfolding reserve_new_def reading_def by (auto elim!: andThen_InrE split: if_splits)
    from Event_law [OF e] v1 have v2: "view w2 = view w"
      and k: "\<exists>k. uuid_in (rc_event_id cmd) = Some k \<and> find_event (view w) k = Some ev" by auto
    from reserve_write_books [OF wr] k open_ show ?thesis
      unfolding v2 by (metis option.inject)
  qed
  show ?thesis
  proof (cases "rc_reservation_id cmd = ''''")
    case True
    with run have "reserve_new sv cmd w = (Inr res, w')"
      by (auto simp: reserve_def split: if_splits)
    then show ?thesis using new by blast
  next
    case False
    with run obtain x w1 where g: "sv_Get sv (rc_reservation_id cmd) w = (x, w1)"
      and rest: "(case x of Inr existing \<Rightarrow> ok existing
        | Inl e \<Rightarrow> if \<not> errors_is e ErrNotFound then fail e else reserve_new sv cmd) w1 = (Inr res, w')"
      by (auto simp: reserve_def onResult_run split: if_splits)
    show ?thesis
    proof (cases x)
      case (Inl e)
      with rest have "reserve_new sv cmd w1 = (Inr res, w')" by (auto split: if_splits)
      with new Get_frame [OF g] show ?thesis by blast
    next
      case (Inr r)
      with rest Get_law [of "rc_reservation_id cmd" w r w1] g False show ?thesis by auto
    qed
  qed
qed

lemma confirm_settles:
  assumes run: "confirm sv i w = (Inr res, w')" and wf: "wf_core (view w)"
  shows "(view w' = view w \<and> r_status res = CONFIRMED
      \<and> (\<exists>k. uuid_in i = Some k \<and> find_reservation (view w) k = Some res)) \<or>
    (\<exists>r e b. settles (view w) CONFIRMED e r b (view w') \<and> uuid_in i = Some (r_id r)
       \<and> r_status res = CONFIRMED \<and> TicketConfirmedPayload res = Inr (o_payload b))"
proof -
  from run obtain r w1 where l: "load sv i w = (Inr r, w1)" and c: "confirm_loaded sv r w1 = (Inr res, w')"
    unfolding confirm_def by (rule andThen_InrE)
  from load_seen [OF l wf] have v: "view w1 = view w" "seen (view w1) r" by auto
  from l have at: "\<exists>k. uuid_in i = Some k \<and> find_reservation (view w) k = Some r"
    by (auto simp: load_def dest!: Get_law split: if_splits)
  then have key: "uuid_in i = Some (r_id r)" by (auto dest: find_reservation_Some)
  from confirm_loaded_settles [OF c _ v(2)] wf v(1)
  consider "r_status r = CONFIRMED" "res = r" "w' = w1"
    | e b where "settles (view w) CONFIRMED e r b (view w')" "Confirm (sv_Now sv w1) r = Inr res"
        "TicketConfirmedPayload res = Inr (o_payload b)"
    by auto
  then show ?thesis
  proof cases
    case 2
    then have "r_status res = CONFIRMED" by (auto simp: Confirm_Inr moved_def)
    with 2 key show ?thesis by blast
  qed (use v(1) at in auto)
qed

lemma release_settles:
  assumes run: "releaseInTx sv i reason w = (Inr res, w')" and wf: "wf_core (view w)"
  shows "(view w' = view w \<and> r_status res \<in> {EXPIRED, FAILED, CANCELLED}
      \<and> (\<exists>k. uuid_in i = Some k \<and> find_reservation (view w) k = Some res)) \<or>
    (\<exists>r e b. settles (view w) (released_as reason) e r b (view w') \<and> uuid_in i = Some (r_id r)
       \<and> r_status res = released_as reason \<and> TicketReleasedPayload reason res = Inr (o_payload b))"
proof -
  from run obtain r w1 where l: "load sv i w = (Inr r, w1)" and c: "release_loaded sv reason r w1 = (Inr res, w')"
    unfolding releaseInTx_def by (rule andThen_InrE)
  from load_seen [OF l wf] have v: "view w1 = view w" "seen (view w1) r" by auto
  from l have at: "\<exists>k. uuid_in i = Some k \<and> find_reservation (view w) k = Some r"
    by (auto simp: load_def dest!: Get_law split: if_splits)
  then have key: "uuid_in i = Some (r_id r)" by (auto dest: find_reservation_Some)
  from release_loaded_settles [OF c _ v(2)] wf v(1) key at show ?thesis
    by auto
qed

end

section \<open>The PostgreSQL adapters meet the contract\<close>

text \<open>The wiring of \<open>cmd/pulsar-core\<close>: the adapters, the transaction manager, the system clock.\<close>

definition NewReservationService ::
  "(reservation \<Rightarrow> ('m world_scheme, unit) op) \<Rightarrow> (string \<Rightarrow> ('m world_scheme, reservation) op)
     \<Rightarrow> (reservation \<Rightarrow> ('m world_scheme, unit) op) \<Rightarrow> (string \<Rightarrow> ('m world_scheme, event) op)
     \<Rightarrow> (string \<Rightarrow> int \<Rightarrow> ('m world_scheme, unit) op) \<Rightarrow> (string \<Rightarrow> int \<Rightarrow> ('m world_scheme, unit) op)
     \<Rightarrow> (string \<Rightarrow> int \<Rightarrow> ('m world_scheme, unit) op) \<Rightarrow> (outbox_record list \<Rightarrow> ('m world_scheme, unit) op)
     \<Rightarrow> (('m world_scheme, reservation) op \<Rightarrow> ('m world_scheme, reservation) op) option
     \<Rightarrow> ('m world_scheme \<Rightarrow> instant) \<Rightarrow> duration \<Rightarrow> 'm hold_store option \<Rightarrow> (string \<Rightarrow> bool) \<Rightarrow> 'm service" where
  "NewReservationService create get update event reserveCapacity releaseCapacity commitSold enqueue
       txr now ttl holds isValid =
     \<lparr>sv_Create = create, sv_Get = get, sv_Update = update, sv_Event = event,
      sv_ReserveCapacity = reserveCapacity, sv_ReleaseCapacity = releaseCapacity,
      sv_CommitSold = commitSold, sv_Enqueue = enqueue, sv_tx = txr, sv_Now = now, sv_ttl = ttl,
      sv_source = ''pulsar-core'', sv_holds = holds, sv_IsValid = isValid\<rparr>"

definition core_service ::
  "duration \<Rightarrow> (core_db, 'm) pg_world_ext hold_store option \<Rightarrow> (string \<Rightarrow> bool)
     \<Rightarrow> (core_db, 'm) pg_world_ext service" where
  "core_service ttl holds isValid =
     NewReservationService Reservations_Create Reservations_Get Reservations_Update Inventory_Event
       ReserveCapacity ReleaseCapacity CommitSold Core_Enqueue (Some WithinTx) SystemClock_Now
       ttl holds isValid"

lemma core_service_simps [simp]:
  "sv_Create (core_service ttl h v) = Reservations_Create"
  "sv_Get (core_service ttl h v) = Reservations_Get"
  "sv_Update (core_service ttl h v) = Reservations_Update"
  "sv_Event (core_service ttl h v) = Inventory_Event"
  "sv_ReserveCapacity (core_service ttl h v) = ReserveCapacity"
  "sv_ReleaseCapacity (core_service ttl h v) = ReleaseCapacity"
  "sv_CommitSold (core_service ttl h v) = CommitSold"
  "sv_Enqueue (core_service ttl h v) = Core_Enqueue"
  "sv_tx (core_service ttl h v) = Some WithinTx"
  "sv_Now (core_service ttl h v) = SystemClock_Now"
  "sv_ttl (core_service ttl h v) = ttl"
  "sv_source (core_service ttl h v) = ''pulsar-core''"
  "sv_holds (core_service ttl h v) = h"
  "sv_IsValid (core_service ttl h v) = v"
  by (simp_all add: core_service_def NewReservationService_def)

interpretation pg: reservation_ports "core_service ttl h v" "db" for ttl h v
proof (unfold_locales, goal_cases)
  case (5 i n w u w')
  then show ?case
    unfolding core_service_simps ReserveCapacity_def by (rule capacity_write) auto
next
  case (6 i n w u w')
  then show ?case
    unfolding core_service_simps ReleaseCapacity_def by (rule capacity_write) auto
next
  case (7 i n w u w')
  then show ?case
    unfolding core_service_simps CommitSold_def by (rule capacity_write) auto
next
  case (8 r w u w')
  then show ?case
    by (auto dest!: Create_write insert_reservation_Inr)
next
  case (9 r w u w')
  then show ?case
    by (auto dest!: Update_write update_reservation_rows)
next
  case (10 rec w u w')
  then show ?case
    by (auto simp: Core_Enqueue_def elim!: Enqueue_one)
qed (auto dest: Get_read Get_db Event_read)

lemma record_core_tx_body [tx_keep]:
  fixes sv :: "('db, 'm) pg_world_ext service"
  shows "tx_body (record_core sv ty c k p)"
proof (rule tx_bodyI)
  fix w w' :: "('db, 'm) pg_world_scheme" and r
  assume "record_core sv ty c k p w = (r, w')"
  then have "w' = w \<or> w' = w\<lparr>rng_pos := rng_pos w + 16\<rparr>"
    unfolding record_core_def using record_event_Inr record_event_Inl by (cases r) fastforce+
  then show "tx_of w' = tx_of w" by auto
qed

lemma NewReservation_tx [tx_keep]: "tx_of (snd (NewReservation inp w)) = tx_of w"
proof -
  obtain r w' where n: "NewReservation inp w = (r, w')" by fastforce
  show ?thesis using NewReservation_frame [OF n] n by (metis snd_conv tx_of_update(4))
qed

lemma clock_tx [tx_keep]: "tx_of (snd (f w, w)) = tx_of w"
  by simp

lemma service_write_bodies [tx_keep]:
  "tx_body (reserve_write (core_service ttl h v) cmd now ev)"
  "tx_body (confirm_loaded (core_service ttl h v) r)"
  "tx_body (release_loaded (core_service ttl h v) reason r)"
  unfolding reserve_write_def confirm_loaded_def release_loaded_def core_service_simps
  by (intro tx_keep)+

lemma service_tx_bodies [tx_keep]:
  "tx_body (reserve_new (core_service ttl h v) cmd)"
  "tx_body (reserve (core_service ttl h v) cmd)"
  "tx_body (confirm (core_service ttl h v) i)"
  "tx_body (releaseInTx (core_service ttl h v) i reason)"
  unfolding reserve_new_def reserve_def confirm_def releaseInTx_def load_def core_service_simps
  by (intro tx_keep)+

end
