(* ===== verification/Core_System.thy ===== *)
theory Core_System
  imports Core_Contract
begin

text \<open>
  The core service as a concurrent system.  Every use case runs in one transaction, whatever fails in
  it; many consumers run them at once.  A running use case has read its rows and keeps what it read
  while others commit; its write phase takes the row locks of its first \<open>UPDATE\<close> until the commit, so
  it is one step.  The system is shown to keep the invariant of \<open>Ledger\<close> and to refine a seat book
  that has no counters at all.
\<close>

section \<open>One unit of work\<close>

definition hold_safe :: "(core_db, 'm) pg_world_ext hold_store \<Rightarrow> bool" where
  "hold_safe h \<longleftrightarrow>
     (\<forall>i t w. db (snd (hs_Set h i t w)) = db w \<and> tx (snd (hs_Set h i t w)) = tx w)
   \<and> (\<forall>i w. db (snd (hs_Release h i w)) = db w \<and> tx (snd (hs_Release h i w)) = tx w)"

definition holds_safe :: "(core_db, 'm) pg_world_ext hold_store option \<Rightarrow> bool" where
  "holds_safe h = (case h of None \<Rightarrow> True | Some s \<Rightarrow> hold_safe s)"

lemma releaseHold_frame:
  assumes "releaseHold (core_service ttl h v) res w = (x, w')" "holds_safe h"
  shows "db w' = db w" "tx w' = tx w" "x = Inr ()"
  using assms
  by (auto simp: releaseHold_def holds_safe_def hold_safe_def onResult_run split: option.splits)
    (metis snd_conv)+

lemma Service_Confirm_run:
  assumes "Service_Confirm (core_service ttl h v) i w = (x, w')" "holds_safe h"
  obtains w1 where "WithinTx (confirm (core_service ttl h v) i) w = (x, w1)" "db w' = db w1" "tx w' = tx w1"
  using assms releaseHold_frame [OF _ assms(2)]
  by (cases x) (fastforce simp: Service_Confirm_def inTx_def op_simps)+

lemma release_run:
  assumes "release (core_service ttl h v) i reason w = (x, w')" "holds_safe h"
  obtains w1 where "WithinTx (releaseInTx (core_service ttl h v) i reason) w = (x, w1)" "db w' = db w1" "tx w' = tx w1"
  using assms releaseHold_frame [OF _ assms(2)]
  by (cases x) (fastforce simp: release_def inTx_def op_simps)+

lemma Reserve_run:
  assumes "Reserve (core_service ttl h v) cmd w = (x, w')" "holds_safe h"
  obtains w1 where "WithinTx (reserve (core_service ttl h v) cmd) w = (x, w1)" "db w' = db w1" "tx w' = tx w1"
proof -
  obtain y w1 where y: "WithinTx (reserve (core_service ttl h v) cmd) w = (y, w1)" by fastforce
  have "x = y \<and> db w' = db w1 \<and> tx w' = tx w1"
  proof (cases y)
    case (Inl e)
    with y assms(1) show ?thesis by (simp add: Reserve_def inTx_def andThen_def)
  next
    case (Inr res)
    show ?thesis
    proof (cases h)
      case None
      with y Inr assms(1) show ?thesis by (simp add: Reserve_def inTx_def andThen_def)
    next
      case (Some s)
      obtain z w2 where z: "hs_Set s (r_id res) (time_sub (r_expires_at res) (wall w1)) w1 = (z, w2)" by fastforce
      with y Inr Some assms(1) have "x = Inr res" "w' = w2"
        by (simp_all add: Reserve_def inTx_def andThen_def reading_def onResult_def SystemClock_Now_def)
      with z Inr assms(2) Some show ?thesis
        by (auto simp: holds_safe_def hold_safe_def) (metis snd_conv)+
    qed
  qed
  with that y show ?thesis by blast
qed

section \<open>The seat book\<close>

text \<open>
  What the service promises, without a database: a capacity per event and the list of bookings; a
  booking is accepted only when the seats taken by the active ones leave room for it.
\<close>

record booking =
  bk_id :: string
  bk_event :: string
  bk_user :: string
  bk_quantity :: int
  bk_status :: reservation_status

record seat_book =
  sb_capacity :: "string \<rightharpoonup> int"
  sb_bookings :: "booking list"

definition bk_active :: "booking \<Rightarrow> bool" where
  "bk_active b \<longleftrightarrow> bk_status b = PENDING \<or> bk_status b = CONFIRMED"

definition taken :: "seat_book \<Rightarrow> string \<Rightarrow> int" where
  "taken B ev =
     sum_list (map (\<lambda>b. if bk_event b = ev \<and> bk_active b then bk_quantity b else 0) (sb_bookings B))"

inductive book_step :: "seat_book \<Rightarrow> seat_book \<Rightarrow> bool" where
  hold: "sb_capacity B ev = Some c \<Longrightarrow> 0 < n \<Longrightarrow> taken B ev + n \<le> c \<Longrightarrow>
     k \<notin> bk_id ` set (sb_bookings B) \<Longrightarrow>
     \<forall>b\<in>set (sb_bookings B). bk_active b \<longrightarrow> \<not> (bk_user b = u \<and> bk_event b = ev) \<Longrightarrow>
     book_step B (B\<lparr>sb_bookings := sb_bookings B @
       [\<lparr>bk_id = k, bk_event = ev, bk_user = u, bk_quantity = n, bk_status = PENDING\<rparr>]\<rparr>)"
| settle: "b \<in> set (sb_bookings B) \<Longrightarrow> bk_status b = PENDING \<Longrightarrow> s \<noteq> PENDING \<Longrightarrow>
     book_step B (B\<lparr>sb_bookings :=
       map (\<lambda>x. if bk_id x = bk_id b then x\<lparr>bk_status := s\<rparr> else x) (sb_bookings B)\<rparr>)"
| open_sale: "sb_capacity B ev = None \<Longrightarrow> taken B ev = 0 \<Longrightarrow> 0 \<le> c \<Longrightarrow>
     book_step B (B\<lparr>sb_capacity := (sb_capacity B)(ev \<mapsto> c)\<rparr>)"

definition book_of :: "core_db \<Rightarrow> seat_book" where
  "book_of d =
     \<lparr>sb_capacity = (\<lambda>k. map_option e_capacity (find_event d k)),
      sb_bookings = map (\<lambda>r. \<lparr>bk_id = r_id r, bk_event = r_event_id r, bk_user = r_user_id r,
        bk_quantity = r_quantity r, bk_status = r_status r\<rparr>) (t_reservations d)\<rparr>"

lemma taken_units: "taken (book_of d) k = units d PENDING k + units d CONFIRMED k"
proof -
  have "sum_list (map (\<lambda>b. if bk_event b = k \<and> bk_active b then bk_quantity b else 0)
      (map (\<lambda>r. \<lparr>bk_id = r_id r, bk_event = r_event_id r, bk_user = r_user_id r,
        bk_quantity = r_quantity r, bk_status = r_status r\<rparr>) rs)) =
      sum_list (map (\<lambda>r. if r_event_id r = k \<and> r_status r = PENDING then r_quantity r else 0) rs)
    + sum_list (map (\<lambda>r. if r_event_id r = k \<and> r_status r = CONFIRMED then r_quantity r else 0) rs)" for rs
    by (induction rs) (auto simp: bk_active_def)
  then show ?thesis by (simp only: taken_def units_def book_of_def seat_book.simps)
qed

lemma find_event_write:
  "find_event d (e_id e) \<noteq> None \<Longrightarrow>
     find_event (write_event e d) k = (if k = e_id e then Some e else find_event d k)"
proof -
  have "find (\<lambda>x. e_id x = k) (map (\<lambda>x. if e_id x = e_id e then e else x) es) =
      (if k = e_id e then (case find (\<lambda>x. e_id x = e_id e) es of None \<Rightarrow> None | Some _ \<Rightarrow> Some e)
       else find (\<lambda>x. e_id x = k) es)" for es
    by (induction es) auto
  then show "find_event d (e_id e) \<noteq> None \<Longrightarrow> ?thesis"
    by (auto simp: find_event_def write_event_def)
qed

lemma capacity_write_event:
  assumes "find_event d (e_id e) = Some e0" "e_capacity e = e_capacity e0"
  shows "map_option e_capacity (find_event (write_event e d) k) = map_option e_capacity (find_event d k)"
  using assms by (simp add: find_event_write)

text \<open>A booking is a \<open>hold\<close> of the seat book, a settlement a \<open>settle\<close>.\<close>

lemma booking_holds:
  assumes inv: "core_inv d" and b: "books d e r b d'"
  shows "book_step (book_of d) (book_of d')"
proof -
  from b obtain t where fe: "find_event d (r_event_id r) = Some e" and pend: "r_status r = PENDING"
    and wf: "wf_reservation d r" and cl: "\<forall>x\<in>set (t_reservations d). \<not> clashes r x"
    and room: "e_reserved_count e + e_sold_count e + r_quantity r \<le> e_capacity e"
    and d': "d' = booked (e\<lparr>e_reserved_count := e_reserved_count e + r_quantity r, e_updated_at := t\<rparr>) r b d"
    by (auto simp: books_def)
  let ?e' = "e\<lparr>e_reserved_count := e_reserved_count e + r_quantity r, e_updated_at := t\<rparr>"
  from find_event_Some [OF fe] have e: "e \<in> set (t_events d)" "e_id e = r_event_id r" by auto
  then have "balanced d e" using inv by (simp add: core_inv_def ledger_def)
  with room e(2) have tk: "taken (book_of d) (r_event_id r) + r_quantity r \<le> e_capacity e"
    by (simp add: taken_units balanced_def)
  have "find_event d' k = find_event (write_event ?e' d) k" for k
    by (simp add: find_event_def d')
  then have cap: "map_option e_capacity (find_event d' k) = map_option e_capacity (find_event d k)" for k
    using capacity_write_event [of d ?e' e] fe e(2) by simp
  have "book_of d' = (book_of d)\<lparr>sb_bookings := sb_bookings (book_of d) @
      [\<lparr>bk_id = r_id r, bk_event = r_event_id r, bk_user = r_user_id r, bk_quantity = r_quantity r, bk_status = PENDING\<rparr>]\<rparr>"
    using cap pend by (simp add: book_of_def d')
  moreover have "0 < r_quantity r" using wf by (simp add: wf_reservation_def row_valid_def)
  moreover have "r_id r \<notin> bk_id ` set (sb_bookings (book_of d))"
    using cl by (auto simp: book_of_def clashes_def)
  moreover have "\<forall>x\<in>set (sb_bookings (book_of d)). bk_active x \<longrightarrow> \<not> (bk_user x = r_user_id r \<and> bk_event x = r_event_id r)"
    using cl pend by (auto simp: book_of_def bk_active_def clashes_def active_def)
  ultimately show ?thesis
    using book_step.hold [of "book_of d" "r_event_id r" "e_capacity e" "r_quantity r" "r_id r" "r_user_id r"] tk fe
    by (simp add: book_of_def)
qed

lemma settlement_settles:
  assumes inv: "core_inv d" and b: "settles d s e r b d'"
  shows "book_step (book_of d) (book_of d')"
proof -
  from b obtain t v c where
    d': "d' = settled ((moved_counts s (r_quantity r) e)\<lparr>e_updated_at := t\<rparr>)
          (r\<lparr>r_status := s, r_confirmed_at := c, r_version := r_version r + 1, r_updated_at := v\<rparr>) b d"
    and r: "r \<in> set (t_reservations d)" "r_status r = PENDING" "s \<noteq> PENDING"
    and fe: "find_event d (r_event_id r) = Some e"
    by (auto simp: settles_def)
  let ?e' = "(moved_counts s (r_quantity r) e)\<lparr>e_updated_at := t\<rparr>"
  let ?bk = "\<lambda>r. \<lparr>bk_id = r_id r, bk_event = r_event_id r, bk_user = r_user_id r,
        bk_quantity = r_quantity r, bk_status = r_status r\<rparr>"
  let ?r' = "r\<lparr>r_status := s, r_confirmed_at := c, r_version := r_version r + 1, r_updated_at := v\<rparr>"
  from find_event_Some [OF fe] have e: "e \<in> set (t_events d)" "e_id e = r_event_id r" by auto
  have "find_event d' k = find_event (write_event ?e' d) k" for k
    by (simp add: find_event_def d')
  then have cap: "map_option e_capacity (find_event d' k) = map_option e_capacity (find_event d k)" for k
    using capacity_write_event [of d ?e' e] fe e(2) by (simp add: moved_counts_def)
  have ids: "distinct (map r_id (t_reservations d))" using inv by (simp add: core_inv_def wf_core_def)
  have "map ?bk (map (\<lambda>x. if r_id x = r_id r then ?r' else x) (t_reservations d)) =
      map (\<lambda>x. if bk_id x = r_id r then x\<lparr>bk_status := s\<rparr> else x) (map ?bk (t_reservations d))"
    using distinct_key_eq [OF ids _ r(1)] by auto
  then have "book_of d' = (book_of d)\<lparr>sb_bookings :=
      map (\<lambda>x. if bk_id x = bk_id (?bk r) then x\<lparr>bk_status := s\<rparr> else x) (sb_bookings (book_of d))\<rparr>"
    using cap by (simp add: book_of_def d' write_reservation_def)
  moreover have "?bk r \<in> set (sb_bookings (book_of d))" using r(1) by (simp add: book_of_def)
  ultimately show ?thesis
    using book_step.settle [of "?bk r" "book_of d" s] r by simp
qed

definition empty_book :: seat_book where
  "empty_book = \<lparr>sb_capacity = Map.empty, sb_bookings = []\<rparr>"

text \<open>The seat book never takes more seats than there are.\<close>

lemma taken_settle:
  assumes "\<forall>x\<in>set (sb_bookings B). 0 \<le> bk_quantity x" "\<forall>x\<in>set (sb_bookings B). bk_id x = i \<longrightarrow> bk_status x = PENDING"
  shows "taken (B\<lparr>sb_bookings := map (\<lambda>x. if bk_id x = i then x\<lparr>bk_status := s\<rparr> else x) (sb_bookings B)\<rparr>) ev
    \<le> taken B ev"
proof -
  have "sum_list (map (\<lambda>b. if bk_event b = ev \<and> bk_active b then bk_quantity b else 0)
      (map (\<lambda>x. if bk_id x = i then x\<lparr>bk_status := s\<rparr> else x) bs))
    \<le> sum_list (map (\<lambda>b. if bk_event b = ev \<and> bk_active b then bk_quantity b else 0) bs)"
    if "set bs \<subseteq> set (sb_bookings B)" for bs
    using that assms by (induction bs) (auto simp: bk_active_def)
  then show ?thesis by (simp add: taken_def del: map_map)
qed

definition book_inv :: "seat_book \<Rightarrow> bool" where
  "book_inv B \<longleftrightarrow> distinct (map bk_id (sb_bookings B)) \<and> (\<forall>x\<in>set (sb_bookings B). 0 \<le> bk_quantity x)
     \<and> (\<forall>ev c. sb_capacity B ev = Some c \<longrightarrow> taken B ev \<le> c)"

lemma book_inv_step: "book_step B B' \<Longrightarrow> book_inv B \<Longrightarrow> book_inv B'"
proof (induction rule: book_step.induct)
  case (hold B ev c n k u)
  then show ?case by (auto simp: book_inv_def taken_def bk_active_def)
next
  case (settle b B s)
  have "\<forall>x\<in>set (sb_bookings B). bk_id x = bk_id b \<longrightarrow> x = b"
    using settle by (auto simp: book_inv_def dest: distinct_key_eq)
  then have "taken (B\<lparr>sb_bookings := map (\<lambda>x. if bk_id x = bk_id b then x\<lparr>bk_status := s\<rparr> else x) (sb_bookings B)\<rparr>) ev
      \<le> taken B ev" for ev
    using settle by (intro taken_settle) (auto simp: book_inv_def)
  moreover have "map bk_id (map (\<lambda>x. if bk_id x = bk_id b then x\<lparr>bk_status := s\<rparr> else x) (sb_bookings B))
      = map bk_id (sb_bookings B)"
    by auto
  moreover have "sb_capacity B ev = Some c \<Longrightarrow> x \<le> taken B ev \<Longrightarrow> x \<le> c" for ev c x
    using settle.prems unfolding book_inv_def by (meson order_trans)
  ultimately show ?case using settle.prems
    unfolding book_inv_def by (auto simp del: map_map)
next
  case (open_sale B ev c)
  then show ?case by (auto simp: book_inv_def taken_def)
qed

lemma book_reachable_inv: "book_step\<^sup>*\<^sup>* empty_book B \<Longrightarrow> book_inv B"
proof (induction rule: rtranclp_induct)
  case base
  then show ?case by (simp add: empty_book_def book_inv_def taken_def)
next
  case (step B B')
  then show ?case by (blast intro: book_inv_step)
qed

section \<open>Concurrent consumers\<close>

text \<open>A use case that has read what it needs and has not written yet.\<close>

datatype pending =
    ReserveWrite reserve_command instant event
  | ConfirmWrite reservation
  | ReleaseWrite release_reason reservation

fun write_phase :: "'m service \<Rightarrow> pending \<Rightarrow> ('m world_scheme, reservation) op" where
  "write_phase sv (ReserveWrite cmd now ev) = reserve_write sv cmd now ev"
| "write_phase sv (ConfirmWrite r) = confirm_loaded sv r"
| "write_phase sv (ReleaseWrite reason r) = release_loaded sv reason r"

type_synonym 'm core_sys = "'m core_world \<times> pending list"

inductive core_step :: "(core_db, 'm) pg_world_ext service \<Rightarrow> 'm core_sys \<Rightarrow> 'm core_sys \<Rightarrow> bool"
  for sv where
  read_reserve: "0 < rc_quantity cmd \<Longrightarrow> sv_Event sv (rc_event_id cmd) w = (Inr ev, w') \<Longrightarrow>
     SaleIsOpen now ev \<Longrightarrow> core_step sv (w, ps) (w', ReserveWrite cmd now ev # ps)"
| read_confirm: "load sv i w = (Inr r, w') \<Longrightarrow> core_step sv (w, ps) (w', ConfirmWrite r # ps)"
| read_release: "load sv i w = (Inr r, w') \<Longrightarrow> core_step sv (w, ps) (w', ReleaseWrite reason r # ps)"
| write_commit: "c \<in> set ps \<Longrightarrow> WithinTx (write_phase sv c) w = (x, w') \<Longrightarrow>
     core_step sv (w, ps) (w', remove1 c ps)"
| crash: "core_step sv (w, ps) (w, remove1 c ps)"
| environment: "core_step sv (w, ps) (w\<lparr>wall := t, pg_clock := t', faults := fs\<rparr>, ps)"
| relayed: "core_step sv (w, ps) (w\<lparr>db := (db w)\<lparr>t_outbox :=
     map (\<lambda>b. if o_id b \<in> S then b\<lparr>o_processed_at := Some t\<rparr> else b) (t_outbox (db w))\<rparr>\<rparr>, ps)"
| seeded: "wf_event e \<Longrightarrow> find_event (db w) (e_id e) = None \<Longrightarrow>
     e_reserved_count e = 0 \<Longrightarrow> e_sold_count e = 0 \<Longrightarrow> 0 < e_capacity e \<Longrightarrow>
     core_step sv (w, ps) (w\<lparr>db := (db w)\<lparr>t_events := t_events (db w) @ [e]\<rparr>\<rparr>, ps)"

definition empty_core :: core_db where
  "empty_core = \<lparr>t_outbox = [], t_events = [], t_reservations = []\<rparr>"

inductive core_reachable :: "(core_db, 'm) pg_world_ext service \<Rightarrow> 'm core_sys \<Rightarrow> bool" for sv where
  start: "db w = empty_core \<Longrightarrow> tx w = NoTx \<Longrightarrow> core_reachable sv (w, [])"
| step: "core_reachable sv s \<Longrightarrow> core_step sv s s' \<Longrightarrow> core_reachable sv s'"

fun pending_ok :: "core_db \<Rightarrow> pending \<Rightarrow> bool" where
  "pending_ok d (ReserveWrite cmd now ev) = True"
| "pending_ok d (ConfirmWrite r) = seen d r"
| "pending_ok d (ReleaseWrite reason r) = seen d r"

definition sys_inv :: "'m core_sys \<Rightarrow> bool" where
  "sys_inv s \<longleftrightarrow> tx (fst s) = NoTx \<and> core_inv (db (fst s)) \<and> (\<forall>c\<in>set (snd s). pending_ok (db (fst s)) c)"

section \<open>What was read stays valid\<close>

lemma seen_cong: "t_reservations d' = t_reservations d \<Longrightarrow> seen d' r \<longleftrightarrow> seen d r"
  by (simp add: seen_def)

lemma booking_seen: "books d e r b d' \<Longrightarrow> seen d r0 \<Longrightarrow> seen d' r0"
  by (auto simp: books_def seen_def)

lemma settlement_seen:
  assumes "wf_core d" "settles d s e r b d'" "seen d r0"
  shows "seen d' r0"
proof -
  from assms(2) obtain t v c where
    d': "d' = settled ((moved_counts s (r_quantity r) e)\<lparr>e_updated_at := t\<rparr>)
          (r\<lparr>r_status := s, r_confirmed_at := c, r_version := r_version r + 1, r_updated_at := v\<rparr>) b d"
    and r: "r \<in> set (t_reservations d)"
    by (auto simp: settles_def)
  let ?r' = "r\<lparr>r_status := s, r_confirmed_at := c, r_version := r_version r + 1, r_updated_at := v\<rparr>"
  have set: "set (t_reservations d') = insert ?r' {x \<in> set (t_reservations d). r_id x \<noteq> r_id r}"
    using r by (simp add: d' set_write_reservation [of r])
  from assms(3) obtain x where x: "0 < r_version r0" "x \<in> set (t_reservations d)" "r_id x = r_id r0"
    "r_version r0 \<le> r_version x" "r_version x = r_version r0 \<longrightarrow> x = r0"
    by (auto simp: seen_def)
  show ?thesis
  proof (cases "r_id x = r_id r")
    case True
    have ids: "distinct (map r_id (t_reservations d))" using assms(1) by (simp add: wf_core_def)
    from distinct_key_eq [OF ids x(2) r True] have "x = r" .
    with x have "r_id ?r' = r_id r0" "r_version r0 \<le> r_version ?r'" "r_version ?r' \<noteq> r_version r0"
      by auto
    with x(1) show ?thesis unfolding seen_def set by blast
  next
    case False
    with x show ?thesis unfolding seen_def set by blast
  qed
qed

lemma pending_ok_seen:
  "(\<And>r. seen d r \<Longrightarrow> seen d' r) \<Longrightarrow> pending_ok d c \<Longrightarrow> pending_ok d' c"
  by (cases c) auto

section \<open>Every step keeps the invariant\<close>

text \<open>What a write phase can do to the tables, whatever fails.\<close>

lemma write_phase_effect:
  assumes run: "WithinTx (write_phase (core_service ttl h v) c) w = (x, w')"
    and inv: "tx w = NoTx" "core_inv (db w)" "pending_ok (db w) c"
  shows "tx w' = NoTx" "db w' = db w \<or> (\<exists>e r b. books (db w) e r b (db w'))
    \<or> (\<exists>s e r b. settles (db w) s e r b (db w'))"
proof -
  let ?P = "\<lambda>(_ :: reservation) d d'. d' = d \<or> (\<exists>e r b. books d e r b d') \<or> (\<exists>s e r b. settles d s e r b d')"
  have body: "tx_body (write_phase (core_service ttl h v) c)"
    by (cases c) (simp_all add: tx_keep)
  have eff: "?P a (db w) (db w2)"
    if r: "write_phase (core_service ttl h v) c (begun w) = (Inr a, w2)" for a w2
  proof (cases c)
    case (ReserveWrite cmd now ev)
    with r pg.reserve_write_books [of ttl h v cmd now ev "begun w" a w2] show ?thesis by auto
  next
    case (ConfirmWrite r0)
    with r inv pg.confirm_loaded_settles [of ttl h v r0 "begun w" a w2] show ?thesis
      by (auto simp: core_inv_def)
  next
    case (ReleaseWrite reason r0)
    with r inv pg.release_loaded_settles [of ttl h v reason r0 "begun w" a w2] show ?thesis
      by (auto simp: core_inv_def)
  qed
  from unit_of_work [OF run inv(1) body, of ?P] eff
  show "tx w' = NoTx" "db w' = db w \<or> (\<exists>e r b. books (db w) e r b (db w'))
    \<or> (\<exists>s e r b. settles (db w) s e r b (db w'))"
    by blast+
qed

lemma relayed_db:
  assumes inv: "core_inv d"
  shows "core_inv (d\<lparr>t_outbox := map (\<lambda>b. if c b then b\<lparr>o_processed_at := t\<rparr> else b) (t_outbox d)\<rparr>)"
  (is "core_inv ?d'")
proof -
  have ids: "map o_id (t_outbox ?d') = map o_id (t_outbox d)" by simp
  have "wf_core ?d'"
    using inv unfolding core_inv_def wf_core_def ids by (simp add: wf_reservation_def find_event_def)
  moreover have "ledger ?d'"
    using inv by (simp add: core_inv_def ledger_def balanced_def units_def)
  moreover have "map o_event_type (filter (\<lambda>b. uuid_in (o_correlation_id b) = Some k)
      (map (\<lambda>b. if c b then b\<lparr>o_processed_at := t\<rparr> else b) bs))
    = map o_event_type (filter (\<lambda>b. uuid_in (o_correlation_id b) = Some k) bs)" for bs k
    by (induction bs) auto
  then have "outbox_agrees ?d'"
    using inv by (simp add: core_inv_def outbox_agrees_def trail_def find_reservation_def)
  ultimately show ?thesis by (simp add: core_inv_def)
qed

lemma no_reservations:
  assumes inv: "core_inv d" and e: "find_event d (e_id e) = None"
  shows "units d s (e_id e) = 0"
proof -
  have none: "r_event_id r \<noteq> e_id e" if "r \<in> set (t_reservations d)" for r
    using inv e(1) that by (auto simp: core_inv_def wf_core_def wf_reservation_def)
  then have "map (\<lambda>r. if r_event_id r = e_id e \<and> r_status r = s then r_quantity r else 0) (t_reservations d)
      = map (\<lambda>_. 0) (t_reservations d)"
    by auto
  then show ?thesis unfolding units_def by (simp only: sum_list_0)
qed

lemma seeded_db:
  assumes inv: "core_inv d" and e: "find_event d (e_id e) = None"
    "e_reserved_count e = 0" "e_sold_count e = 0" "0 < e_capacity e" "wf_event e"
  shows "core_inv (d\<lparr>t_events := t_events d @ [e]\<rparr>)" (is "core_inv ?d'")
proof -
  have find: "find_event ?d' k = (case find_event d k of None \<Rightarrow> if k = e_id e then Some e else None | Some x \<Rightarrow> Some x)" for k
    by (auto simp: find_event_def find_snoc split: option.splits)
  have "units ?d' s (e_id e) = 0" for s
    using no_reservations [OF inv e(1)] by (simp add: units_def)
  then have "balanced ?d' e"
    using e by (simp add: balanced_def counts_valid_def)
  moreover have "balanced ?d' x" if "x \<in> set (t_events d)" for x
    using inv that by (simp add: core_inv_def ledger_def balanced_def units_def)
  moreover have "wf_core ?d'"
    using inv e(1,5) by (auto simp: core_inv_def wf_core_def wf_reservation_def find find_event_None
        split: option.splits)
  ultimately show ?thesis
    using inv by (auto simp: core_inv_def ledger_def outbox_agrees_def trail_def find_reservation_def)
qed

lemma load_read:
  assumes "load (core_service ttl h v) i w = (Inr r, w')" "wf_core (db w)"
  shows "tx w' = tx w" "db w' = db w" "seen (db w) r"
  using assms pg.load_seen [OF assms]
  by (auto simp: load_def dest: Get_read split: if_splits)

lemma sys_inv_step:
  assumes "core_step (core_service ttl h v) s s'" "sys_inv s"
  shows "sys_inv s'"
  using assms
proof (cases rule: core_step.cases)
  case (read_reserve cmd w ev w' now ps)
  then show ?thesis using assms(2) Event_read [of "rc_event_id cmd" w ev w'] by (simp add: sys_inv_def)
next
  case (read_confirm i w r w' ps)
  moreover from this assms(2) have "wf_core (db w)" by (simp add: sys_inv_def core_inv_def)
  ultimately show ?thesis using assms(2) load_read [of ttl h v i w r w'] by (simp add: sys_inv_def)
next
  case (read_release i w r w' ps reason)
  moreover from this assms(2) have "wf_core (db w)" by (simp add: sys_inv_def core_inv_def)
  ultimately show ?thesis using assms(2) load_read [of ttl h v i w r w'] by (simp add: sys_inv_def)
next
  case (write_commit c ps w x w')
  with assms(2) have pre: "tx w = NoTx" "core_inv (db w)" "pending_ok (db w) c"
    and all: "\<forall>c\<in>set ps. pending_ok (db w) c" by (auto simp: sys_inv_def)
  note eff = write_phase_effect [OF write_commit(4) pre]
  from eff(2) have "core_inv (db w')"
    using pre(2) booking_inv settlement_inv by metis
  moreover have "seen (db w') r" if "seen (db w) r" for r
    using eff(2) that pre(2) booking_seen settlement_seen by (metis core_inv_def)
  then have "\<forall>c\<in>set (remove1 c ps). pending_ok (db w') c"
    using all pending_ok_seen notin_set_remove1 by metis
  ultimately show ?thesis using eff(1) write_commit by (simp add: sys_inv_def)
next
  case (crash w ps c)
  then show ?thesis using assms(2) notin_set_remove1 by (fastforce simp: sys_inv_def)
next
  case (relayed w ps S t)
  have "seen (db w) r \<Longrightarrow> seen (db (fst s')) r" for r by (simp add: relayed seen_def)
  then have "\<forall>c\<in>set ps. pending_ok (db (fst s')) c"
    using assms(2) relayed pending_ok_seen by (fastforce simp: sys_inv_def)
  with assms(2) relayed relayed_db show ?thesis by (auto simp: sys_inv_def)
next
  case (seeded e w ps)
  have "seen (db w) r \<Longrightarrow> seen (db (fst s')) r" for r by (simp add: seeded seen_def)
  then have "\<forall>c\<in>set ps. pending_ok (db (fst s')) c"
    using assms(2) seeded pending_ok_seen by (fastforce simp: sys_inv_def)
  with assms(2) seeded seeded_db show ?thesis by (auto simp: sys_inv_def)
qed (auto simp: sys_inv_def)

lemma empty_core_inv: "core_inv empty_core"
  by (simp add: core_inv_def empty_core_def wf_core_def ledger_def outbox_agrees_def trail_def find_reservation_def)

lemma reachable_inv: "core_reachable (core_service ttl h v) s \<Longrightarrow> sys_inv s"
proof (induction rule: core_reachable.induct)
  case (start w)
  then show ?case by (simp add: sys_inv_def empty_core_inv)
next
  case (step s s')
  then show ?case by (blast intro: sys_inv_step)
qed

section \<open>Refinement of the seat book\<close>

lemma core_step_refines:
  assumes "core_step (core_service ttl h v) s s'" "sys_inv s"
  shows "book_of (db (fst s')) = book_of (db (fst s)) \<or> book_step (book_of (db (fst s))) (book_of (db (fst s')))"
  using assms
proof (cases rule: core_step.cases)
  case (read_reserve cmd w ev w' now ps)
  then show ?thesis using Event_read [of "rc_event_id cmd" w ev w'] by simp
next
  case (read_confirm i w r w' ps)
  moreover from this assms(2) have "wf_core (db w)" by (simp add: sys_inv_def core_inv_def)
  ultimately show ?thesis using load_read [of ttl h v i w r w'] by simp
next
  case (read_release i w r w' ps reason)
  moreover from this assms(2) have "wf_core (db w)" by (simp add: sys_inv_def core_inv_def)
  ultimately show ?thesis using load_read [of ttl h v i w r w'] by simp
next
  case (write_commit c ps w x w')
  with assms(2) have pre: "tx w = NoTx" "core_inv (db w)" "pending_ok (db w) c"
    by (auto simp: sys_inv_def)
  from write_phase_effect(2) [OF write_commit(4) pre] show ?thesis
    using booking_holds [OF pre(2)] settlement_settles [OF pre(2)] write_commit by auto
next
  case (seeded e w ps)
  let ?d = "db w" let ?d' = "?d\<lparr>t_events := t_events ?d @ [e]\<rparr>"
  have find: "find_event ?d' k = (case find_event ?d k of None \<Rightarrow> if k = e_id e then Some e else None | Some x \<Rightarrow> Some x)" for k
    by (auto simp: find_event_def find_snoc split: option.splits)
  have "book_of ?d' = (book_of ?d)\<lparr>sb_capacity := (sb_capacity (book_of ?d))(e_id e \<mapsto> e_capacity e)\<rparr>"
    using seeded by (auto simp: book_of_def find fun_eq_iff split: option.splits)
  moreover have "taken (book_of ?d) (e_id e) = 0"
    using no_reservations [of ?d e] assms(2) seeded by (simp add: taken_units sys_inv_def)
  ultimately show ?thesis
    using book_step.open_sale [of "book_of ?d" "e_id e" "e_capacity e"] seeded by (simp add: book_of_def)
qed (auto simp: book_of_def find_event_def)

lemma reachable_refines:
  "core_reachable (core_service ttl h v) s \<Longrightarrow> book_step\<^sup>*\<^sup>* empty_book (book_of (db (fst s)))"
proof (induction rule: core_reachable.induct)
  case (start w)
  then show ?case by (simp add: empty_book_def book_of_def empty_core_def find_event_def)
next
  case (step s s')
  from core_step_refines [OF step(2) reachable_inv [OF step(1)]] step(3) show ?case
    by (auto intro: rtranclp.rtrancl_into_rtrancl)
qed

lemma step_keeps_settled:
  assumes "core_step (core_service ttl h v) s s'" "sys_inv s"
    and r: "r \<in> set (t_reservations (db (fst s)))" "r_status r \<noteq> PENDING"
  shows "r \<in> set (t_reservations (db (fst s')))"
  using assms(1,2)
proof (cases rule: core_step.cases)
  case (read_reserve cmd w ev w' now ps)
  then show ?thesis using r Event_read [of "rc_event_id cmd" w ev w'] by simp
next
  case (read_confirm i w x w' ps)
  moreover from this assms(2) have "wf_core (db w)" by (simp add: sys_inv_def core_inv_def)
  ultimately show ?thesis using r load_read [of ttl h v i w x w'] by simp
next
  case (read_release i w x w' ps reason)
  moreover from this assms(2) have "wf_core (db w)" by (simp add: sys_inv_def core_inv_def)
  ultimately show ?thesis using r load_read [of ttl h v i w x w'] by simp
next
  case (write_commit c ps w x w')
  with assms(2) have pre: "tx w = NoTx" "core_inv (db w)" "pending_ok (db w) c"
    by (auto simp: sys_inv_def)
  have r': "r \<in> set (t_reservations (db w))" using r write_commit by simp
  from write_phase_effect(2) [OF write_commit(4) pre]
  consider "db w' = db w" | e x b where "books (db w) e x b (db w')"
    | t e x b where "settles (db w) t e x b (db w')" by blast
  then have "r \<in> set (t_reservations (db w'))"
    by cases (use r' r(2) pre(2) booking_keeps settlement_keeps in \<open>auto simp: core_inv_def\<close>)
  then show ?thesis using write_commit by simp
qed (use r in auto)

section \<open>What one use case does\<close>

text \<open>Whatever fails in it, a use case books once, settles once, or leaves the tables alone.\<close>

lemma Reserve_effect:
  assumes run: "Reserve (core_service ttl h v) cmd w = (x, w')" and pre: "tx w = NoTx" "holds_safe h"
  shows "tx w' = NoTx"
    and "db w' = db w \<or> (\<exists>e r b. books (db w) e r b (db w') \<and> r_user_id r = rc_user_id cmd
      \<and> r_quantity r = rc_quantity cmd \<and> uuid_in (rc_event_id cmd) = Some (r_event_id r))"
    and "x = Inr res \<Longrightarrow> wf_core (db w) \<Longrightarrow>
      \<exists>r\<in>set (t_reservations (db w')). uuid_in (r_id res) = Some (r_id r)"
proof -
  from Reserve_run [OF run pre(2)] obtain w1 where
    u: "WithinTx (reserve (core_service ttl h v) cmd) w = (x, w1)" and w1: "db w' = db w1" "tx w' = tx w1" .
  let ?new = "\<lambda>a d d'. \<exists>e r b. books d e r b d' \<and> r_user_id r = rc_user_id cmd
      \<and> r_quantity r = rc_quantity cmd \<and> uuid_in (rc_event_id cmd) = Some (r_event_id r)
      \<and> uuid_in (r_id a) = Some (r_id r)"
  let ?P = "\<lambda>a d d'. (d' = d \<and> (\<exists>k. find_reservation d k = Some a)) \<or> ?new a d d'"
  have eff: "?P a (db w) (db w2)" if r: "reserve (core_service ttl h v) cmd (begun w) = (Inr a, w2)" for a w2
    using pg.reserve_books [OF r]
  proof
    assume "\<exists>e r b cur now ev. books (db (begun w)) e r b (db w2)
      \<and> uuid_in (rc_event_id cmd) = Some (r_event_id r) \<and> uuid_in (r_id a) = Some (r_id r)
      \<and> r = stored (r_id r) (r_event_id r) cur a \<and> TicketReservedPayload a = Inr (o_payload b)
      \<and> SaleIsOpen now ev \<and> find_event (db (begun w)) (r_event_id r) = Some ev
      \<and> requested (core_service ttl h v) cmd now ev a"
    then obtain e r b cur now ev where b: "books (db w) e r b (db w2)"
      "uuid_in (rc_event_id cmd) = Some (r_event_id r)" "uuid_in (r_id a) = Some (r_id r)"
      and st: "r = stored (r_id r) (r_event_id r) cur a" and q: "requested (core_service ttl h v) cmd now ev a"
      by auto
    from st have "r_user_id r = r_user_id a \<and> r_quantity r = r_quantity a"
      by (rule ssubst) (simp add: stored_def)
    with b q show ?thesis by (auto simp: requested_def)
  qed auto
  note out = unit_of_work [OF u pre(1) service_tx_bodies(2), of ?P]
  show "tx w' = NoTx" using out(1) eff w1 by simp
  show "db w' = db w \<or> (\<exists>e r b. books (db w) e r b (db w') \<and> r_user_id r = rc_user_id cmd
      \<and> r_quantity r = rc_quantity cmd \<and> uuid_in (rc_event_id cmd) = Some (r_event_id r))"
    using out(2) eff w1 by metis
  assume x: "x = Inr res" and wf: "wf_core (db w)"
  from out(3) [OF _ x] eff have "?P res (db w) (db w1)" by blast
  then consider k where "db w1 = db w" "find_reservation (db w) k = Some res" | "?new res (db w) (db w1)"
    by blast
  then show "\<exists>r\<in>set (t_reservations (db w')). uuid_in (r_id res) = Some (r_id r)"
  proof cases
    case 1
    with find_reservation_Some wf w1 show ?thesis
      by (metis wf_core_def wf_reservation_def)
  next
    case 2
    then show ?thesis by (auto simp: w1 books_def)
  qed
qed

lemma Confirm_effect:
  assumes run: "Service_Confirm (core_service ttl h v) i w = (x, w')"
    and pre: "tx w = NoTx" "holds_safe h" "wf_core (db w)"
  shows "tx w' = NoTx"
    and "db w' = db w \<or> (\<exists>e r b. settles (db w) CONFIRMED e r b (db w') \<and> uuid_in i = Some (r_id r))"
proof -
  from Service_Confirm_run [OF run pre(2)] obtain w1 where
    u: "WithinTx (confirm (core_service ttl h v) i) w = (x, w1)" and w1: "db w' = db w1" "tx w' = tx w1" .
  let ?P = "\<lambda>(a :: reservation) d d'. d' = d \<or> (\<exists>e r b. settles d CONFIRMED e r b d' \<and> uuid_in i = Some (r_id r))"
  have eff: "?P a (db w) (db w2)" if r: "confirm (core_service ttl h v) i (begun w) = (Inr a, w2)" for a w2
    using pg.confirm_settles [OF r] pre(3) by auto
  note out = unit_of_work [OF u pre(1) service_tx_bodies(3), of ?P]
  show "tx w' = NoTx" using out(1) eff w1 by simp
  show "db w' = db w \<or> (\<exists>e r b. settles (db w) CONFIRMED e r b (db w') \<and> uuid_in i = Some (r_id r))"
    using out(2) eff w1 by metis
qed

lemma release_effect:
  assumes run: "release (core_service ttl h v) i reason w = (x, w')"
    and pre: "tx w = NoTx" "holds_safe h" "wf_core (db w)"
  shows "tx w' = NoTx"
    and "db w' = db w \<or> (\<exists>e r b. settles (db w) (released_as reason) e r b (db w') \<and> uuid_in i = Some (r_id r))"
proof -
  from release_run [OF run pre(2)] obtain w1 where
    u: "WithinTx (releaseInTx (core_service ttl h v) i reason) w = (x, w1)" and w1: "db w' = db w1" "tx w' = tx w1" .
  let ?P = "\<lambda>(a :: reservation) d d'. d' = d \<or>
    (\<exists>e r b. settles d (released_as reason) e r b d' \<and> uuid_in i = Some (r_id r))"
  have eff: "?P a (db w) (db w2)" if r: "releaseInTx (core_service ttl h v) i reason (begun w) = (Inr a, w2)" for a w2
    using pg.release_settles [OF r] pre(3) by auto
  note out = unit_of_work [OF u pre(1) service_tx_bodies(4), of ?P]
  show "tx w' = NoTx" using out(1) eff w1 by simp
  show "db w' = db w \<or> (\<exists>e r b. settles (db w) (released_as reason) e r b (db w') \<and> uuid_in i = Some (r_id r))"
    using out(2) eff w1 by metis
qed

section \<open>A use case repeated\<close>

text \<open>What is asked of the hold store after the transaction.\<close>

definition hold_dropped :: "(core_db, 'm) pg_world_ext hold_store option \<Rightarrow> reservation \<Rightarrow> 'm core_world \<Rightarrow> 'm core_world" where
  "hold_dropped h r w = (case h of None \<Rightarrow> w | Some s \<Rightarrow> snd (hs_Release s (r_id r) w))"

definition hold_taken :: "(core_db, 'm) pg_world_ext hold_store option \<Rightarrow> reservation \<Rightarrow> 'm core_world \<Rightarrow> 'm core_world" where
  "hold_taken h r w = (case h of None \<Rightarrow> w | Some s \<Rightarrow> snd (hs_Set s (r_id r) (time_sub (r_expires_at r) (wall w)) w))"

lemma same_reservation:
  assumes "wf_core d" "r \<in> set (t_reservations d)"
  shows "x \<in> set (t_reservations d) \<Longrightarrow> uuid_in (r_id r) = Some (r_id x) \<Longrightarrow> x = r"
    and "find_reservation d k = Some x \<Longrightarrow> uuid_in (r_id r) = Some k \<Longrightarrow> x = r"
  using assms find_reservation_Some [of d k x]
  by (auto simp: wf_core_def wf_reservation_def dest: distinct_key_eq)

text \<open>Whatever fails, a repeated use case leaves the tables alone, and its result is the reservation.\<close>

lemma repeated_confirm:
  assumes run: "Service_Confirm (core_service ttl h v) (r_id r) w = (x, w')"
    and pre: "tx w = NoTx" "holds_safe h" "wf_core (db w)" and r: "r \<in> set (t_reservations (db w))" "r_status r = CONFIRMED"
  shows "db w' = db w \<and> (\<forall>a. x = Inr a \<longrightarrow> a = r)"
proof -
  from Service_Confirm_run [OF run pre(2)] obtain w1 where
    u: "WithinTx (confirm (core_service ttl h v) (r_id r)) w = (x, w1)" and w1: "db w' = db w1" .
  have "a = r \<and> db w2 = db w" if c: "confirm (core_service ttl h v) (r_id r) (begun w) = (Inr a, w2)" for a w2
    using pg.confirm_settles [OF c] same_reservation [OF pre(3) r(1)] pre(3) r(2) by (auto simp: settles_def)
  with unit_of_work [OF u pre(1) service_tx_bodies(3), of "\<lambda>a d d'. a = r \<and> d' = d"] w1 show ?thesis by auto
qed

lemma repeated_release:
  assumes run: "release (core_service ttl h v) (r_id r) reason w = (x, w')"
    and pre: "tx w = NoTx" "holds_safe h" "wf_core (db w)"
    and r: "r \<in> set (t_reservations (db w))" "r_status r \<in> {EXPIRED, FAILED, CANCELLED}"
  shows "db w' = db w \<and> (\<forall>a. x = Inr a \<longrightarrow> a = r)"
proof -
  from release_run [OF run pre(2)] obtain w1 where
    u: "WithinTx (releaseInTx (core_service ttl h v) (r_id r) reason) w = (x, w1)" and w1: "db w' = db w1" .
  have "a = r \<and> db w2 = db w" if c: "releaseInTx (core_service ttl h v) (r_id r) reason (begun w) = (Inr a, w2)" for a w2
    using pg.release_settles [OF c] same_reservation [OF pre(3) r(1)] pre(3) r(2) by (auto simp: settles_def)
  with unit_of_work [OF u pre(1) service_tx_bodies(4), of "\<lambda>a d d'. a = r \<and> d' = d"] w1 show ?thesis by auto
qed

lemma repeated_reserve:
  assumes run: "Reserve (core_service ttl h v) cmd w = (x, w')"
    and pre: "tx w = NoTx" "holds_safe h" "wf_core (db w)"
    and r: "r \<in> set (t_reservations (db w))" "uuid_in (rc_reservation_id cmd) = Some (r_id r)"
  shows "db w' = db w \<and> (\<forall>a. x = Inr a \<longrightarrow> a = r)"
proof -
  from Reserve_run [OF run pre(2)] obtain w1 where
    u: "WithinTx (reserve (core_service ttl h v) cmd) w = (x, w1)" and w1: "db w' = db w1" .
  have "a = r \<and> db w2 = db w" if c: "reserve (core_service ttl h v) cmd (begun w) = (Inr a, w2)" for a w2
    using pg.reserve_books [OF c]
  proof
    assume "\<exists>e y b cur now ev. books (db (begun w)) e y b (db w2)
      \<and> uuid_in (rc_event_id cmd) = Some (r_event_id y) \<and> uuid_in (r_id a) = Some (r_id y)
      \<and> y = stored (r_id y) (r_event_id y) cur a \<and> TicketReservedPayload a = Inr (o_payload b)
      \<and> SaleIsOpen now ev \<and> find_event (db (begun w)) (r_event_id y) = Some ev
      \<and> requested (core_service ttl h v) cmd now ev a"
    then obtain e y b now ev where b: "books (db w) e y b (db w2)" "uuid_in (r_id a) = Some (r_id y)"
      and q: "requested (core_service ttl h v) cmd now ev a" by auto
    have "rc_reservation_id cmd \<noteq> ''''" using r(2) by auto
    with q b(2) r(2) have "clashes y r" by (simp add: requested_def clashes_def)
    with b(1) r(1) show ?thesis by (auto simp: books_def)
  next
    assume "db w2 = db (begun w) \<and> rc_reservation_id cmd \<noteq> '''' \<and>
      (\<exists>k. uuid_in (rc_reservation_id cmd) = Some k \<and> find_reservation (db (begun w)) k = Some a)"
    with r find_reservation_key [OF pre(3) r(1)] show ?thesis by auto
  qed
  with unit_of_work [OF u pre(1) service_tx_bodies(2), of "\<lambda>a d d'. a = r \<and> d' = d"] w1 show ?thesis by auto
qed

section \<open>With and without a hold store\<close>

lemma core_service_holds:
  fixes h :: "(core_db, 'm) pg_world_ext hold_store option"
  shows "reserve (core_service ttl h v) cmd = reserve (core_service ttl None v) cmd"
  "confirm (core_service ttl h v) i = confirm (core_service ttl None v) i"
  "releaseInTx (core_service ttl h v) i reason = releaseInTx (core_service ttl None v) i reason"
  "inTx (core_service ttl h v) fn = inTx (core_service ttl None v) fn"
proof -
  let ?a = "core_service ttl h v" and ?b = "core_service ttl None v :: (core_db, 'm) pg_world_ext service"
  have p: "new_input ?a = new_input ?b" "record_core ?a = record_core ?b"
    by (simp_all add: new_input_def fun_eq_iff record_core_def)
  have rw: "reserve_write ?a = reserve_write ?b" by (simp add: reserve_write_def fun_eq_iff p)
  have rn: "reserve_new ?a = reserve_new ?b" unfolding reserve_new_def rw by simp
  show "reserve ?a cmd = reserve ?b cmd" unfolding reserve_def rn by simp
  have "confirm_loaded ?a = confirm_loaded ?b" unfolding confirm_loaded_def p core_service_simps by (rule refl)
  then show "confirm ?a i = confirm ?b i" by (simp add: confirm_def load_def)
  have "release_loaded ?a reason = release_loaded ?b reason" unfolding release_loaded_def p core_service_simps by (rule refl)
  then show "releaseInTx ?a i reason = releaseInTx ?b i reason" by (simp add: releaseInTx_def load_def)
  show "inTx ?a fn = inTx ?b fn" by (simp add: inTx_def)
qed

lemma with_port:
  assumes "hold_safe h"
  shows "fst (Reserve (core_service ttl (Some h) v) cmd w) = fst (Reserve (core_service ttl None v) cmd w)
      \<and> db (snd (Reserve (core_service ttl (Some h) v) cmd w)) = db (snd (Reserve (core_service ttl None v) cmd w))"
    and "fst (Service_Confirm (core_service ttl (Some h) v) i w) = fst (Service_Confirm (core_service ttl None v) i w)
      \<and> db (snd (Service_Confirm (core_service ttl (Some h) v) i w)) = db (snd (Service_Confirm (core_service ttl None v) i w))"
    and "fst (release (core_service ttl (Some h) v) i reason w) = fst (release (core_service ttl None v) i reason w)
      \<and> db (snd (release (core_service ttl (Some h) v) i reason w)) = db (snd (release (core_service ttl None v) i reason w))"
proof -
  have hs: "db (snd (hs_Set h j t s)) = db s" "db (snd (hs_Release h j s)) = db s" for j t s
    using assms by (simp_all add: hold_safe_def)
  let ?a = "core_service ttl (Some h) v" and ?b = "core_service ttl None v"
  show "fst (Reserve ?a cmd w) = fst (Reserve ?b cmd w) \<and> db (snd (Reserve ?a cmd w)) = db (snd (Reserve ?b cmd w))"
    unfolding Reserve_def core_service_holds(1) [of ttl "Some h"] core_service_holds(4) [of ttl "Some h"]
    using hs(1)
    by (auto simp: andThen_def reading_def onResult_def split: prod.split sum.split) (metis snd_conv)
  have rh: "releaseHold ?a res s = (Inr (), snd (hs_Release h (r_id res) s))"
    "releaseHold ?b res s = (Inr (), s)" for res s
    by (simp_all add: releaseHold_def onResult_def split: prod.split)
  show "fst (Service_Confirm ?a i w) = fst (Service_Confirm ?b i w)
      \<and> db (snd (Service_Confirm ?a i w)) = db (snd (Service_Confirm ?b i w))"
    unfolding Service_Confirm_def core_service_holds(2) [of ttl "Some h"] core_service_holds(4) [of ttl "Some h"]
    by (simp add: andThen_def rh hs split: prod.split sum.split)
  show "fst (release ?a i reason w) = fst (release ?b i reason w)
      \<and> db (snd (release ?a i reason w)) = db (snd (release ?b i reason w))"
    unfolding release_def core_service_holds(3) [of ttl "Some h"] core_service_holds(4) [of ttl "Some h"]
    by (simp add: andThen_def rh hs split: prod.split sum.split)
qed

lemma with_holds:
  assumes "holds_safe h"
  shows "fst (Service_Confirm (core_service ttl h v) i w) = fst (Service_Confirm (core_service ttl None v) i w)"
    and "fst (release (core_service ttl h v) i reason w) = fst (release (core_service ttl None v) i reason w)"
proof -
  have "fst (Service_Confirm (core_service ttl h v) i w) = fst (Service_Confirm (core_service ttl None v) i w)
    \<and> fst (release (core_service ttl h v) i reason w) = fst (release (core_service ttl None v) i reason w)"
  proof (cases h)
    case (Some s)
    with assms have "hold_safe s" by (simp add: holds_safe_def)
    from with_port(2,3) [OF this] Some show ?thesis by blast
  qed simp
  then show "fst (Service_Confirm (core_service ttl h v) i w) = fst (Service_Confirm (core_service ttl None v) i w)"
    "fst (release (core_service ttl h v) i reason w) = fst (release (core_service ttl None v) i reason w)" by simp_all
qed

end
