(* ===== verification/Core_Progress.thy ===== *)
theory Core_Progress
  imports Core_System
begin

text \<open>
  The other half of the contract: on a healthy connection the adapters and the use cases do succeed.
  Every lemma gives the state the operation ends in, so that runs can be put together step by step.
\<close>

section \<open>The adapters on a healthy connection\<close>

lemma event_bounds:
  assumes "core_inv d" "find_event d k = Some e"
  shows "0 \<le> e_reserved_count e" "0 \<le> e_sold_count e"
    "e_reserved_count e + e_sold_count e \<le> e_capacity e" "e_capacity e \<le> 2147483647"
    "wf_event e" "balanced d e"
proof -
  from find_event_Some [OF assms(2)] have e: "e \<in> set (t_events d)" by simp
  with assms(1) show "wf_event e" "balanced d e"
    by (auto simp: core_inv_def wf_core_def ledger_def)
  then show "0 \<le> e_reserved_count e" "0 \<le> e_sold_count e"
    "e_reserved_count e + e_sold_count e \<le> e_capacity e" "e_capacity e \<le> 2147483647"
    by (auto simp: balanced_def counts_valid_def wf_event_def int4_def)
qed

lemma capacity_run:
  assumes "healthy w" "update_event i n calc guard assign (pg_clock w) (db w) = (Inr 1, d)"
  shows "andThen (stmt (update_event i n calc guard assign)) (\<lambda>rows. if rows = 0 then notFoundOr i e0 else ok ()) w
    = (Inr (), w\<lparr>db := d\<rparr>)"
proof -
  have "stmt (update_event i n calc guard assign) w = (Inr 1, w\<lparr>db := d\<rparr>)"
    by (rule stmt_run) (rule assms)+
  then show ?thesis by (simp add: andThen_def)
qed

lemma ReserveCapacity_run:
  assumes w: "healthy w" and inv: "core_inv (db w)"
    and k: "uuid_in i = Some k" "find_event (db w) k = Some e"
    and n: "0 < n" "e_reserved_count e + e_sold_count e + n \<le> e_capacity e"
  shows "ReserveCapacity i n w = (Inr (), w\<lparr>db := write_event
    (e\<lparr>e_reserved_count := e_reserved_count e + n, e_updated_at := timestamptz (pg_clock w)\<rparr>) (db w)\<rparr>)"
proof -
  note b = event_bounds [OF inv k(2)]
  from b n have "int4 n" "int4 (e_reserved_count e + e_sold_count e + n)"
    "int4 (e_reserved_count e + n)" "int4 (e_sold_count e)"
    by (auto simp: int4_def)
  with b n k show ?thesis
    unfolding ReserveCapacity_def
    by (intro capacity_run [OF w]) (auto simp: update_event_def counts_valid_def Let_def)
qed

lemma ReleaseCapacity_run:
  assumes w: "healthy w" and inv: "core_inv (db w)"
    and k: "uuid_in i = Some k" "find_event (db w) k = Some e"
    and n: "0 < n" "n \<le> e_reserved_count e"
  shows "ReleaseCapacity i n w = (Inr (), w\<lparr>db := write_event
    (e\<lparr>e_reserved_count := e_reserved_count e - n, e_updated_at := timestamptz (pg_clock w)\<rparr>) (db w)\<rparr>)"
proof -
  note b = event_bounds [OF inv k(2)]
  from b n have "int4 n" "int4 0" "int4 (e_reserved_count e - n)" "int4 (e_sold_count e)"
    by (auto simp: int4_def)
  with b n k show ?thesis
    unfolding ReleaseCapacity_def
    by (intro capacity_run [OF w]) (auto simp: update_event_def counts_valid_def Let_def)
qed

lemma CommitSold_run:
  assumes w: "healthy w" and inv: "core_inv (db w)"
    and k: "uuid_in i = Some k" "find_event (db w) k = Some e"
    and n: "0 < n" "n \<le> e_reserved_count e"
  shows "CommitSold i n w = (Inr (), w\<lparr>db := write_event
    (e\<lparr>e_reserved_count := e_reserved_count e - n, e_sold_count := e_sold_count e + n,
       e_updated_at := timestamptz (pg_clock w)\<rparr>) (db w)\<rparr>)"
proof -
  note b = event_bounds [OF inv k(2)]
  from b n have "int4 n" "int4 0" "int4 (e_reserved_count e - n)" "int4 (e_sold_count e + n)"
    by (auto simp: int4_def)
  with b n k show ?thesis
    unfolding CommitSold_def
    by (intro capacity_run [OF w]) (auto simp: update_event_def counts_valid_def Let_def)
qed

text \<open>When no row qualifies, the second query tells a missing event from the fallback error.\<close>

lemma capacity_refused:
  assumes w: "healthy w" and k: "uuid_in i = Some k"
    and z: "update_event i n calc guard assign (pg_clock w) (db w) = (Inr 0, db w)"
  shows "andThen (stmt (update_event i n calc guard assign)) (\<lambda>rows. if rows = 0 then notFoundOr i e0 else ok ()) w
    = (Inl (if find_event (db w) k = None then Sentinel ErrNotFound else e0), w)"
proof -
  have "stmt (by_id i (\<lambda>k d. find_event d k \<noteq> None)) w = (Inr (find_event (db w) k \<noteq> None), w)"
    using stmt_run [OF w, of "by_id i (\<lambda>k d. find_event d k \<noteq> None)"] k by (simp add: by_id_def)
  moreover have "stmt (update_event i n calc guard assign) w = (Inr 0, w)"
    using stmt_run [where f = "update_event i n calc guard assign", OF w z] by simp
  ultimately show ?thesis
    by (simp add: notFoundOr_def eventExists_def andThen_def)
qed

lemma Event_run:
  assumes "healthy w" "uuid_in i = Some k" "find_event (db w) k = Some e"
  shows "Inventory_Event i w = (Inr e, w)"
  unfolding Inventory_Event_def
  using stmt_run [OF assms(1), of "by_id i (\<lambda>k d. find_event d k)"] assms(2,3)
  by (simp add: by_id_def andThen_def)

lemma Event_missing:
  assumes "healthy w" "uuid_in i = Some k" "find_event (db w) k = None"
  shows "Inventory_Event i w = (Inl (Sentinel ErrNotFound), w)"
  unfolding Inventory_Event_def
  using stmt_run [OF assms(1), of "by_id i (\<lambda>k d. find_event d k)"] assms(2,3)
  by (simp add: by_id_def andThen_def)

lemma Get_run:
  assumes "healthy w" "uuid_in i = Some k"
  shows "Reservations_Get i w =
    ((case find_reservation (db w) k of None \<Rightarrow> Inl (Sentinel ErrNotFound) | Some r \<Rightarrow> Inr r), w)"
  unfolding Reservations_Get_def
  using stmt_run [OF assms(1), of "by_id i (\<lambda>k d. find_reservation d k)"] assms(2)
  by (simp add: by_id_def andThen_def split: option.splits)

lemma Create_run:
  assumes w: "healthy w"
    and ids: "uuid_in (r_id r) = Some i" "uuid_in (r_event_id r) = Some ev" "char3 (r_currency r) = Some cur"
    and ok: "int4 (r_quantity r)" "int4 (r_version r)" "text_ok (r_user_id r)" "text_ok (r_currency r)"
      "row_valid r" "\<forall>x\<in>set (t_reservations (db w)). \<not> clashes (stored i ev cur r) x"
      "find_event (db w) ev \<noteq> None"
  shows "Reservations_Create r w = (Inr (),
    w\<lparr>db := (db w)\<lparr>t_reservations := t_reservations (db w) @ [stored i ev cur r]\<rparr>\<rparr>)"
proof -
  have "row_valid (stored i ev cur r)" using ok by (simp add: row_valid_def stored_def)
  with ids ok have "insert_reservation r (pg_clock w) (db w)
      = (Inr 1, (db w)\<lparr>t_reservations := t_reservations (db w) @ [stored i ev cur r]\<rparr>)"
    by (simp add: insert_reservation_def Let_def)
  from stmt_run [where f = "insert_reservation r", OF w this] show ?thesis
    by (simp add: Reservations_Create_def andThen_def)
qed

lemma find_version:
  assumes "distinct (map r_id rs)" "x \<in> set rs"
  shows "find (\<lambda>y. r_id y = r_id x \<and> r_version y = r_version x) rs = Some x"
  using assms by (induction rs) auto

lemma Update_run:
  assumes w: "healthy w" and wf: "wf_core (db w)"
    and x: "x \<in> set (t_reservations (db w))" "r_id r = r_id x" "r_version r = r_version x + 1"
      "int4 (r_version r)"
    and st: "active (x\<lparr>r_status := r_status r\<rparr>) \<longrightarrow> active x"
  shows "Reservations_Update r w = (Inr (), w\<lparr>db := write_reservation (x\<lparr>r_status := r_status r,
         r_confirmed_at := map_option timestamptz (r_confirmed_at r),
         r_version := r_version r, r_updated_at := timestamptz (r_updated_at r)\<rparr>) (db w)\<rparr>)"
proof -
  let ?row = "x\<lparr>r_status := r_status r, r_confirmed_at := map_option timestamptz (r_confirmed_at r),
         r_version := r_version r, r_updated_at := timestamptz (r_updated_at r)\<rparr>"
  have wx: "wf_reservation (db w) x" using wf x(1) by (simp add: wf_core_def)
  then have canon: "uuid_in (r_id r) = Some (r_id x)" and "0 < r_version x" "int4 (r_version x)"
    using x(2) by (auto simp: wf_reservation_def row_valid_def)
  have "find (\<lambda>y. r_id y = r_id x \<and> r_version y = r_version r - 1) (t_reservations (db w)) = Some x"
    using find_version [of "t_reservations (db w)" x] wf x by (simp add: wf_core_def)
  moreover have "row_valid ?row" using wx x(3) by (simp add: wf_reservation_def row_valid_def)
  moreover have "\<not> (\<exists>y\<in>set (t_reservations (db w)). r_id y \<noteq> r_id x \<and> clashes ?row y)"
  proof
    assume "\<exists>y\<in>set (t_reservations (db w)). r_id y \<noteq> r_id x \<and> clashes ?row y"
    then obtain y where y: "y \<in> set (t_reservations (db w))" "r_id y \<noteq> r_id x" "clashes ?row y" by blast
    then have "clashes x y" using st by (auto simp: clashes_def active_def)
    with wf x(1) y(1,2) show False unfolding wf_core_def by metis
  qed
  ultimately have "update_reservation r (pg_clock w) (db w) = (Inr 1, write_reservation ?row (db w))"
    using canon x(3,4) \<open>int4 (r_version x)\<close> by (simp add: update_reservation_def Let_def)
  from stmt_run [where f = "update_reservation r", OF w this] show ?thesis
    by (simp add: Reservations_Update_def andThen_def)
qed

section \<open>Announcing\<close>

lemma ticket_types_ok:
  "ty \<in> {TypeTicketReserved, TypeTicketConfirmed, TypeTicketReleased} \<Longrightarrow>
     text_ok ty \<and> text_ok (SubjectFor ty)"
  by (auto simp: text_ok_def type_defs SubjectFor_def subject_defs)

text \<open>The identifier a use case draws for its event is the only one it adds to the outbox.\<close>

definition gains :: "'m core_world \<Rightarrow> core_db \<Rightarrow> bool" where
  "gains w d \<longleftrightarrow> o_id ` set (t_outbox d) = insert (fst (uid_New w)) (o_id ` set (t_outbox (db w)))"

lemma gains_cong [simp]: "gains (w\<lparr>tx := s\<rparr>) d = gains w d"
  by (simp add: gains_def uid_New_def)

lemma announce_run:
  assumes w: "healthy w" and c: "text_ok c"
    and ty: "ty \<in> {TypeTicketReserved, TypeTicketConfirmed, TypeTicketReleased}"
    and new: "fresh_id (db w) w"
  shows "\<exists>d. andThen (record_core (core_service ttl h v) ty c '''' (Inr p))
      (\<lambda>rec. andThen (Core_Enqueue [rec]) (\<lambda>_. ok res)) w
    = (Inr res, w\<lparr>rng_pos := rng_pos w + 16, db := d\<rparr>) \<and> gains w d"
proof -
  obtain u w1 where u: "uid_New w = (u, w1)" by fastforce
  from uid_New_canonical [OF u] have i: "uuid_in (fst (uid_New w)) = Some (fst (uid_New w))"
    by (simp add: u uuid_in_v4)
  let ?rec = "\<lparr>ob_id = fst (uid_New w), ob_subject = SubjectFor ty, ob_event_type = ty,
     ob_event_version = CurrentVersion, ob_source = ''pulsar-core'', ob_correlation_id = c,
     ob_causation_id = '''', ob_payload = Some p, ob_occurred_at = wall w\<rparr>"
  let ?w' = "w\<lparr>rng_pos := rng_pos w + 16\<rparr>"
  have "\<exists>b. o_id b = fst (uid_New w)
      \<and> Enqueue [?rec] ?w' = (Inr (), ?w'\<lparr>db := (db ?w')\<lparr>t_outbox := t_outbox (db ?w') @ [b]\<rparr>\<rparr>)"
    using w c ticket_types_ok [OF ty] new i
    by (intro Enqueue_row_run) (auto simp: fresh_id_def text_ok_def CurrentVersion_def int4_def)
  then obtain b where b: "o_id b = fst (uid_New w)"
    "Enqueue [?rec] ?w' = (Inr (), ?w'\<lparr>db := (db ?w')\<lparr>t_outbox := t_outbox (db ?w') @ [b]\<rparr>\<rparr>)" by blast
  then show ?thesis
    by (intro exI [of _ "(db w)\<lparr>t_outbox := t_outbox (db w) @ [b]\<rparr>"])
      (simp add: record_core_def record_run andThen_def Core_Enqueue_def gains_def)
qed

section \<open>The use cases succeed\<close>

lemma quantity_held:
  assumes inv: "core_inv d" and r: "r \<in> set (t_reservations d)" "r_status r = PENDING"
  obtains e where "find_event d (r_event_id r) = Some e" "uuid_in (r_event_id r) = Some (r_event_id r)"
    "0 < r_quantity r" "r_quantity r \<le> e_reserved_count e"
proof -
  from inv r(1) have wr: "wf_reservation d r" by (simp add: core_inv_def wf_core_def)
  then obtain e where e: "find_event d (r_event_id r) = Some e" and q: "0 < r_quantity r"
    by (auto simp: wf_reservation_def row_valid_def)
  let ?f = "\<lambda>x. if r_event_id x = e_id e \<and> r_status x = PENDING then r_quantity x else 0"
  have nonneg: "\<forall>x\<in>set (t_reservations d). 0 \<le> ?f x"
    using inv by (auto simp: core_inv_def wf_core_def wf_reservation_def row_valid_def intro: less_imp_le)
  have "units d PENDING (e_id e) = e_reserved_count e"
    using event_bounds(6) [OF inv e] by (simp add: balanced_def)
  with term_le_sum [OF nonneg r(1)] r find_event_Some [OF e] have "r_quantity r \<le> e_reserved_count e"
    by (simp add: units_def)
  with e q wr that show ?thesis by (auto simp: wf_reservation_def)
qed

text \<open>The tail that \<open>confirm\<close> and \<open>release\<close> share, on a healthy connection.\<close>

lemma settle_run:
  assumes w: "healthy w" and inv: "core_inv (db w)"
    and r: "r \<in> set (t_reservations (db w))" "moved now s r res" "s \<noteq> PENDING" "r_version r < 2147483647"
    and v1: "db w1 = write_event (e\<lparr>e_reserved_count := x, e_sold_count := y, e_updated_at := t\<rparr>) (db w)"
    and w1: "w1 = w\<lparr>db := db w1\<rparr>" and e: "find_event (db w) (r_event_id r) = Some e"
    and new: "fresh_id (db w) w"
    and ty: "ty \<in> {TypeTicketReserved, TypeTicketConfirmed, TypeTicketReleased}"
  shows "\<exists>d. andThen (Reservations_Update res) (\<lambda>_.
      andThen (record_core (core_service ttl h v) ty (r_id res) '''' (Inr p))
        (\<lambda>rec. andThen (Core_Enqueue [rec]) (\<lambda>_. ok res))) w1
    = (Inr res, w\<lparr>rng_pos := rng_pos w + 16, db := d\<rparr>) \<and> gains w d"
proof -
  have wf: "wf_core (db w)" using inv by (simp add: core_inv_def)
  have wr: "wf_reservation (db w) r" using wf r(1) by (simp add: wf_core_def)
  from r(2) have res: "r_id res = r_id r" "r_status res = s" "r_version res = wrap64 (r_version r + 1)"
    "r_status r = PENDING" by (auto simp: moved_def)
  have ver: "r_version res = r_version r + 1" "int4 (r_version res)"
    using wr r(4) res(3) by (auto simp: wf_reservation_def row_valid_def int4_def int64_def)
  have ids: "map e_id (t_events (db w1)) = map e_id (t_events (db w))" by (simp add: v1)
  have "\<forall>x\<in>set (t_events (db w1)). wf_event x"
    using wf find_event_Some [OF e] by (auto simp: v1 wf_core_def wf_event_def set_write_event [of e])
  then have wf1: "wf_core (db w1)"
    using wf unfolding wf_core_def ids wf_reservation_cong [OF ids] by (simp add: v1)
  have w1h: "healthy w1" using w w1 by (metis healthy_simps(1))
  have r1: "r \<in> set (t_reservations (db w1))" using r(1) by (simp add: v1)
  from Update_run [OF w1h wf1 r1 res(1) ver] res obtain d2 where
    up: "Reservations_Update res w1 = (Inr (), w1\<lparr>db := d2\<rparr>)" and out: "t_outbox d2 = t_outbox (db w1)"
    by (auto simp: active_def)
  have "text_ok (r_id res)" using wr res(1) uuid_text_ok by (auto simp: wf_reservation_def)
  moreover have "fresh_id d2 (w1\<lparr>db := d2\<rparr>)"
    using new out v1 w1 by (simp add: fresh_id_def uid_New_def)
  ultimately obtain d3 where "andThen (record_core (core_service ttl h v) ty (r_id res) '''' (Inr p))
      (\<lambda>rec. andThen (Core_Enqueue [rec]) (\<lambda>_. ok res)) (w1\<lparr>db := d2\<rparr>)
    = (Inr res, (w1\<lparr>db := d2\<rparr>)\<lparr>rng_pos := rng_pos w1 + 16, db := d3\<rparr>)" and g: "gains (w1\<lparr>db := d2\<rparr>) d3"
    using announce_run [of "w1\<lparr>db := d2\<rparr>" "r_id res" ty ttl h v p res] w1h ty by auto
  moreover have "gains w d3" using g out v1 w1 by (simp add: gains_def uid_New_def)
  moreover obtain d1 where "w1 = w\<lparr>db := d1\<rparr>" using w1 by blast
  ultimately show ?thesis
    unfolding andThen_step [where m = "Reservations_Update res", OF up] by auto
qed

lemma load_run:
  assumes w: "healthy w" and inv: "core_inv (db w)" and r: "r \<in> set (t_reservations (db w))"
  shows "load (core_service ttl h v) (r_id r) w = (Inr r, w)"
proof -
  from inv r have wf: "wf_core (db w)" "uuid_in (r_id r) = Some (r_id r)"
    by (auto simp: core_inv_def wf_core_def wf_reservation_def)
  then show ?thesis
    using Get_run [OF w wf(2)] find_reservation_key [OF wf(1) r] canonical_nonempty
    by (auto simp: load_def)
qed

text \<open>A pending reservation can always be confirmed: the seats it needs are still reserved.\<close>

lemma confirm_run:
  assumes w: "healthy w" and inv: "core_inv (db w)" and new: "fresh_id (db w) w"
    and r: "r \<in> set (t_reservations (db w))" "r_status r = PENDING" "r_version r < 2147483647"
  shows "\<exists>res d. confirm (core_service ttl h v) (r_id r) w
      = (Inr res, w\<lparr>rng_pos := rng_pos w + 16, db := d\<rparr>) \<and> gains w d"
proof -
  from quantity_held [OF inv r(1,2)] obtain e where
    e: "find_event (db w) (r_event_id r) = Some e" "uuid_in (r_event_id r) = Some (r_event_id r)"
      "0 < r_quantity r" "r_quantity r \<le> e_reserved_count e" .
  from r(2) obtain res where c: "Confirm (wall w) r = Inr res" by (auto simp: Confirm_def)
  then have mv: "moved (wall w) CONFIRMED r res" by (simp add: Confirm_Inr)
  then have same: "r_event_id res = r_event_id r" "r_quantity res = r_quantity r" by (auto simp: moved_def)
  from CommitSold_run [OF w inv e(2,1,3,4)] obtain w1 x y t where
    cs: "CommitSold (r_event_id res) (r_quantity res) w = (Inr (), w1)" and w1: "w1 = w\<lparr>db := db w1\<rparr>"
    and v1: "db w1 = write_event (e\<lparr>e_reserved_count := x, e_sold_count := y, e_updated_at := t\<rparr>) (db w)"
    by (simp add: same)
  obtain p where p: "TicketConfirmedPayload res = Inr p" by (simp add: TicketConfirmedPayload_def)
  from settle_run [OF w inv r(1) mv _ r(3) v1 w1 e(1) new, of TypeTicketConfirmed ttl h v p]
  obtain d where "andThen (Reservations_Update res) (\<lambda>_.
      andThen (record_core (core_service ttl h v) TypeTicketConfirmed (r_id res) '''' (Inr p))
        (\<lambda>rec. andThen (Core_Enqueue [rec]) (\<lambda>_. ok res))) w1
    = (Inr res, w\<lparr>rng_pos := rng_pos w + 16, db := d\<rparr>)" and g: "gains w d"
    by auto
  then have "confirm_loaded (core_service ttl h v) r w = (Inr res, w\<lparr>rng_pos := rng_pos w + 16, db := d\<rparr>)"
    using r(2) c cs p by (simp add: confirm_loaded_def reading_def SystemClock_Now_def
        andThen_step [where m = "CommitSold (r_event_id res) (r_quantity res)", OF cs])
  then show ?thesis
    using load_run [OF w inv r(1)] g by (auto simp: confirm_def andThen_def)
qed

lemma release_succeeds_run:
  assumes w: "healthy w" and inv: "core_inv (db w)" and new: "fresh_id (db w) w"
    and r: "r \<in> set (t_reservations (db w))" "r_status r = PENDING" "r_version r < 2147483647"
    and due: "reason = reasonExpired \<longrightarrow> r_expires_at r < wall w"
  shows "\<exists>res d. releaseInTx (core_service ttl h v) (r_id r) reason w
      = (Inr res, w\<lparr>rng_pos := rng_pos w + 16, db := d\<rparr>) \<and> gains w d"
proof -
  from quantity_held [OF inv r(1,2)] obtain e where
    e: "find_event (db w) (r_event_id r) = Some e" "uuid_in (r_event_id r) = Some (r_event_id r)"
      "0 < r_quantity r" "r_quantity r \<le> e_reserved_count e" .
  from r(2) due obtain res where c: "leave reason (wall w) r = Inr res"
    by (cases reason) (auto simp: transition_defs time_defs)
  then obtain s where mv: "moved (wall w) s r res" "s \<noteq> PENDING"
    by (cases reason) (auto simp: transition_Inr)
  then have same: "r_event_id res = r_event_id r" "r_quantity res = r_quantity r" by (auto simp: moved_def)
  define w1 where "w1 = w\<lparr>db := write_event (e\<lparr>e_reserved_count := e_reserved_count e - r_quantity r,
    e_updated_at := timestamptz (pg_clock w)\<rparr>) (db w)\<rparr>"
  have cs: "ReleaseCapacity (r_event_id res) (r_quantity res) w = (Inr (), w1)"
    using ReleaseCapacity_run [OF w inv e(2,1,3,4)] by (simp add: same w1_def)
  have w1: "w1 = w\<lparr>db := db w1\<rparr>" by (simp add: w1_def)
  have v1: "db w1 = write_event (e\<lparr>e_reserved_count := e_reserved_count e - r_quantity r,
    e_sold_count := e_sold_count e, e_updated_at := timestamptz (pg_clock w)\<rparr>) (db w)"
    by (cases e) (simp add: w1_def)
  obtain p where p: "TicketReleasedPayload reason res = Inr p" by (simp add: TicketReleasedPayload_def)
  from settle_run [OF w inv r(1) mv r(3) v1 w1 e(1) new, of TypeTicketReleased ttl h v p]
  obtain d where "andThen (Reservations_Update res) (\<lambda>_.
      andThen (record_core (core_service ttl h v) TypeTicketReleased (r_id res) '''' (Inr p))
        (\<lambda>rec. andThen (Core_Enqueue [rec]) (\<lambda>_. ok res))) w1
    = (Inr res, w\<lparr>rng_pos := rng_pos w + 16, db := d\<rparr>)" and g: "gains w d"
    by auto
  then have "release_loaded (core_service ttl h v) reason r w = (Inr res, w\<lparr>rng_pos := rng_pos w + 16, db := d\<rparr>)"
    using r(2) c cs p by (simp add: release_loaded_def reading_def SystemClock_Now_def
        andThen_step [where m = "ReleaseCapacity (r_event_id res) (r_quantity res)", OF cs])
  then show ?thesis
    using load_run [OF w inv r(1)] g by (auto simp: releaseInTx_def andThen_def)
qed

lemma in_tx_run:
  assumes "faults w = []" "tx w = NoTx"
    and "\<And>s. \<exists>a d. fn (w\<lparr>tx := InTx s\<rparr>) = (Inr a, (w\<lparr>tx := InTx s\<rparr>)\<lparr>rng_pos := rng_pos w + n, db := d\<rparr>) \<and> P d"
  shows "\<exists>a d. WithinTx fn w = (Inr a, w\<lparr>rng_pos := rng_pos w + n, db := d\<rparr>) \<and> P d"
proof -
  from assms(3) [of "db w"] obtain a d where
    "fn (w\<lparr>tx := InTx (db w)\<rparr>) = (Inr a, (w\<lparr>tx := InTx (db w)\<rparr>)\<lparr>rng_pos := rng_pos w + n, db := d\<rparr>)" "P d" by blast
  from WithinTx_ok [where fn = fn, OF assms(1,2) this(1)] this(2) assms(1,2) show ?thesis
    by (simp add: NoTx_update) blast
qed

lemmas in_tx_succeeds = in_tx_run [where P = "\<lambda>_. True", simplified]

lemma Confirm_progress:
  assumes w: "faults w = []" "tx w = NoTx" and inv: "core_inv (db w)" and new: "fresh_id (db w) w"
    and r: "r \<in> set (t_reservations (db w))" "r_status r = PENDING" "r_version r < 2147483647"
  shows "\<exists>res d. Service_Confirm (core_service ttl None v) (r_id r) w
      = (Inr res, w\<lparr>rng_pos := rng_pos w + 16, db := d\<rparr>) \<and> gains w d"
proof -
  have "\<exists>res d. confirm (core_service ttl None v) (r_id r) (w\<lparr>tx := InTx s\<rparr>)
      = (Inr res, (w\<lparr>tx := InTx s\<rparr>)\<lparr>rng_pos := rng_pos w + 16, db := d\<rparr>) \<and> gains w d" for s
    using confirm_run [of "w\<lparr>tx := InTx s\<rparr>" r ttl None v] assms by simp
  from in_tx_run [OF w this] show ?thesis
    by (auto simp: Service_Confirm_def inTx_def releaseHold_def andThen_def)
qed

lemma release_progress:
  assumes w: "faults w = []" "tx w = NoTx" and inv: "core_inv (db w)" and new: "fresh_id (db w) w"
    and r: "r \<in> set (t_reservations (db w))" "r_status r = PENDING" "r_version r < 2147483647"
    and due: "reason = reasonExpired \<longrightarrow> r_expires_at r < wall w"
  shows "\<exists>res d. release (core_service ttl None v) (r_id r) reason w
      = (Inr res, w\<lparr>rng_pos := rng_pos w + 16, db := d\<rparr>) \<and> gains w d"
proof -
  have "\<exists>res d. releaseInTx (core_service ttl None v) (r_id r) reason (w\<lparr>tx := InTx s\<rparr>)
      = (Inr res, (w\<lparr>tx := InTx s\<rparr>)\<lparr>rng_pos := rng_pos w + 16, db := d\<rparr>) \<and> gains w d" for s
    using release_succeeds_run [of "w\<lparr>tx := InTx s\<rparr>" r reason ttl None v] assms by simp
  from in_tx_run [OF w this] show ?thesis
    by (auto simp: release_def inTx_def releaseHold_def andThen_def)
qed

section \<open>Reserve\<close>

text \<open>A command the service can accept, on these tables and at this time.\<close>

definition acceptable :: "core_db \<Rightarrow> instant \<Rightarrow> duration \<Rightarrow> (string \<Rightarrow> bool) \<Rightarrow> reserve_command \<Rightarrow> bool" where
  "acceptable d now ttl valid cmd \<longleftrightarrow> 0 < rc_quantity cmd \<and> rc_user_id cmd \<noteq> '''' \<and> text_ok (rc_user_id cmd)
     \<and> valid (rc_reservation_id cmd)
     \<and> (case (uuid_in (rc_reservation_id cmd), uuid_in (rc_event_id cmd)) of
          (Some i, Some k) \<Rightarrow>
            find_reservation d i = None
          \<and> \<not> (\<exists>x\<in>set (t_reservations d). active x \<and> r_user_id x = rc_user_id cmd \<and> r_event_id x = k)
          \<and> (case find_event d k of
               None \<Rightarrow> False
             | Some e \<Rightarrow> SaleIsOpen now e
                 \<and> e_reserved_count e + e_sold_count e + rc_quantity cmd \<le> e_capacity e
                 \<and> e_price_cents e * rc_quantity cmd \<le> 9223372036854775807
                 \<and> (\<exists>t. enc_time (time_add now ttl) = Inr t) \<and> text_ok (rc_reservation_id cmd))
        | _ \<Rightarrow> False)"

lemma reserve_write_gains:
  assumes w: "healthy w" and inv: "core_inv (db w)" and new: "fresh_id (db w) w"
    and acc: "acceptable (db w) now ttl v cmd" and ev: "uuid_in (rc_event_id cmd) = Some k" "find_event (db w) k = Some e"
  shows "\<exists>res d. reserve_write (core_service ttl h v) cmd now e w
      = (Inr res, w\<lparr>rng_pos := rng_pos w + 16, db := d\<rparr>) \<and> gains w d"
proof -
  let ?q = "rc_quantity cmd"
  from acc ev obtain i t where q: "0 < ?q" and u: "text_ok (rc_user_id cmd)" "text_ok (rc_reservation_id cmd)"
    and i: "uuid_in (rc_reservation_id cmd) = Some i" "find_reservation (db w) i = None"
    and one: "\<not> (\<exists>x\<in>set (t_reservations (db w)). active x \<and> r_user_id x = rc_user_id cmd \<and> r_event_id x = k)"
    and room: "e_reserved_count e + e_sold_count e + ?q \<le> e_capacity e"
    and amount: "e_price_cents e * ?q \<le> 9223372036854775807"
    and t: "enc_time (time_add now ttl) = Inr t"
    by (auto simp: acceptable_def split: option.splits)
  note b = event_bounds [OF inv ev(2)]
  have id: "rc_reservation_id cmd \<noteq> ''''" using i(1) by auto
  define w1 where "w1 = w\<lparr>db := write_event (e\<lparr>e_reserved_count := e_reserved_count e + ?q,
    e_updated_at := timestamptz (pg_clock w)\<rparr>) (db w)\<rparr>"
  have cap: "ReserveCapacity (rc_event_id cmd) ?q w = (Inr (), w1)"
    using ReserveCapacity_run [OF w inv ev q room] by (simp add: w1_def)
  define res where "res = fst (NewReservation (new_input (core_service ttl h v) cmd now e) w1)"
  have nr: "NewReservation (new_input (core_service ttl h v) cmd now e) w1 = (res, w1)"
    using id by (simp add: res_def NewReservation_def new_input_def)
  have amt: "int64 (e_price_cents e * ?q)" "0 \<le> e_price_cents e * ?q"
    using amount b(5) q by (auto simp: int64_def wf_event_def intro: order_trans [of _ 0])
  have res: "r_id res = rc_reservation_id cmd" "r_event_id res = rc_event_id cmd" "r_user_id res = rc_user_id cmd"
    "r_status res = PENDING" "r_quantity res = ?q" "r_amount_cents res = e_price_cents e * ?q"
    "r_currency res = ''BRL''" "r_expires_at res = time_add now ttl" "r_version res = 1"
    using id amt by (simp_all add: res_def NewReservation_def new_input_def)
  have known: "find_event (db w1) k \<noteq> None"
    using ev(2) events_known_cong [of "db w1" "db w" k] by (simp add: w1_def)
  have "r_id x \<noteq> i" if "x \<in> set (t_reservations (db w))" for x
    using i(2) that by (auto simp: find_reservation_None)
  then have "\<forall>x\<in>set (t_reservations (db w1)). \<not> clashes (stored i k ''BRL'' res) x"
    using one by (auto simp: clashes_def stored_def w1_def res)
  moreover have "char3 ''BRL'' = Some ''BRL''" "text_ok ''BRL''" by (simp_all add: char3_def text_ok_def)
  moreover have "int4 ?q" "int4 1" using b q room by (auto simp: int4_def)
  ultimately obtain d2 where cr: "Reservations_Create res w1 = (Inr (), w1\<lparr>db := d2\<rparr>)"
    and out: "t_outbox d2 = t_outbox (db w1)"
    using Create_run [of w1 res i k "''BRL''"] w i(1) ev(1) u known amt q
    by (auto simp: res w1_def row_valid_def)
  obtain p where p: "TicketReservedPayload res = Inr p" by (simp add: TicketReservedPayload_def res t)
  have "fresh_id d2 (w1\<lparr>db := d2\<rparr>)" using new out by (simp add: fresh_id_def uid_New_def w1_def)
  then obtain d3 where "andThen (record_core (core_service ttl h v) TypeTicketReserved (r_id res) '''' (Inr p))
      (\<lambda>rec. andThen (Core_Enqueue [rec]) (\<lambda>_. ok res)) (w1\<lparr>db := d2\<rparr>)
    = (Inr res, (w1\<lparr>db := d2\<rparr>)\<lparr>rng_pos := rng_pos w1 + 16, db := d3\<rparr>)" "gains (w1\<lparr>db := d2\<rparr>) d3"
    using announce_run [of "w1\<lparr>db := d2\<rparr>" "r_id res" TypeTicketReserved ttl h v p res] w u
    by (auto simp: res w1_def)
  moreover have "reserve_write (core_service ttl h v) cmd now e w =
      andThen (record_core (core_service ttl h v) TypeTicketReserved (r_id res) '''' (Inr p))
      (\<lambda>rec. andThen (Core_Enqueue [rec]) (\<lambda>_. ok res)) (w1\<lparr>db := d2\<rparr>)"
    unfolding reserve_write_def core_service_simps
    by (simp only: andThen_step [where m = "ReserveCapacity (rc_event_id cmd) ?q", OF cap]
        reading_step [where g = "NewReservation (new_input (core_service ttl h v) cmd now e)", OF nr]
        andThen_step [where m = "Reservations_Create res", OF cr] p)
  moreover have "gains w d3" using \<open>gains (w1\<lparr>db := d2\<rparr>) d3\<close> out by (simp add: gains_def uid_New_def w1_def)
  ultimately show ?thesis by (auto simp: w1_def)
qed

lemma reserve_write_run:
  assumes w: "healthy w" and inv: "core_inv (db w)" and new: "fresh_id (db w) w"
    and acc: "acceptable (db w) now ttl v cmd" and ev: "uuid_in (rc_event_id cmd) = Some k" "find_event (db w) k = Some e"
  shows "\<exists>res d. reserve_write (core_service ttl h v) cmd now e w
      = (Inr res, w\<lparr>rng_pos := rng_pos w + 16, db := d\<rparr>)"
  using reserve_write_gains [OF assms] by blast

lemma reserve_run:
  assumes w: "healthy w" and inv: "core_inv (db w)" and new: "fresh_id (db w) w"
    and acc: "acceptable (db w) (wall w) ttl v cmd"
  shows "\<exists>res d. reserve (core_service ttl h v) cmd w = (Inr res, w\<lparr>rng_pos := rng_pos w + 16, db := d\<rparr>)"
proof -
  from acc obtain i k e where i: "uuid_in (rc_reservation_id cmd) = Some i" "find_reservation (db w) i = None"
    and k: "uuid_in (rc_event_id cmd) = Some k" "find_event (db w) k = Some e" "SaleIsOpen (wall w) e"
    and g: "0 < rc_quantity cmd" "rc_user_id cmd \<noteq> ''''" "v (rc_reservation_id cmd)"
    by (auto simp: acceptable_def split: option.splits)
  from reserve_write_run [OF w inv new acc k(1,2)] obtain res d where
    "reserve_write (core_service ttl h v) cmd (wall w) e w = (Inr res, w\<lparr>rng_pos := rng_pos w + 16, db := d\<rparr>)"
    by blast
  then have "reserve_new (core_service ttl h v) cmd w = (Inr res, w\<lparr>rng_pos := rng_pos w + 16, db := d\<rparr>)"
    using k(3) by (simp add: reserve_new_def reading_def SystemClock_Now_def
        andThen_step [where m = "Inventory_Event (rc_event_id cmd)", OF Event_run [OF w k(1,2)]])
  moreover have "rc_event_id cmd \<noteq> ''''" "rc_reservation_id cmd \<noteq> ''''" using i(1) k(1) by auto
  ultimately show ?thesis
    using Get_run [OF w i(1)] i(2) g
    by (auto simp: reserve_def onResult_def)
qed

lemma Reserve_progress:
  assumes w: "faults w = []" "tx w = NoTx" and inv: "core_inv (db w)" and new: "fresh_id (db w) w"
    and acc: "acceptable (db w) (wall w) ttl v cmd"
  shows "\<exists>res d. Reserve (core_service ttl None v) cmd w = (Inr res, w\<lparr>rng_pos := rng_pos w + 16, db := d\<rparr>)"
proof -
  have "\<exists>res d. reserve (core_service ttl None v) cmd (w\<lparr>tx := InTx s\<rparr>)
      = (Inr res, (w\<lparr>tx := InTx s\<rparr>)\<lparr>rng_pos := rng_pos w + 16, db := d\<rparr>)" for s
    using reserve_run [of "w\<lparr>tx := InTx s\<rparr>" ttl v cmd None] assms by simp
  from in_tx_succeeds [OF w this] show ?thesis
    by (auto simp: Reserve_def inTx_def andThen_def)
qed

lemma Reserve_accepts:
  assumes "faults w = []" "tx w = NoTx" "core_inv (db w)" "fresh_id (db w) w"
    and "acceptable (db w) (wall w) ttl v cmd"
  shows "\<exists>res w'. Reserve (core_service ttl None v) cmd w = (Inr res, w') \<and> r_id res = rc_reservation_id cmd
    \<and> (\<exists>e r b. books (db w) e r b (db w') \<and> uuid_in (r_id res) = Some (r_id r))"
proof -
  let ?sv = "core_service ttl None v"
  from Reserve_progress [OF assms] obtain res w' where run: "Reserve ?sv cmd w = (Inr res, w')" by blast
  from Reserve_run [OF run] obtain w1 where u: "WithinTx (reserve ?sv cmd) w = (Inr res, w1)" and w1: "db w' = db w1"
    by (auto simp: holds_safe_def)
  from assms(5) obtain i where i: "uuid_in (rc_reservation_id cmd) = Some i" "find_reservation (db w) i = None"
    by (auto simp: acceptable_def split: option.splits)
  have eff: "r_id a = rc_reservation_id cmd \<and> (\<exists>e r b. books (db w) e r b (db w2) \<and> uuid_in (r_id a) = Some (r_id r))"
    if r: "reserve ?sv cmd (begun w) = (Inr a, w2)" for a w2
    using pg.reserve_books [OF r] i by (auto simp: requested_def)
  from unit_success [OF u assms(2) service_tx_bodies(2)] obtain w2 where "db w1 = db w2"
    "reserve ?sv cmd (begun w) = (Inr res, w2)" by metis
  with eff run w1 show ?thesis by metis
qed

text \<open>Every guard of \<open>reserve\<close>, with the error the caller sees and the tables untouched.\<close>

lemma in_tx_fail:
  assumes "faults w = []" "tx w = NoTx"
    and "fn (w\<lparr>tx := InTx (db w)\<rparr>) = (Inl e, w\<lparr>tx := InTx (db w)\<rparr>)"
  shows "WithinTx fn w = (Inl e, w)"
  using WithinTx_fail [where fn = fn, OF assms(1,2,3)] assms(2) by (cases w) simp

lemma in_tx_same:
  assumes "faults w = []" "tx w = NoTx"
    and "fn (w\<lparr>tx := InTx (db w)\<rparr>) = (Inr a, w\<lparr>tx := InTx (db w)\<rparr>)"
  shows "WithinTx fn w = (Inr a, w)"
  using WithinTx_ok [where fn = fn, OF assms(1,2,3)] assms(1,2) by (cases w) simp

definition rejection :: "core_db \<Rightarrow> instant \<Rightarrow> (string \<Rightarrow> bool) \<Rightarrow> reserve_command \<Rightarrow> sentinel option" where
  "rejection d now valid cmd =
     (if rc_event_id cmd = '''' \<or> rc_user_id cmd = '''' \<or> rc_quantity cmd \<le> 0 then Some ErrInvalidQuantity
      else if rc_reservation_id cmd \<noteq> '''' \<and> \<not> valid (rc_reservation_id cmd) then Some ErrInvalidID
      else case (uuid_in (rc_reservation_id cmd), uuid_in (rc_event_id cmd)) of
             (Some i, Some k) \<Rightarrow>
               if find_reservation d i \<noteq> None then None
               else (case find_event d k of
                       None \<Rightarrow> Some ErrNotFound
                     | Some e \<Rightarrow>
                         if \<not> SaleIsOpen now e then Some ErrSaleNotOpen
                         else if int4 (rc_quantity cmd) \<and> int4 (e_reserved_count e + e_sold_count e + rc_quantity cmd)
                           \<and> e_capacity e < e_reserved_count e + e_sold_count e + rc_quantity cmd
                         then Some ErrSoldOut else None)
           | _ \<Rightarrow> None)"

lemma reserve_rejects:
  assumes w: "healthy w" and rej: "rejection (db w) (wall w) v cmd = Some s"
  shows "reserve (core_service ttl h v) cmd w = (Inl (Sentinel s), w)"
proof (cases "rc_event_id cmd = '''' \<or> rc_user_id cmd = '''' \<or> rc_quantity cmd \<le> 0 \<or>
    (rc_reservation_id cmd \<noteq> '''' \<and> \<not> v (rc_reservation_id cmd))")
  case True
  with rej show ?thesis by (auto simp: rejection_def reserve_def split: if_splits)
next
  case False
  with rej obtain i k where i: "uuid_in (rc_reservation_id cmd) = Some i" "find_reservation (db w) i = None"
    and k: "uuid_in (rc_event_id cmd) = Some k"
    and rest: "(case find_event (db w) k of None \<Rightarrow> Some ErrNotFound
       | Some e \<Rightarrow> if \<not> SaleIsOpen (wall w) e then Some ErrSaleNotOpen
           else if int4 (rc_quantity cmd) \<and> int4 (e_reserved_count e + e_sold_count e + rc_quantity cmd)
             \<and> e_capacity e < e_reserved_count e + e_sold_count e + rc_quantity cmd
           then Some ErrSoldOut else None) = Some s"
    by (auto simp: rejection_def split: option.splits if_splits)
  have "reserve_new (core_service ttl h v) cmd w = (Inl (Sentinel s), w)"
  proof (cases "find_event (db w) k")
    case None
    with rest Event_missing [OF w k None] show ?thesis
      by (simp add: reserve_new_def reading_def andThen_def)
  next
    case (Some e)
    note ev = andThen_step [where m = "Inventory_Event (rc_event_id cmd)", OF Event_run [OF w k Some]]
    show ?thesis
    proof (cases "SaleIsOpen (wall w) e")
      case False
      with rest Some show ?thesis by (simp add: reserve_new_def reading_def SystemClock_Now_def ev)
    next
      case True
      with rest Some have full: "int4 (rc_quantity cmd)"
        "int4 (e_reserved_count e + e_sold_count e + rc_quantity cmd)"
        "e_capacity e < e_reserved_count e + e_sold_count e + rc_quantity cmd" and s: "s = ErrSoldOut"
        by (auto split: if_splits)
      then have "ReserveCapacity (rc_event_id cmd) (rc_quantity cmd) w = (Inl (Sentinel ErrSoldOut), w)"
        unfolding ReserveCapacity_def using k Some
        by (subst capacity_refused [OF w k]) (auto simp: update_event_def)
      with True s show ?thesis
        by (simp add: reserve_new_def reading_def SystemClock_Now_def ev reserve_write_def andThen_stop)
    qed
  qed
  moreover have "rc_reservation_id cmd \<noteq> ''''" using i(1) by auto
  ultimately show ?thesis
    using Get_run [OF w i(1)] i(2) False by (simp add: reserve_def onResult_def)
qed

lemma Reserve_rejects:
  assumes w: "faults w = []" "tx w = NoTx" and rej: "rejection (db w) (wall w) v cmd = Some s"
  shows "Reserve (core_service ttl h v) cmd w = (Inl (Sentinel s), w)"
proof -
  have "reserve (core_service ttl h v) cmd (w\<lparr>tx := InTx (db w)\<rparr>) = (Inl (Sentinel s), w\<lparr>tx := InTx (db w)\<rparr>)"
    using reserve_rejects [of "w\<lparr>tx := InTx (db w)\<rparr>" v cmd s ttl h] assms by simp
  from in_tx_fail [where fn = "reserve (core_service ttl h v) cmd", OF w this] show ?thesis
    by (simp add: Reserve_def inTx_def andThen_def)
qed

end
