(* ===== verification/Core_Example.thy ===== *)
theory Core_Example
  imports Core_Progress
begin

text \<open>
  A small database on which the properties of the core are applied: one event of ten seats on sale,
  without reservations (\<open>ex_open\<close>) and with one pending reservation of two seats (\<open>ex_held\<close>).
\<close>

definition ex_event_id :: string where "ex_event_id = ''11111111-2222-4333-8444-555555555555''"
definition ex_res_id :: string where "ex_res_id = ''aaaaaaaa-2222-4333-8444-555555555555''"
definition ex_row_id :: string where "ex_row_id = ''bbbbbbbb-2222-4333-8444-555555555555''"

definition ex_now :: instant where "ex_now = 1750000000000000000"

definition ex_event :: "int \<Rightarrow> event" where
  "ex_event n = \<lparr>e_id = ex_event_id, e_name = ''Show'', e_venue = ''Arena'', e_starts_at = 0,
     e_sale_opens_at = 0, e_price_cents = 5000, e_capacity = 10, e_reserved_count = n,
     e_sold_count = 0, e_created_at = 0, e_updated_at = 0\<rparr>"

definition ex_reservation :: reservation where
  "ex_reservation = \<lparr>r_id = ex_res_id, r_event_id = ex_event_id, r_user_id = ''user-1'', r_status = PENDING,
     r_quantity = 2, r_amount_cents = 10000, r_currency = ''BRL'',
     r_expires_at = ex_now + 900000000000, r_confirmed_at = None, r_version = 1,
     r_created_at = ex_now, r_updated_at = ex_now\<rparr>"

definition ex_row :: outbox_row where
  "ex_row = \<lparr>o_id = ex_row_id, o_subject = SubjectTicketReserved, o_event_type = TypeTicketReserved,
     o_event_version = 1, o_source = ''pulsar-core'', o_correlation_id = ex_res_id,
     o_causation_id = '''', o_payload = JNull, o_created_at = ex_now, o_processed_at = None\<rparr>"

definition ex_open :: core_db where
  "ex_open = \<lparr>t_outbox = [], t_events = [ex_event 0], t_reservations = []\<rparr>"

definition ex_held :: core_db where
  "ex_held = \<lparr>t_outbox = [ex_row], t_events = [ex_event 2], t_reservations = [ex_reservation]\<rparr>"

definition ex_world :: "core_db \<Rightarrow> instant \<Rightarrow> unit core_world" where
  "ex_world d now = \<lparr>wall = now, rng = (\<lambda>_. 0), rng_pos = 0, meter = [], db = d, pg_clock = now,
     tx = NoTx, faults = []\<rparr>"

definition ex_valid :: "string \<Rightarrow> bool" where
  "ex_valid s \<longleftrightarrow> uuid_in s \<noteq> None"

definition ex_command :: reserve_command where
  "ex_command = \<lparr>rc_reservation_id = ex_res_id, rc_event_id = ex_event_id, rc_user_id = ''user-1'',
     rc_quantity = 2\<rparr>"

lemma ex_world_simps [simp]:
  "db (ex_world d now) = d" "tx (ex_world d now) = NoTx" "faults (ex_world d now) = []"
  "wall (ex_world d now) = now" "pg_clock (ex_world d now) = now"
  by (simp_all add: ex_world_def)

lemma ex_ids [simp]:
  "uuid_in ex_event_id = Some ex_event_id" "uuid_in ex_res_id = Some ex_res_id"
  "uuid_in ex_row_id = Some ex_row_id"
  by code_simp+

lemma ex_distinct [simp]: "ex_event_id \<noteq> ex_res_id" "ex_event_id \<noteq> []" "ex_res_id \<noteq> []"
  "ex_row_id \<noteq> ex_event_id"
  by (simp_all add: ex_event_id_def ex_res_id_def ex_row_id_def)

lemma ex_event_wf [simp]: "wf_event (ex_event n)"
  by (simp add: wf_event_def ex_event_def int4_def int64_def)

lemma ex_open_inv: "core_inv ex_open"
  by (simp add: core_inv_def ex_open_def wf_core_def ledger_def balanced_def counts_valid_def units_def
      outbox_agrees_def trail_def find_reservation_def ex_event_def [of 0] )
    (simp add: ex_event_def [symmetric])

lemma ex_held_inv: "core_inv ex_held"
proof -
  have "wf_core ex_held"
    by (simp add: ex_held_def wf_core_def wf_reservation_def find_event_def row_valid_def int4_def)
      (simp add: ex_reservation_def ex_event_def)
  moreover have "ledger ex_held"
    by (simp add: ex_held_def ledger_def balanced_def counts_valid_def units_def ex_event_def ex_reservation_def)
  moreover have "outbox_agrees ex_held"
    by (auto simp: ex_held_def outbox_agrees_def trail_def find_reservation_def ex_reservation_def ex_row_def)
  ultimately show ?thesis by (simp add: core_inv_def)
qed

lemma ex_fresh: "fresh_id ex_open (ex_world d now)" "fresh_id ex_held (ex_world d now)"
proof -
  have "fst (uid_New (ex_world d now)) = ''00000000-0000-4000-8000-000000000000''"
    by (simp add: uid_New_def ex_world_def del: upt.simps) code_simp
  then show "fresh_id ex_open (ex_world d now)" "fresh_id ex_held (ex_world d now)"
    by (simp_all add: fresh_id_def ex_open_def ex_held_def ex_row_def ex_row_id_def)
qed

lemma ex_pending: "ex_reservation \<in> set (t_reservations ex_held)" "r_status ex_reservation = PENDING"
  "r_version ex_reservation < 2147483647" "r_id ex_reservation = ex_res_id"
  by (simp_all add: ex_held_def ex_reservation_def)

lemma ex_acceptable: "acceptable ex_open ex_now (15 * minute) ex_valid ex_command"
proof -
  have "enc_time (time_add ex_now (15 * minute)) = Inr (JStr ''2025-06-15T15:21:40Z'')"
    by code_simp
  moreover have "text_ok ex_res_id" by (simp add: text_ok_def ex_res_id_def)
  ultimately show ?thesis
    by (simp add: acceptable_def ex_command_def ex_valid_def find_reservation_def find_event_def ex_open_def
        SaleIsOpen_def time_before_def text_ok_def ex_now_def) (simp add: ex_event_def)
qed

text \<open>The same reservation, sold.\<close>

definition ex_sold :: reservation where
  "ex_sold = ex_reservation\<lparr>r_status := CONFIRMED, r_confirmed_at := Some ex_now, r_version := 2\<rparr>"

definition ex_confirmed :: core_db where
  "ex_confirmed = \<lparr>t_outbox = [ex_row, ex_row\<lparr>o_id := ex_event_id, o_event_type := TypeTicketConfirmed\<rparr>],
     t_events = [(ex_event 0)\<lparr>e_sold_count := 2\<rparr>], t_reservations = [ex_sold]\<rparr>"

lemma ex_confirmed_inv: "core_inv ex_confirmed"
proof -
  have "wf_core ex_confirmed"
    by (simp add: ex_confirmed_def wf_core_def wf_reservation_def find_event_def row_valid_def int4_def)
      (simp add: ex_sold_def ex_reservation_def ex_event_def wf_event_def int4_def int64_def ex_row_def)
  moreover have "ledger ex_confirmed"
    by (simp add: ex_confirmed_def ledger_def balanced_def counts_valid_def units_def ex_event_def
        ex_reservation_def ex_sold_def)
  moreover have "outbox_agrees ex_confirmed"
    by (auto simp: ex_confirmed_def outbox_agrees_def trail_def find_reservation_def ex_reservation_def
        ex_row_def ex_sold_def)
  ultimately show ?thesis by (simp add: core_inv_def)
qed

text \<open>The same reservation, expired by the sweeper.\<close>

definition ex_expired :: reservation where
  "ex_expired = ex_reservation\<lparr>r_status := EXPIRED, r_version := 2\<rparr>"

definition ex_released :: core_db where
  "ex_released = \<lparr>t_outbox = [ex_row, ex_row\<lparr>o_id := ex_event_id, o_event_type := TypeTicketReleased\<rparr>],
     t_events = [ex_event 0], t_reservations = [ex_expired]\<rparr>"

lemma ex_released_inv: "core_inv ex_released"
proof -
  have "wf_core ex_released"
    by (simp add: ex_released_def wf_core_def wf_reservation_def find_event_def row_valid_def int4_def)
      (simp add: ex_expired_def ex_reservation_def ex_event_def ex_row_def)
  moreover have "ledger ex_released"
    by (simp add: ex_released_def ledger_def balanced_def counts_valid_def units_def ex_event_def
        ex_reservation_def ex_expired_def)
  moreover have "outbox_agrees ex_released"
    by (auto simp: ex_released_def outbox_agrees_def trail_def find_reservation_def ex_reservation_def
        ex_row_def ex_expired_def)
  ultimately show ?thesis by (simp add: core_inv_def)
qed

end
