(* ===== verification/Core_Properties.thy ===== *)
theory Core_Properties
  imports Core_Example
begin

text \<open>
  The properties of the reservation core: what holds in every reachable state of the concurrent
  system, what a single use case does under any failure, when it succeeds, and the state machines of
  the domain.  Each property is followed by its application to a concrete state.
\<close>

section \<open>Reachable states\<close>

lemma ex_seeded: "core_reachable (core_service ttl None v) (ex_world ex_open now, [])"
proof -
  let ?w = "ex_world empty_core now"
  have "core_reachable (core_service ttl None v) (?w, [])"
    by (rule core_reachable.start) simp_all
  moreover have "core_step (core_service ttl None v) (?w, [])
      (?w\<lparr>db := (db ?w)\<lparr>t_events := t_events (db ?w) @ [ex_event 0]\<rparr>\<rparr>, [])"
    by (rule core_step.seeded) (simp_all add: find_event_def empty_core_def ex_event_def [of 0],
        simp add: ex_event_def [symmetric])
  moreover have "?w\<lparr>db := (db ?w)\<lparr>t_events := t_events (db ?w) @ [ex_event 0]\<rparr>\<rparr> = ex_world ex_open now"
    by (simp add: ex_world_def ex_open_def empty_core_def)
  ultimately show ?thesis by (metis core_reachable.step)
qed

text \<open>A reachable state with a booking: the command is read, then its write phase commits.\<close>

definition ex_booked :: "core_db" where
  "ex_booked = db (snd (WithinTx (write_phase (core_service (15 * minute) None ex_valid)
     (ReserveWrite ex_command ex_now (ex_event 0))) (ex_world ex_open ex_now)))"

lemma ex_booking:
  obtains w :: "unit core_world" and e r where
    "core_reachable (core_service (15 * minute) None ex_valid) (w, [])" "db w = ex_booked"
    "t_events ex_booked = [e]" "e_reserved_count e = 2"
    "t_reservations ex_booked = [r]" "r_status r = PENDING"
proof -
  let ?sv = "core_service (15 * minute) None ex_valid :: (core_db, unit) pg_world_ext service"
  let ?w = "ex_world ex_open ex_now"
  let ?c = "ReserveWrite ex_command ex_now (ex_event 0)"
  have find: "find_event ex_open ex_event_id = Some (ex_event 0)"
    by (simp add: find_event_def ex_open_def) (simp add: ex_event_def)
  have cmd: "rc_event_id ex_command = ex_event_id" "0 < rc_quantity ex_command"
    by (simp_all add: ex_command_def)
  have "core_step ?sv (?w, []) (?w, [?c])"
  proof (rule core_step.read_reserve)
    show "sv_Event ?sv (rc_event_id ex_command) ?w = (Inr (ex_event 0), ?w)"
      using Event_run [of ?w ex_event_id ex_event_id "ex_event 0"] find by (simp add: cmd healthy_def)
  qed (simp_all add: cmd, simp add: SaleIsOpen_def time_before_def ex_event_def ex_now_def)
  with ex_seeded have r1: "core_reachable ?sv (?w, [?c])" by (metis core_reachable.step)
  obtain x w where run: "WithinTx (write_phase ?sv ?c) ?w = (x, w)" by fastforce
  then have "core_step ?sv (?w, [?c]) (w, remove1 ?c [?c])"
    by (intro core_step.write_commit) auto
  with r1 have reach: "core_reachable ?sv (w, [])" by (auto intro: core_reachable.step)
  have "\<exists>a d. reserve_write ?sv ex_command ex_now (ex_event 0) (?w\<lparr>tx := InTx s\<rparr>)
      = (Inr a, (?w\<lparr>tx := InTx s\<rparr>)\<lparr>rng_pos := rng_pos ?w + 16, db := d\<rparr>)" for s
    using reserve_write_run [of "?w\<lparr>tx := InTx s\<rparr>" ex_now "15 * minute" ex_valid ex_command ex_event_id "ex_event 0" None]
      ex_open_inv ex_fresh(1) ex_acceptable find by (simp add: cmd)
  from in_tx_succeeds [of ?w "reserve_write ?sv ex_command ex_now (ex_event 0)", OF _ _ this] run obtain a where
    x: "x = Inr a" by auto
  have "\<exists>e r b. books ex_open e r b (db w) \<and> r_quantity r = 2"
  proof -
    have "\<exists>e r b. books (db ?w) e r b (db w2) \<and> r_quantity r = 2"
      if "write_phase ?sv ?c (begun ?w) = (Inr a, w2)" for a w2
    proof -
      from pg.reserve_write_books [of "15 * minute" None ex_valid ex_command ex_now "ex_event 0" "begun ?w" a w2] that
      obtain e r b cur where b: "books (db ?w) e r b (db w2)" "r = stored (r_id r) (r_event_id r) cur a"
        "requested ?sv ex_command ex_now (ex_event 0) a" by auto
      from b(2) have "r_quantity r = r_quantity a"
        by (rule ssubst) (simp add: stored_def)
      with b show ?thesis by (auto simp: requested_def ex_command_def)
    qed
    with unit_of_work(3) [OF run _ _ _ x, of "\<lambda>_ d d'. \<exists>e r b. books d e r b d' \<and> r_quantity r = 2"]
    show ?thesis by (simp add: tx_keep)
  qed
  then obtain e r where "t_events (db w) = [e]" "e_reserved_count e = 2"
    "t_reservations (db w) = [r]" "r_status r = PENDING"
    by (auto simp: books_def booked_def write_event_def ex_open_def find_event_def ex_event_def split: if_splits)
  moreover have "db w = ex_booked" using run by (simp add: ex_booked_def)
  ultimately show ?thesis using that reach by metis
qed

section \<open>Properties\<close>

text \<open>C1: Zero overbooking.  In every state the concurrent consumers can reach, whatever statements
  fail, whatever transactions interleave and however stale what they read, the counters of every event
  are exactly the units of its PENDING and of its CONFIRMED reservations, and together they never
  exceed its capacity.\<close>

theorem zero_overbooking:
  assumes "core_reachable (core_service ttl h v) s" and "e \<in> set (t_events (db (fst s)))"
  shows "e_reserved_count e = units (db (fst s)) PENDING (e_id e)
    \<and> e_sold_count e = units (db (fst s)) CONFIRMED (e_id e)
    \<and> 0 \<le> e_reserved_count e \<and> 0 \<le> e_sold_count e
    \<and> e_reserved_count e + e_sold_count e \<le> e_capacity e"
  using reachable_inv [OF assms(1)] assms(2)
  by (auto simp: sys_inv_def core_inv_def ledger_def balanced_def counts_valid_def)

theorem zero_overbooking_witness:
  "\<exists>e. t_events ex_booked = [e] \<and> units ex_booked PENDING (e_id e) = 2 \<and> e_reserved_count e \<le> e_capacity e"
proof (rule ex_booking)
  fix w :: "unit core_world" and e r
  assume r: "core_reachable (core_service (15 * minute) None ex_valid) (w, [])" and d: "db w = ex_booked"
    and e: "t_events ex_booked = [e]" "e_reserved_count e = 2"
  from zero_overbooking [OF r, of e] d e show ?thesis by simp
qed

text \<open>C4: The core refines the seat book.  Every reachable database is the image of a run of the
  abstract seat book, which has no counters, no transactions and no versions, and in which the seats
  taken by active bookings never exceed the capacity.\<close>

theorem refines_seat_book:
  assumes "core_reachable (core_service ttl h v) s"
  shows "book_step\<^sup>*\<^sup>* empty_book (book_of (db (fst s)))
    \<and> (\<forall>ev c. sb_capacity (book_of (db (fst s))) ev = Some c \<longrightarrow> taken (book_of (db (fst s))) ev \<le> c)"
  using reachable_refines [OF assms] book_reachable_inv [of "book_of (db (fst s))"]
  by (simp add: book_inv_def)

theorem refines_seat_book_witness: "book_step\<^sup>*\<^sup>* empty_book (book_of ex_booked)"
proof (rule ex_booking)
  fix w :: "unit core_world" and e r
  assume "core_reachable (core_service (15 * minute) None ex_valid) (w, [])" "db w = ex_booked"
  from refines_seat_book [OF this(1)] this(2) show ?thesis by simp
qed

text \<open>C5: Exactly-once events.  In every reachable state the outbox holds, for each reservation,
  exactly the events of the transitions it made, once each and in order: ticket.reserved, then at most
  one of ticket.confirmed and ticket.released; and no event for an id without a reservation.\<close>

theorem exactly_once_outbox:
  assumes "core_reachable (core_service ttl h v) s"
  shows "trail (db (fst s)) k = (case find_reservation (db (fst s)) k of
      None \<Rightarrow> [] | Some r \<Rightarrow> expected_trail (r_status r))"
  using reachable_inv [OF assms] by (simp add: sys_inv_def core_inv_def outbox_agrees_def)

theorem exactly_once_outbox_witness:
  "trail ex_booked ex_res_id = (case find_reservation ex_booked ex_res_id of None \<Rightarrow> [] | Some r \<Rightarrow> expected_trail (r_status r))"
proof (rule ex_booking)
  fix w :: "unit core_world" and e r
  assume "core_reachable (core_service (15 * minute) None ex_valid) (w, [])" "db w = ex_booked"
  from exactly_once_outbox [OF this(1)] this(2) show ?thesis by simp
qed

text \<open>C6: Terminal states are final.  A reservation that has left PENDING is never touched again: no
  step of any consumer, in any interleaving, changes its row.\<close>

theorem settled_is_final:
  assumes "sys_inv s" and "core_step (core_service ttl h v) s s'"
    and "r \<in> set (t_reservations (db (fst s)))" and "r_status r \<noteq> PENDING"
  shows "find_reservation (db (fst s')) (r_id r) = Some r"
proof -
  have "sys_inv s'" by (rule sys_inv_step [OF assms(2,1)])
  moreover have "r \<in> set (t_reservations (db (fst s')))"
    by (rule step_keeps_settled [OF assms(2,1,3,4)])
  ultimately show ?thesis by (simp add: sys_inv_def core_inv_def find_reservation_key)
qed

theorem settled_is_final_witness:
  "\<exists>s'. core_step (core_service (15 * minute) None ex_valid) (ex_world ex_confirmed ex_now, [ConfirmWrite ex_reservation]) s'
    \<and> find_reservation (db (fst s')) ex_res_id = Some ex_sold"
proof -
  obtain x w' where run: "WithinTx (write_phase (core_service (15 * minute) None ex_valid) (ConfirmWrite ex_reservation))
      (ex_world ex_confirmed ex_now) = (x, w')" by fastforce
  then have st: "core_step (core_service (15 * minute) None ex_valid) (ex_world ex_confirmed ex_now, [ConfirmWrite ex_reservation])
      (w', remove1 (ConfirmWrite ex_reservation) [ConfirmWrite ex_reservation])"
    by (intro core_step.write_commit) auto
  have inv: "sys_inv (ex_world ex_confirmed ex_now, [ConfirmWrite ex_reservation])"
    using ex_confirmed_inv by (simp add: sys_inv_def seen_def ex_confirmed_def ex_sold_def ex_reservation_def)
  have "ex_sold \<in> set (t_reservations ex_confirmed)" "r_status ex_sold \<noteq> PENDING" "r_id ex_sold = ex_res_id"
    by (simp_all add: ex_confirmed_def ex_sold_def ex_reservation_def)
  with settled_is_final [OF inv st, of ex_sold] st show ?thesis by auto
qed

text \<open>C7: One active reservation per user and event, in every reachable state.\<close>

theorem one_active_per_user:
  assumes "core_reachable (core_service ttl h v) s"
    and "x \<in> set (t_reservations (db (fst s)))" "y \<in> set (t_reservations (db (fst s)))"
    and "active x" "active y" "r_user_id x = r_user_id y" "r_event_id x = r_event_id y"
  shows "x = y"
proof -
  from reachable_inv [OF assms(1)] have wf: "wf_core (db (fst s))"
    by (simp add: sys_inv_def core_inv_def)
  with assms(2-7) have "r_id x = r_id y" unfolding wf_core_def clashes_def by metis
  with wf assms(2,3) show ?thesis by (auto simp: wf_core_def dest: distinct_key_eq)
qed

theorem one_active_per_user_witness: "\<exists>r. t_reservations ex_booked = [r] \<and> r = r"
proof (rule ex_booking)
  fix w :: "unit core_world" and e r
  assume a: "core_reachable (core_service (15 * minute) None ex_valid) (w, [])" "db w = ex_booked"
    and r: "t_reservations ex_booked = [r]" "r_status r = PENDING"
  from one_active_per_user [OF a(1), of r r] a(2) r show ?thesis by (simp add: active_def)
qed

text \<open>C8: Reserve is atomic.  Whatever round trips fail, also the reply to the commit, the tables
  afterwards are the tables before, or they are those tables with one complete booking: capacity taken,
  reservation inserted, ticket.reserved enqueued, for the user, event and quantity of the command.\<close>

theorem reserve_atomic:
  assumes "Reserve (core_service ttl h v) cmd w = (x, w')" and "tx w = NoTx" and "holds_safe h"
  shows "db w' = db w \<or> (\<exists>e r b. books (db w) e r b (db w') \<and> r_user_id r = rc_user_id cmd
    \<and> r_quantity r = rc_quantity cmd \<and> uuid_in (rc_event_id cmd) = Some (r_event_id r))"
  by (rule Reserve_effect(2) [OF assms])

theorem reserve_atomic_witness:
  "\<exists>x w'. Reserve (core_service (15 * minute) None ex_valid) ex_command
      ((ex_world ex_open ex_now)\<lparr>faults := [None, None, None, None, Some (Refused ''reset'')]\<rparr>) = (x, w')
    \<and> (db w' = ex_open \<or> (\<exists>e r b. books ex_open e r b (db w')))"
proof -
  let ?w = "(ex_world ex_open ex_now)\<lparr>faults := [None, None, None, None, Some (Refused ''reset'')]\<rparr>"
  obtain x w' where r: "Reserve (core_service (15 * minute) None ex_valid) ex_command ?w = (x, w')" by fastforce
  from reserve_atomic [OF r] have "db w' = ex_open \<or> (\<exists>e r b. books ex_open e r b (db w'))"
    by (auto simp: holds_safe_def)
  with r show ?thesis by blast
qed

text \<open>C9: Settlements are atomic.  Whatever fails, Confirm leaves the tables alone or settles exactly the
  reservation it was asked to settle, as CONFIRMED; a release (expiry, payment failure, cancellation)
  leaves them alone or settles exactly its reservation, as EXPIRED, FAILED or CANCELLED by its cause.\<close>

theorem settlements_atomic:
  assumes "tx w = NoTx" "holds_safe h" "core_inv (db w)"
  shows "(Service_Confirm (core_service ttl h v) i w = (x, w') \<longrightarrow> core_inv (db w') \<and> (db w' = db w \<or>
      (\<exists>e r b. settles (db w) CONFIRMED e r b (db w') \<and> uuid_in i = Some (r_id r))))
    \<and> (release (core_service ttl h v) i reason w = (x, w') \<longrightarrow> core_inv (db w') \<and> (db w' = db w \<or>
      (\<exists>e r b. settles (db w) (released_as reason) e r b (db w') \<and> uuid_in i = Some (r_id r))))"
proof (intro conjI impI)
  have wf: "wf_core (db w)" using assms(3) by (simp add: core_inv_def)
  {
    assume run: "Service_Confirm (core_service ttl h v) i w = (x, w')"
    note eff = Confirm_effect(2) [OF run assms(1,2) wf]
    then show "core_inv (db w')" using settlement_inv [OF assms(3)] assms(3) by metis
    from eff show "db w' = db w \<or> (\<exists>e r b. settles (db w) CONFIRMED e r b (db w') \<and> uuid_in i = Some (r_id r))" by metis
  next
    assume run: "release (core_service ttl h v) i reason w = (x, w')"
    note eff = release_effect(2) [OF run assms(1,2) wf]
    then show "core_inv (db w')" using settlement_inv [OF assms(3)] assms(3) by metis
    from eff show "db w' = db w \<or>
        (\<exists>e r b. settles (db w) (released_as reason) e r b (db w') \<and> uuid_in i = Some (r_id r))" by metis
  }
qed

theorem settlements_atomic_witness:
  "(\<exists>x w'. Service_Confirm (core_service (15 * minute) None ex_valid) ex_res_id (ex_world ex_held ex_now) = (x, w')
      \<and> core_inv (db w'))
   \<and> (\<exists>x w'. release (core_service (15 * minute) None ex_valid) ex_res_id reasonFailed (ex_world ex_held ex_now) = (x, w')
      \<and> core_inv (db w'))"
proof -
  let ?sv = "core_service (15 * minute) None ex_valid :: (core_db, unit) pg_world_ext service"
  obtain x w' where c: "Service_Confirm ?sv ex_res_id (ex_world ex_held ex_now) = (x, w')" by fastforce
  obtain y u' where r: "release ?sv ex_res_id reasonFailed (ex_world ex_held ex_now) = (y, u')" by fastforce
  from settlements_atomic [of "ex_world ex_held ex_now" None] ex_held_inv c r show ?thesis
    by (auto simp: holds_safe_def)
qed

lemma pending_can_be_confirmed:
  assumes "faults w = []" "tx w = NoTx" "core_inv (db w)" "fresh_id (db w) w" "holds_safe h"
    and "r \<in> set (t_reservations (db w))" "r_status r = PENDING" "r_version r < 2147483647"
  shows "\<exists>res w'. Service_Confirm (core_service ttl h v) (r_id r) w = (Inr res, w')
    \<and> r_status res = CONFIRMED \<and> (\<exists>e b. settles (db w) CONFIRMED e r b (db w'))"
proof -
  let ?sv = "core_service ttl h v"
  have wf: "wf_core (db w)" using assms(3) by (simp add: core_inv_def)
  from Confirm_progress [OF assms(1-4,6-8), of ttl v] obtain res where
    "fst (Service_Confirm (core_service ttl None v) (r_id r) w) = Inr res" by auto
  with with_holds(1) [OF assms(5)] obtain w' where run: "Service_Confirm ?sv (r_id r) w = (Inr res, w')"
    by (metis prod.collapse)
  from Service_Confirm_run [OF run assms(5)] obtain w1 where
    u: "WithinTx (confirm ?sv (r_id r)) w = (Inr res, w1)" and w1: "db w' = db w1" .
  have eff: "r_status a = CONFIRMED \<and> (\<exists>e b. settles (db w) CONFIRMED e r b (db w2))"
    if c: "confirm ?sv (r_id r) (begun w) = (Inr a, w2)" for a w2
  proof -
    from pg.confirm_settles [OF c] wf same_reservation(2) [OF wf assms(6)] assms(7) obtain x e b where
      st: "settles (db w) CONFIRMED e x b (db w2)" "uuid_in (r_id r) = Some (r_id x)" "r_status a = CONFIRMED"
      by auto
    then have "x = r" using same_reservation(1) [OF wf assms(6)] by (auto simp: settles_def)
    with st show ?thesis by blast
  qed
  from unit_success [OF u assms(2) service_tx_bodies(3)] obtain w2 where "db w1 = db w2"
    "confirm ?sv (r_id r) (begun w) = (Inr res, w2)" by metis
  with eff run w1 show ?thesis by metis
qed

lemma pending_can_be_released:
  assumes "faults w = []" "tx w = NoTx" "core_inv (db w)" "fresh_id (db w) w" "holds_safe h"
    and "r \<in> set (t_reservations (db w))" "r_status r = PENDING" "r_version r < 2147483647"
    and "reason = reasonExpired \<longrightarrow> r_expires_at r < wall w"
  shows "\<exists>res w'. release (core_service ttl h v) (r_id r) reason w = (Inr res, w')
    \<and> r_status res = released_as reason \<and> (\<exists>e b. settles (db w) (released_as reason) e r b (db w'))"
proof -
  let ?sv = "core_service ttl h v"
  have wf: "wf_core (db w)" using assms(3) by (simp add: core_inv_def)
  from release_progress [OF assms(1-4,6-9), of ttl v] obtain res where
    "fst (release (core_service ttl None v) (r_id r) reason w) = Inr res" by auto
  with with_holds(2) [OF assms(5)] obtain w' where run: "release ?sv (r_id r) reason w = (Inr res, w')"
    by (metis prod.collapse)
  from release_run [OF run assms(5)] obtain w1 where
    u: "WithinTx (releaseInTx ?sv (r_id r) reason) w = (Inr res, w1)" and w1: "db w' = db w1" .
  have eff: "r_status a = released_as reason \<and> (\<exists>e b. settles (db w) (released_as reason) e r b (db w2))"
    if c: "releaseInTx ?sv (r_id r) reason (begun w) = (Inr a, w2)" for a w2
  proof -
    from pg.release_settles [OF c] wf same_reservation(2) [OF wf assms(6)] assms(7) obtain x e b where
      st: "settles (db w) (released_as reason) e x b (db w2)" "uuid_in (r_id r) = Some (r_id x)"
        "r_status a = released_as reason"
      by auto
    then have "x = r" using same_reservation(1) [OF wf assms(6)] by (auto simp: settles_def)
    with st show ?thesis by blast
  qed
  from unit_success [OF u assms(2) service_tx_bodies(4)] obtain w2 where "db w1 = db w2"
    "releaseInTx ?sv (r_id r) reason (begun w) = (Inr res, w2)" by metis
  with eff run w1 show ?thesis by metis
qed

text \<open>C10: A pending reservation can always be settled.  On a healthy connection, in any database that
  satisfies the invariant, a PENDING reservation can be confirmed, however old it is, failed or cancelled
  at any time, and expired once its window has elapsed: the seats are there, no optimistic lock fails,
  and it becomes CONFIRMED, FAILED, CANCELLED or EXPIRED by what was asked, with or without a hold store.\<close>

theorem pending_can_be_settled:
  assumes "faults w = []" "tx w = NoTx" "core_inv (db w)" "fresh_id (db w) w" "holds_safe h"
    and "r \<in> set (t_reservations (db w))" "r_status r = PENDING" "r_version r < 2147483647"
  shows "(\<exists>res w'. Service_Confirm (core_service ttl h v) (r_id r) w = (Inr res, w')
      \<and> r_status res = CONFIRMED \<and> (\<exists>e b. settles (db w) CONFIRMED e r b (db w')))
    \<and> (\<exists>res w'. Service_Fail (core_service ttl h v) (r_id r) w = (Inr res, w')
      \<and> r_status res = FAILED \<and> (\<exists>e b. settles (db w) FAILED e r b (db w')))
    \<and> (\<exists>res w'. Service_Cancel (core_service ttl h v) (r_id r) w = (Inr res, w')
      \<and> r_status res = CANCELLED \<and> (\<exists>e b. settles (db w) CANCELLED e r b (db w')))
    \<and> (r_expires_at r < wall w \<longrightarrow> (\<exists>res w'. Service_Expire (core_service ttl h v) (r_id r) w = (Inr res, w')
      \<and> r_status res = EXPIRED \<and> (\<exists>e b. settles (db w) EXPIRED e r b (db w'))))"
  using pending_can_be_confirmed [OF assms, of ttl v] pending_can_be_released [OF assms, of reasonFailed ttl v]
    pending_can_be_released [OF assms, of reasonCancelled ttl v] pending_can_be_released [OF assms, of reasonExpired ttl v]
  by (simp add: Service_Fail_def Service_Cancel_def Service_Expire_def)

theorem pending_can_be_settled_witness:
  "(\<exists>res w'. Service_Fail (core_service (15 * minute) None ex_valid) ex_res_id (ex_world ex_held ex_now) = (Inr res, w')
      \<and> r_status res = FAILED)
   \<and> (\<exists>res w'. Service_Expire (core_service (15 * minute) None ex_valid) ex_res_id
      (ex_world ex_held (ex_now + 900000000001)) = (Inr res, w') \<and> r_status res = EXPIRED)"
proof
  have id: "r_id ex_reservation = ex_res_id" "r_expires_at ex_reservation < ex_now + 900000000001"
    by (simp_all add: ex_reservation_def)
  show "\<exists>res w'. Service_Fail (core_service (15 * minute) None ex_valid) ex_res_id (ex_world ex_held ex_now) = (Inr res, w')
      \<and> r_status res = FAILED"
    using pending_can_be_settled [of "ex_world ex_held ex_now" None ex_reservation "15 * minute" ex_valid]
      ex_held_inv ex_fresh(2) ex_pending id(1) by (auto simp: holds_safe_def)
  show "\<exists>res w'. Service_Expire (core_service (15 * minute) None ex_valid) ex_res_id
      (ex_world ex_held (ex_now + 900000000001)) = (Inr res, w') \<and> r_status res = EXPIRED"
    using pending_can_be_settled [of "ex_world ex_held (ex_now + 900000000001)" None ex_reservation "15 * minute" ex_valid]
      ex_held_inv ex_fresh(2) ex_pending id by (auto simp: holds_safe_def)
qed

section \<open>Refusals and replays\<close>

lemma no_early_expiry:
  assumes "faults w = []" "tx w = NoTx" "core_inv (db w)"
    and "r \<in> set (t_reservations (db w))" "r_status r = PENDING" "wall w \<le> r_expires_at r"
  shows "Service_Expire (core_service ttl h v) (r_id r) w = (Inl (Sentinel ErrReservationNotExpired), w)"
proof -
  let ?sv = "core_service ttl h v"
  have "releaseInTx ?sv (r_id r) reasonExpired (w\<lparr>tx := InTx (db w)\<rparr>)
      = (Inl (Sentinel ErrReservationNotExpired), w\<lparr>tx := InTx (db w)\<rparr>)"
    using load_run [of "w\<lparr>tx := InTx (db w)\<rparr>" r ttl h v] assms
    by (simp add: releaseInTx_def andThen_def release_loaded_def reading_def SystemClock_Now_def Expire_def time_after_def)
  from in_tx_fail [where fn = "releaseInTx ?sv (r_id r) reasonExpired", OF assms(1,2) this] show ?thesis
    by (simp add: Service_Expire_def release_def inTx_def andThen_def)
qed

lemma late_payment_refused:
  assumes "faults w = []" "tx w = NoTx" "core_inv (db w)"
    and "r \<in> set (t_reservations (db w))" "r_status r \<in> {EXPIRED, FAILED, CANCELLED}"
  shows "\<exists>e. Service_Confirm (core_service ttl h v) (r_id r) w = (Inl e, w) \<and> errors_is e ErrInvalidTransition"
proof -
  let ?sv = "core_service ttl h v"
  have "confirm ?sv (r_id r) (w\<lparr>tx := InTx (db w)\<rparr>)
      = (Inl (cannotConfirm (r_status r)), w\<lparr>tx := InTx (db w)\<rparr>)"
    using load_run [of "w\<lparr>tx := InTx (db w)\<rparr>" r ttl h v] assms
    by (auto simp: confirm_def andThen_def confirm_loaded_def)
  from in_tx_fail [where fn = "confirm ?sv (r_id r)", OF assms(1,2) this] show ?thesis
    by (simp add: Service_Confirm_def inTx_def andThen_def cannotConfirm_def)
qed

lemma settled_not_released:
  assumes "faults w = []" "tx w = NoTx" "core_inv (db w)"
    and "r \<in> set (t_reservations (db w))" "r_status r = CONFIRMED"
  shows "\<exists>e. release (core_service ttl h v) (r_id r) reason w = (Inl e, w) \<and> errors_is e ErrInvalidTransition"
proof -
  let ?sv = "core_service ttl h v"
  obtain e where e: "leave reason (wall w) r = Inl e" "errors_is e ErrInvalidTransition"
    using assms(5) by (cases reason) (simp_all add: transition_defs invalidTransition_def)
  have "releaseInTx ?sv (r_id r) reason (w\<lparr>tx := InTx (db w)\<rparr>) = (Inl e, w\<lparr>tx := InTx (db w)\<rparr>)"
    using load_run [of "w\<lparr>tx := InTx (db w)\<rparr>" r ttl h v] assms e(1)
    by (simp add: releaseInTx_def andThen_def release_loaded_def reading_def SystemClock_Now_def)
  from in_tx_fail [where fn = "releaseInTx ?sv (r_id r) reason", OF assms(1,2) this] e(2) show ?thesis
    by (simp add: release_def inTx_def andThen_def)
qed

text \<open>C11: No transition out of turn.  While the window has not elapsed, expiring a pending reservation
  fails with ErrReservationNotExpired; a CONFIRMED reservation cannot be released; and a payment that
  succeeds after the seat was released is refused, although the code's comment says that a succeeded
  payment is honoured past ExpiresAt.  All of them change nothing.\<close>

theorem transitions_refused:
  assumes "faults w = []" "tx w = NoTx" "core_inv (db w)" "r \<in> set (t_reservations (db w))"
  shows "(r_status r = PENDING \<and> wall w \<le> r_expires_at r \<longrightarrow>
      Service_Expire (core_service ttl h v) (r_id r) w = (Inl (Sentinel ErrReservationNotExpired), w))
    \<and> (r_status r = CONFIRMED \<longrightarrow>
      (\<exists>e. release (core_service ttl h v) (r_id r) reason w = (Inl e, w) \<and> errors_is e ErrInvalidTransition))
    \<and> (r_status r \<in> {EXPIRED, FAILED, CANCELLED} \<longrightarrow>
      (\<exists>e. Service_Confirm (core_service ttl h v) (r_id r) w = (Inl e, w) \<and> errors_is e ErrInvalidTransition))"
  using no_early_expiry [OF assms] settled_not_released [OF assms] late_payment_refused [OF assms] by blast

theorem transitions_refused_witness:
  "Service_Expire (core_service (15 * minute) None ex_valid) ex_res_id (ex_world ex_held ex_now)
      = (Inl (Sentinel ErrReservationNotExpired), ex_world ex_held ex_now)
   \<and> (\<exists>e. release (core_service (15 * minute) None ex_valid) ex_res_id reasonFailed (ex_world ex_confirmed ex_now)
        = (Inl e, ex_world ex_confirmed ex_now) \<and> errors_is e ErrInvalidTransition)
   \<and> (\<exists>e. Service_Confirm (core_service (15 * minute) None ex_valid) ex_res_id (ex_world ex_released ex_now)
        = (Inl e, ex_world ex_released ex_now) \<and> errors_is e ErrInvalidTransition)"
proof (intro conjI)
  show "Service_Expire (core_service (15 * minute) None ex_valid) ex_res_id (ex_world ex_held ex_now)
      = (Inl (Sentinel ErrReservationNotExpired), ex_world ex_held ex_now)"
    using transitions_refused [of "ex_world ex_held ex_now" ex_reservation "15 * minute" None ex_valid] ex_held_inv ex_pending
    by (simp add: ex_reservation_def)
  show "\<exists>e. release (core_service (15 * minute) None ex_valid) ex_res_id reasonFailed (ex_world ex_confirmed ex_now)
        = (Inl e, ex_world ex_confirmed ex_now) \<and> errors_is e ErrInvalidTransition"
    using transitions_refused [of "ex_world ex_confirmed ex_now" ex_sold "15 * minute" None ex_valid reasonFailed] ex_confirmed_inv
    by (simp add: ex_confirmed_def ex_sold_def ex_reservation_def)
  show "\<exists>e. Service_Confirm (core_service (15 * minute) None ex_valid) ex_res_id (ex_world ex_released ex_now)
        = (Inl e, ex_world ex_released ex_now) \<and> errors_is e ErrInvalidTransition"
    using transitions_refused [of "ex_world ex_released ex_now" ex_expired "15 * minute" None ex_valid] ex_released_inv
    by (simp add: ex_released_def ex_expired_def ex_reservation_def)
qed

lemma confirm_replay:
  assumes "faults w = []" "tx w = NoTx" "core_inv (db w)"
    and "r \<in> set (t_reservations (db w))" "r_status r = CONFIRMED"
  shows "Service_Confirm (core_service ttl h v) (r_id r) w = (Inr r, hold_dropped h r w)"
proof -
  let ?sv = "core_service ttl h v"
  have "confirm ?sv (r_id r) (w\<lparr>tx := InTx (db w)\<rparr>) = (Inr r, w\<lparr>tx := InTx (db w)\<rparr>)"
    using load_run [of "w\<lparr>tx := InTx (db w)\<rparr>" r ttl h v] assms
    by (auto simp: confirm_def andThen_def confirm_loaded_def)
  from in_tx_same [where fn = "confirm ?sv (r_id r)", OF assms(1,2) this] show ?thesis
    by (cases h) (auto simp: Service_Confirm_def inTx_def andThen_def releaseHold_def onResult_run hold_dropped_def
        split: prod.split)
qed

lemma release_replay:
  assumes "faults w = []" "tx w = NoTx" "core_inv (db w)"
    and "r \<in> set (t_reservations (db w))" "r_status r \<in> {EXPIRED, FAILED, CANCELLED}"
  shows "release (core_service ttl h v) (r_id r) reason w = (Inr r, hold_dropped h r w)"
proof -
  let ?sv = "core_service ttl h v"
  have "releaseInTx ?sv (r_id r) reason (w\<lparr>tx := InTx (db w)\<rparr>) = (Inr r, w\<lparr>tx := InTx (db w)\<rparr>)"
    using load_run [of "w\<lparr>tx := InTx (db w)\<rparr>" r ttl h v] assms
    by (simp add: releaseInTx_def andThen_def release_loaded_def)
  from in_tx_same [where fn = "releaseInTx ?sv (r_id r) reason", OF assms(1,2) this] show ?thesis
    by (cases h) (auto simp: release_def inTx_def andThen_def releaseHold_def onResult_run hold_dropped_def
        split: prod.split)
qed

lemma reserve_replay:
  assumes "faults w = []" "tx w = NoTx" "uuid_in (rc_reservation_id cmd) = Some k"
    and "find_reservation (db w) k = Some r" "v (rc_reservation_id cmd)"
    and "0 < rc_quantity cmd" "rc_event_id cmd \<noteq> ''''" "rc_user_id cmd \<noteq> ''''"
  shows "Reserve (core_service ttl h v) cmd w = (Inr r, hold_taken h r w)"
proof -
  let ?sv = "core_service ttl h v"
  have "rc_reservation_id cmd \<noteq> ''''" using assms(3) by auto
  then have "reserve ?sv cmd (w\<lparr>tx := InTx (db w)\<rparr>) = (Inr r, w\<lparr>tx := InTx (db w)\<rparr>)"
    using Get_run [of "w\<lparr>tx := InTx (db w)\<rparr>" "rc_reservation_id cmd" k] assms
    by (simp add: reserve_def onResult_def)
  from in_tx_same [where fn = "reserve ?sv cmd", OF assms(1,2) this] show ?thesis
    by (cases h) (auto simp: Reserve_def inTx_def andThen_def reading_def SystemClock_Now_def onResult_run hold_taken_def
        intro: prod.collapse [symmetric])
qed

text \<open>C12: Every use case is idempotent on the tables.  Confirming a CONFIRMED reservation again, releasing a
  released one again for any cause, and repeating the command that created a reservation, in whatever
  state it is, change no table whatever fails, and what they return is the reservation; on a healthy
  connection they do return it, and nothing else happens than what is asked of the hold store: confirming
  and releasing drop the hold, and the repeated command takes it again, even that of a settled
  reservation.  Without a hold store the world is unchanged.\<close>

theorem replays_inert:
  assumes "tx w = NoTx" "core_inv (db w)" "holds_safe h" "r \<in> set (t_reservations (db w))"
  shows "(r_status r = CONFIRMED \<longrightarrow>
        db (snd (Service_Confirm (core_service ttl h v) (r_id r) w)) = db w
      \<and> (\<forall>a. fst (Service_Confirm (core_service ttl h v) (r_id r) w) = Inr a \<longrightarrow> a = r)
      \<and> (faults w = [] \<longrightarrow> Service_Confirm (core_service ttl h v) (r_id r) w = (Inr r, hold_dropped h r w)))
    \<and> (r_status r \<in> {EXPIRED, FAILED, CANCELLED} \<longrightarrow>
        db (snd (release (core_service ttl h v) (r_id r) reason w)) = db w
      \<and> (\<forall>a. fst (release (core_service ttl h v) (r_id r) reason w) = Inr a \<longrightarrow> a = r)
      \<and> (faults w = [] \<longrightarrow> release (core_service ttl h v) (r_id r) reason w = (Inr r, hold_dropped h r w)))
    \<and> (uuid_in (rc_reservation_id cmd) = Some (r_id r) \<longrightarrow>
        db (snd (Reserve (core_service ttl h v) cmd w)) = db w
      \<and> (\<forall>a. fst (Reserve (core_service ttl h v) cmd w) = Inr a \<longrightarrow> a = r)
      \<and> (faults w = [] \<and> v (rc_reservation_id cmd) \<and> 0 < rc_quantity cmd \<and> rc_event_id cmd \<noteq> ''''
          \<and> rc_user_id cmd \<noteq> '''' \<longrightarrow> Reserve (core_service ttl h v) cmd w = (Inr r, hold_taken h r w)))"
proof -
  have wf: "wf_core (db w)" using assms(2) by (simp add: core_inv_def)
  note pre = assms(1,3) wf assms(4)
  have "find_reservation (db w) (r_id r) = Some r" using wf assms(4) by (simp add: find_reservation_key)
  then show ?thesis
    using repeated_confirm [OF prod.collapse [symmetric] pre, of ttl v]
      repeated_release [OF prod.collapse [symmetric] pre, of ttl v reason]
      repeated_reserve [OF prod.collapse [symmetric] pre, where cmd = cmd and ttl = ttl and v = v]
      confirm_replay [OF _ assms(1,2,4), of ttl h v] release_replay [OF _ assms(1,2,4), of ttl h v reason]
      reserve_replay [OF _ assms(1), where cmd = cmd and k = "r_id r" and r = r and v = v and ttl = ttl and h = h]
    by blast
qed

theorem replays_inert_witness:
  "Service_Confirm (core_service (15 * minute) None ex_valid) ex_res_id (ex_world ex_confirmed ex_now)
      = (Inr ex_sold, ex_world ex_confirmed ex_now)
   \<and> release (core_service (15 * minute) None ex_valid) ex_res_id reasonFailed (ex_world ex_released ex_now)
      = (Inr ex_expired, ex_world ex_released ex_now)
   \<and> Reserve (core_service (15 * minute) None ex_valid) ex_command (ex_world ex_held ex_now)
      = (Inr ex_reservation, ex_world ex_held ex_now)"
proof (intro conjI)
  show "Service_Confirm (core_service (15 * minute) None ex_valid) ex_res_id (ex_world ex_confirmed ex_now)
      = (Inr ex_sold, ex_world ex_confirmed ex_now)"
    using replays_inert [of "ex_world ex_confirmed ex_now" None ex_sold "15 * minute" ex_valid] ex_confirmed_inv
    by (simp add: ex_confirmed_def ex_sold_def ex_reservation_def holds_safe_def hold_dropped_def)
  show "release (core_service (15 * minute) None ex_valid) ex_res_id reasonFailed (ex_world ex_released ex_now)
      = (Inr ex_expired, ex_world ex_released ex_now)"
    using replays_inert [of "ex_world ex_released ex_now" None ex_expired "15 * minute" ex_valid reasonFailed] ex_released_inv
    by (simp add: ex_released_def ex_expired_def ex_reservation_def holds_safe_def hold_dropped_def)
  show "Reserve (core_service (15 * minute) None ex_valid) ex_command (ex_world ex_held ex_now)
      = (Inr ex_reservation, ex_world ex_held ex_now)"
  proof -
    let ?w = "ex_world ex_held ex_now"
    have "uuid_in (rc_reservation_id ex_command) = Some (r_id ex_reservation)" "ex_valid (rc_reservation_id ex_command)"
      "0 < rc_quantity ex_command" "rc_event_id ex_command \<noteq> []" "rc_user_id ex_command \<noteq> []"
      by (simp_all add: ex_command_def ex_valid_def ex_reservation_def)
    moreover have "tx ?w = NoTx" "core_inv (db ?w)" "holds_safe None" "ex_reservation \<in> set (t_reservations (db ?w))" "faults ?w = []"
      using ex_held_inv ex_pending by (simp_all add: holds_safe_def)
    ultimately have "Reserve (core_service (15 * minute) None ex_valid) ex_command ?w
        = (Inr ex_reservation, hold_taken None ex_reservation ?w)"
      using replays_inert [of ?w None ex_reservation "15 * minute" ex_valid reasonFailed ex_command] by blast
    then show ?thesis by (simp add: hold_taken_def)
  qed
qed

lemma reserve_accepts:
  assumes "faults w = []" "tx w = NoTx" "core_inv (db w)" "fresh_id (db w) w"
    and "acceptable (db w) (wall w) ttl v cmd"
  shows "\<exists>res w'. Reserve (core_service ttl None v) cmd w = (Inr res, w') \<and> r_id res = rc_reservation_id cmd
    \<and> (\<exists>e r b. books (db w) e r b (db w') \<and> uuid_in (r_id res) = Some (r_id r))"
  by (rule Reserve_accepts [OF assms])

lemma reserve_rejections:
  assumes "faults w = []" "tx w = NoTx" "rejection (db w) (wall w) v cmd = Some s"
  shows "Reserve (core_service ttl h v) cmd w = (Inl (Sentinel s), w)"
  by (rule Reserve_rejects [OF assms])

lemma ex_too_many:
  "rejection (db (ex_world ex_open ex_now)) (wall (ex_world ex_open ex_now)) ex_valid (ex_command\<lparr>rc_quantity := 11\<rparr>)
    = Some ErrSoldOut"
  by (simp add: rejection_def ex_command_def ex_valid_def ex_open_def find_reservation_def find_event_def
      SaleIsOpen_def time_before_def int4_def ex_now_def) (simp add: ex_event_def)

text \<open>C13: Reserve accepts what the tables have room for and refuses the rest with its own error.  On a
  healthy connection a command that is acceptable on the tables succeeds and books exactly what it asks
  for; an invalid command, an invalid id, an unknown event, a sale that is not open and an event without
  room are each refused with their sentinel, in this order, and the world is unchanged.\<close>

theorem reserve_decides:
  assumes "faults w = []" "tx w = NoTx" "core_inv (db w)" "fresh_id (db w) w"
  shows "(acceptable (db w) (wall w) ttl v cmd \<longrightarrow>
      (\<exists>res w'. Reserve (core_service ttl None v) cmd w = (Inr res, w') \<and> r_id res = rc_reservation_id cmd
        \<and> (\<exists>e r b. books (db w) e r b (db w') \<and> uuid_in (r_id res) = Some (r_id r))))
    \<and> (rejection (db w) (wall w) v cmd = Some s \<longrightarrow>
      Reserve (core_service ttl h v) cmd w = (Inl (Sentinel s), w))"
  using reserve_accepts [OF assms] reserve_rejections [OF assms(1,2)] by blast

theorem reserve_decides_witness:
  "(\<exists>res w'. Reserve (core_service (15 * minute) None ex_valid) ex_command (ex_world ex_open ex_now) = (Inr res, w'))
    \<and> Reserve (core_service (15 * minute) None ex_valid) (ex_command\<lparr>rc_quantity := 11\<rparr>) (ex_world ex_open ex_now)
      = (Inl (Sentinel ErrSoldOut), ex_world ex_open ex_now)"
proof
  note ex = reserve_decides [of "ex_world ex_open ex_now" "15 * minute" ex_valid _ _ None]
  show "\<exists>res w'. Reserve (core_service (15 * minute) None ex_valid) ex_command (ex_world ex_open ex_now) = (Inr res, w')"
    using conjunct1 [OF ex [of ex_command ErrSoldOut]] ex_open_inv ex_fresh(1) ex_acceptable by auto
  show "Reserve (core_service (15 * minute) None ex_valid) (ex_command\<lparr>rc_quantity := 11\<rparr>) (ex_world ex_open ex_now)
      = (Inl (Sentinel ErrSoldOut), ex_world ex_open ex_now)"
    using ex [of "ex_command\<lparr>rc_quantity := 11\<rparr>" ErrSoldOut] ex_open_inv ex_fresh(1) ex_too_many by simp
qed

end
