(* ===== verification/Payment_Store.thy ===== *)
theory Payment_Store
  imports Outbox
begin

text \<open>
  The payment database (\<open>migrations/payment\<close>), the types of \<open>internal/payment\<close> it stores, and
  \<open>internal/payment/adapter/postgres\<close>: every statement with its column input, its constraints and
  the rows it touches.
\<close>

section \<open>Payments and reservation contexts\<close>

datatype payment_status = PAY_PENDING | PAY_SUCCEEDED | PAY_FAILED

fun payment_status_text :: "payment_status \<Rightarrow> string" where
  "payment_status_text PAY_PENDING = ''PENDING''"
| "payment_status_text PAY_SUCCEEDED = ''SUCCEEDED''"
| "payment_status_text PAY_FAILED = ''FAILED''"

record payment =
  p_id :: string
  p_reservation_id :: string
  p_user_id :: string
  p_amount_cents :: int
  p_currency :: string
  p_status :: payment_status
  p_idempotency_key :: string
  p_gateway_ref :: string
  p_failure_reason :: string

record reservation_context =
  c_reservation_id :: string
  c_user_id :: string
  c_amount_cents :: int
  c_currency :: string
  c_expires_at :: instant

record payment_db = outbox_db +
  t_payments :: "payment list"
  t_contexts :: "reservation_context list"

type_synonym 'm payment_world = "(payment_db, 'm) pg_world_scheme"

definition find_payment :: "payment_db \<Rightarrow> string \<Rightarrow> payment option" where
  "find_payment d key = find (\<lambda>p. p_idempotency_key p = key) (t_payments d)"

definition find_context :: "payment_db \<Rightarrow> string \<Rightarrow> reservation_context option" where
  "find_context d i = find (\<lambda>c. c_reservation_id c = i) (t_contexts d)"

section \<open>Payments\<close>

text \<open>
  \<open>gateway_ref\<close> and \<open>failure_reason\<close> are nullable but read through \<open>COALESCE(..., '')\<close>: a row keeps
  the empty text for \<open>NULL\<close>.
\<close>

definition insert_payment :: "payment \<Rightarrow> instant \<Rightarrow> payment_db \<Rightarrow> (err + nat) \<times> payment_db" where
  "insert_payment p now d =
     (case (uuid_in (p_id p), uuid_in (p_reservation_id p)) of
        (Some i, Some r) \<Rightarrow>
          (case char3 (p_currency p) of
             None \<Rightarrow> (Inl (PgError ''22001''), d)
           | Some cur \<Rightarrow>
               if \<not> (text_ok (p_user_id p) \<and> text_ok (p_currency p) \<and> text_ok (p_idempotency_key p))
               then (Inl (PgError ''22021''), d)
               else if p_amount_cents p \<le> 0 then (Inl (PgError ''23514''), d)
               else if \<exists>x\<in>set (t_payments d). p_id x = i \<or> p_idempotency_key x = p_idempotency_key p
               then (Inl (PgError ''23505''), d)
               else (Inr 1, d\<lparr>t_payments := t_payments d @ [p\<lparr>p_id := i, p_reservation_id := r,
                      p_currency := cur, p_gateway_ref := '''', p_failure_reason := ''''\<rparr>]\<rparr>))
      | _ \<Rightarrow> (Inl (PgError ''22P02''), d))"

definition Payments_Create :: "payment \<Rightarrow> ('m payment_world, unit) op" where
  "Payments_Create p =
     wrapErr (\<lambda>e. if is_unique_violation e then Sentinel ErrDuplicatePayment else e)
       (andThen (stmt (insert_payment p)) (\<lambda>_. ok ()))"

definition select_payment :: "string \<Rightarrow> instant \<Rightarrow> payment_db \<Rightarrow> (err + payment option) \<times> payment_db" where
  "select_payment key now d =
     (if \<not> text_ok key then (Inl (PgError ''22021''), d) else (Inr (find_payment d key), d))"

definition GetByIdempotencyKey :: "string \<Rightarrow> ('m payment_world, payment) op" where
  "GetByIdempotencyKey key =
     andThen (stmt (select_payment key))
       (\<lambda>row. case row of None \<Rightarrow> fail (Sentinel ErrPaymentNotFound) | Some p \<Rightarrow> ok p)"

text \<open>The update has no guard on the old status: it overwrites whatever the row holds.\<close>

definition update_payment ::
  "string \<Rightarrow> payment_status \<Rightarrow> string \<Rightarrow> string \<Rightarrow> instant \<Rightarrow> payment_db \<Rightarrow> (err + nat) \<times> payment_db" where
  "update_payment i st gatewayRef failureReason now d =
     (case uuid_in i of
        None \<Rightarrow> (Inl (PgError ''22P02''), d)
      | Some k \<Rightarrow>
          if \<not> (text_ok gatewayRef \<and> text_ok failureReason) then (Inl (PgError ''22021''), d)
          else (Inr (length (filter (\<lambda>p. p_id p = k) (t_payments d))),
                d\<lparr>t_payments := map (\<lambda>p. if p_id p = k
                    then p\<lparr>p_status := st, p_gateway_ref := gatewayRef, p_failure_reason := failureReason\<rparr>
                    else p) (t_payments d)\<rparr>))"

definition UpdateStatus ::
  "string \<Rightarrow> payment_status \<Rightarrow> string \<Rightarrow> string \<Rightarrow> ('m payment_world, unit) op" where
  "UpdateStatus i st gatewayRef failureReason =
     andThen (stmt (update_payment i st gatewayRef failureReason)) (\<lambda>_. ok ())"

section \<open>Reservation contexts\<close>

definition upsert_context :: "reservation_context \<Rightarrow> instant \<Rightarrow> payment_db \<Rightarrow> (err + nat) \<times> payment_db" where
  "upsert_context c now d =
     (case uuid_in (c_reservation_id c) of
        None \<Rightarrow> (Inl (PgError ''22P02''), d)
      | Some k \<Rightarrow>
          (case char3 (c_currency c) of
             None \<Rightarrow> (Inl (PgError ''22001''), d)
           | Some cur \<Rightarrow>
               if \<not> (text_ok (c_user_id c) \<and> text_ok (c_currency c)) then (Inl (PgError ''22021''), d)
               else if c_amount_cents c < 0 then (Inl (PgError ''23514''), d)
               else let row = c\<lparr>c_reservation_id := k, c_currency := cur,
                                 c_expires_at := timestamptz (c_expires_at c)\<rparr> in
                 (Inr 1, d\<lparr>t_contexts :=
                    (if find_context d k = None then t_contexts d @ [row]
                     else map (\<lambda>x. if c_reservation_id x = k then row else x) (t_contexts d))\<rparr>)))"

definition Contexts_Upsert :: "reservation_context \<Rightarrow> ('m payment_world, unit) op" where
  "Contexts_Upsert c = andThen (stmt (upsert_context c)) (\<lambda>_. ok ())"

definition Contexts_Get :: "string \<Rightarrow> ('m payment_world, reservation_context) op" where
  "Contexts_Get i =
     andThen (stmt (by_id i (\<lambda>k d. find_context d k)))
       (\<lambda>row. case row of None \<Rightarrow> fail (Sentinel ErrContextNotFound) | Some c \<Rightarrow> ok c)"

definition Payment_Enqueue :: "outbox_record list \<Rightarrow> ('m payment_world, unit) op" where
  "Payment_Enqueue = Enqueue"

end
