(* ===== verification/Payment.thy ===== *)
theory Payment
  imports Payment_Store EventBus
begin

text \<open>
  \<open>internal/payment\<close>: the ports, the processor with its options and the inline wait for the
  reservation context, the simulated acquirer, the two message handlers, and the wiring of
  \<open>cmd/pulsar-payment\<close>.  \<open>Handle\<close> is split where the payment has been loaded (\<open>decide\<close>), so that
  concurrent deliveries can be stated over the same definitions.
\<close>

section \<open>Ports\<close>

record 'm payment_repository =
  pr_Create :: "payment \<Rightarrow> ('m world_scheme, unit) op"
  pr_GetByIdempotencyKey :: "string \<Rightarrow> ('m world_scheme, payment) op"
  pr_UpdateStatus :: "string \<Rightarrow> payment_status \<Rightarrow> string \<Rightarrow> string \<Rightarrow> ('m world_scheme, unit) op"

record 'm context_repository =
  cr_Upsert :: "reservation_context \<Rightarrow> ('m world_scheme, unit) op"
  cr_Get :: "string \<Rightarrow> ('m world_scheme, reservation_context) op"

record charge_request =
  cq_reservation_id :: string
  cq_user_id :: string
  cq_amount_cents :: int
  cq_currency :: string
  cq_token :: string
  cq_idempotency_key :: string

text \<open>An acquirer answers with its reference or an error.\<close>

type_synonym 'm acquirer = "go_context \<Rightarrow> charge_request \<Rightarrow> ('m world_scheme, string) op"

record payment_requested =
  q_reservation_id :: string
  q_user_id :: string
  q_token :: string

text \<open>A port that is not wired is \<open>None\<close>.\<close>

record 'm processor =
  pc_payments :: "'m payment_repository option"
  pc_contexts :: "'m context_repository option"
  pc_outbox :: "(outbox_record list \<Rightarrow> ('m world_scheme, unit) op) option"
  pc_tx :: "(('m world_scheme, unit) op \<Rightarrow> ('m world_scheme, unit) op) option"
  pc_acquirer :: "'m acquirer option"
  pc_Now :: "'m world_scheme \<Rightarrow> instant"
  pc_source :: string
  pc_sleeper :: "go_context \<Rightarrow> duration \<Rightarrow> ('m world_scheme, unit) op"
  pc_attempts :: int
  pc_delay :: duration

section \<open>Construction\<close>

definition defaultContextWaitAttempts :: int where "defaultContextWaitAttempts = 3"
definition defaultContextWaitDelay :: duration where "defaultContextWaitDelay = 500 * millisecond"

definition sleepFor :: "go_context \<Rightarrow> duration \<Rightarrow> ('m world_scheme, unit) op" where
  "sleepFor ctx d = await ctx d"

definition WithSleeper ::
  "(go_context \<Rightarrow> duration \<Rightarrow> ('m world_scheme, unit) op) option \<Rightarrow> 'm processor \<Rightarrow> 'm processor" where
  "WithSleeper sleep p = (case sleep of None \<Rightarrow> p | Some s \<Rightarrow> p\<lparr>pc_sleeper := s\<rparr>)"

definition WithContextWait :: "int \<Rightarrow> duration \<Rightarrow> 'm processor \<Rightarrow> 'm processor" where
  "WithContextWait attempts delay p =
     p\<lparr>pc_attempts := (if 0 < attempts then attempts else pc_attempts p),
       pc_delay := (if 0 < delay then delay else pc_delay p)\<rparr>"

definition NewProcessor ::
  "'m payment_repository option \<Rightarrow> 'm context_repository option \<Rightarrow>
     (outbox_record list \<Rightarrow> ('m world_scheme, unit) op) option \<Rightarrow>
     (('m world_scheme, unit) op \<Rightarrow> ('m world_scheme, unit) op) option \<Rightarrow> 'm acquirer option \<Rightarrow>
     ('m world_scheme \<Rightarrow> instant) \<Rightarrow> ('m processor \<Rightarrow> 'm processor) list \<Rightarrow> 'm processor" where
  "NewProcessor payments contexts outbox txr acquirer clock opts =
     fold (\<lambda>opt p. opt p) opts
       \<lparr>pc_payments = payments, pc_contexts = contexts, pc_outbox = outbox, pc_tx = txr,
        pc_acquirer = acquirer, pc_Now = clock, pc_source = ''pulsar-payment'',
        pc_sleeper = sleepFor, pc_attempts = defaultContextWaitAttempts,
        pc_delay = defaultContextWaitDelay\<rparr>"

text \<open>The ports of a wired processor; \<open>Handle\<close> checks them before anything else runs.\<close>

definition wired :: "'m processor \<Rightarrow> bool" where
  "wired pc \<longleftrightarrow> pc_payments pc \<noteq> None \<and> pc_contexts pc \<noteq> None \<and> pc_outbox pc \<noteq> None
     \<and> pc_acquirer pc \<noteq> None"

abbreviation "payments pc \<equiv> the (pc_payments pc)"
abbreviation "contexts pc \<equiv> the (pc_contexts pc)"
abbreviation "enqueue pc \<equiv> the (pc_outbox pc)"
abbreviation "acquirer pc \<equiv> the (pc_acquirer pc)"

section \<open>Outcomes\<close>

definition PaymentOutcomePayload :: "payment \<Rightarrow> string \<Rightarrow> string \<Rightarrow> json" where
  "PaymentOutcomePayload pay gatewayRef reason =
     JObj ([(''reservation_id'', JStr (p_reservation_id pay)), (''payment_id'', JStr (p_id pay)),
       (''amount_cents'', JInt (p_amount_cents pay))]
       @ omitempty ''gateway_ref'' gatewayRef @ omitempty ''reason'' reason)"

definition record_payment ::
  "'m processor \<Rightarrow> string \<Rightarrow> payment \<Rightarrow> string \<Rightarrow> string \<Rightarrow> ('m world_scheme, outbox_record) op" where
  "record_payment pc eventType pay gatewayRef reason =
     record_event (pc_source pc) eventType (p_reservation_id pay) ''''
       (Inr (PaymentOutcomePayload pay gatewayRef reason))"

definition charge_outcome :: "bool \<Rightarrow> string \<Rightarrow> string" where
  "charge_outcome approved reason =
     (if approved then ''approved''
      else if contains reason ''window elapsed'' then ''window_elapsed''
      else if contains reason ''card declined'' then ''declined''
      else ''acquirer_error'')"

definition recordChargeOutcome :: "bool \<Rightarrow> string \<Rightarrow> string list" where
  "recordChargeOutcome approved reason =
     [''pulsar_payment_charges_total'', charge_outcome approved reason]"

definition recordContextWait :: "string \<Rightarrow> string list" where
  "recordContextWait outcome = [''pulsar_payment_context_waits_total'', outcome]"

definition payment_tx :: "'m processor \<Rightarrow> ('m world_scheme, unit) op \<Rightarrow> ('m world_scheme, unit) op" where
  "payment_tx pc write = (case pc_tx pc of None \<Rightarrow> write | Some run \<Rightarrow> run write)"

definition finish_write ::
  "'m processor \<Rightarrow> payment \<Rightarrow> string \<Rightarrow> string \<Rightarrow> bool \<Rightarrow> outbox_record \<Rightarrow> ('m world_scheme, unit) op" where
  "finish_write pc pay gatewayRef reason approved rec =
     andThen (pr_UpdateStatus (payments pc) (p_id pay)
         (if approved then PAY_SUCCEEDED else PAY_FAILED) gatewayRef reason) (\<lambda>_.
     enqueue pc [rec])"

definition finish :: "'m processor \<Rightarrow> payment \<Rightarrow> string \<Rightarrow> string \<Rightarrow> bool \<Rightarrow> ('m world_scheme, unit) op" where
  "finish pc pay gatewayRef reason approved =
     counting (recordChargeOutcome approved reason)
       (andThen (record_payment pc (if approved then TypePaymentSucceeded else TypePaymentFailed)
           pay gatewayRef reason) (\<lambda>rec.
        payment_tx pc (finish_write pc pay gatewayRef reason approved rec)))"

definition recordOutcome :: "'m processor \<Rightarrow> payment \<Rightarrow> ('m world_scheme, unit) op" where
  "recordOutcome pc pay =
     (case p_status pay of
        PAY_SUCCEEDED \<Rightarrow>
          andThen (record_payment pc TypePaymentSucceeded pay (p_gateway_ref pay) '''')
            (\<lambda>rec. enqueue pc [rec])
      | PAY_FAILED \<Rightarrow>
          andThen (record_payment pc TypePaymentFailed pay '''' (p_failure_reason pay))
            (\<lambda>rec. enqueue pc [rec])
      | PAY_PENDING \<Rightarrow>
          fail (Plain (''cannot record outcome for payment in status ''
            @ go_quote (payment_status_text (p_status pay)))))"

section \<open>The inline wait for the reservation context\<close>

primrec wait_loop ::
  "'m processor \<Rightarrow> go_context \<Rightarrow> string \<Rightarrow> err \<Rightarrow> nat \<Rightarrow> ('m world_scheme, reservation_context) op" where
  "wait_loop pc ctx i e 0 = counting (recordContextWait ''exhausted'') (fail e)"
| "wait_loop pc ctx i e (Suc n) =
     onResult (pc_sleeper pc ctx (pc_delay pc)) (\<lambda>slept.
       case slept of
         Inl _ \<Rightarrow> counting (recordContextWait ''aborted'') (fail e)
       | Inr _ \<Rightarrow>
           onResult (cr_Get (contexts pc) i) (\<lambda>r.
             case r of
               Inl e' \<Rightarrow> if errors_is e' ErrContextNotFound then wait_loop pc ctx i e n else fail e'
             | Inr c \<Rightarrow> counting (recordContextWait ''resolved'') (ok c)))"

definition waitContext ::
  "'m processor \<Rightarrow> go_context \<Rightarrow> string \<Rightarrow> ('m world_scheme, reservation_context) op" where
  "waitContext pc ctx i =
     onResult (cr_Get (contexts pc) i) (\<lambda>r.
       case r of
         Inl e \<Rightarrow> if errors_is e ErrContextNotFound then wait_loop pc ctx i e (nat (pc_attempts pc)) else fail e
       | Inr c \<Rightarrow> ok c)"

section \<open>Handle\<close>

definition new_payment :: "payment_requested \<Rightarrow> reservation_context \<Rightarrow> string \<Rightarrow> string \<Rightarrow> payment" where
  "new_payment req c key i =
     \<lparr>p_id = i, p_reservation_id = q_reservation_id req, p_user_id = c_user_id c,
      p_amount_cents = c_amount_cents c,
      p_currency = (if c_currency c = '''' then ''BRL'' else c_currency c),
      p_status = PAY_PENDING, p_idempotency_key = key, p_gateway_ref = '''', p_failure_reason = ''''\<rparr>"

definition loadOrCreate ::
  "'m processor \<Rightarrow> payment_requested \<Rightarrow> reservation_context \<Rightarrow> string \<Rightarrow> ('m world_scheme, payment) op" where
  "loadOrCreate pc req c key =
     reading uid_New (\<lambda>i.
     onResult (pr_Create (payments pc) (new_payment req c key i)) (\<lambda>r.
       case r of
         Inr _ \<Rightarrow> ok (new_payment req c key i)
       | Inl e \<Rightarrow>
           if \<not> errors_is e ErrDuplicatePayment then fail e
           else wrapErr (\<lambda>e'. Wrapped ''load existing payment by idempotency key: '' e' '''')
             (pr_GetByIdempotencyKey (payments pc) key)))"

definition charge_for :: "payment_requested \<Rightarrow> payment \<Rightarrow> string \<Rightarrow> charge_request" where
  "charge_for req pay key =
     \<lparr>cq_reservation_id = q_reservation_id req, cq_user_id = p_user_id pay,
      cq_amount_cents = p_amount_cents pay, cq_currency = p_currency pay,
      cq_token = q_token req, cq_idempotency_key = key\<rparr>"

definition decide ::
  "'m processor \<Rightarrow> go_context \<Rightarrow> payment_requested \<Rightarrow> reservation_context \<Rightarrow> string \<Rightarrow> payment \<Rightarrow>
     ('m world_scheme, unit) op" where
  "decide pc ctx req c key pay =
     (if p_status pay \<noteq> PAY_PENDING then recordOutcome pc pay
      else
        reading (\<lambda>w. (pc_Now pc w, w)) (\<lambda>now.
        if time_after now (c_expires_at c)
        then finish pc pay '''' ''reservation window elapsed'' False
        else
          onResult (acquirer pc ctx (charge_for req pay key)) (\<lambda>r.
            case r of
              Inl e \<Rightarrow> finish pc pay '''' (err_text e) False
            | Inr gatewayRef \<Rightarrow> finish pc pay gatewayRef '''' True)))"

definition not_owner :: "string \<Rightarrow> err" where
  "not_owner user = Wrapped '''' (Sentinel ErrNotOwner)
     ('': user '' @ go_quote user @ '' does not own reservation'')"

definition Handle ::
  "'m processor \<Rightarrow> go_context \<Rightarrow> payment_requested \<Rightarrow> string \<Rightarrow> ('m world_scheme, unit) op" where
  "Handle pc ctx req key =
     (if \<not> wired pc then fail (Sentinel ErrNotWired)
      else if q_reservation_id req = '''' \<or> q_user_id req = '''' \<or> key = ''''
      then fail (Plain ''reservation_id, user_id and idempotency key are required'')
      else
        andThen (wrapErr (\<lambda>e. Wrapped ''load reservation context: '' e '''')
            (waitContext pc ctx (q_reservation_id req))) (\<lambda>c.
        if q_user_id req \<noteq> c_user_id c then fail (not_owner (q_user_id req))
        else andThen (loadOrCreate pc req c key) (\<lambda>pay. decide pc ctx req c key pay)))"

section \<open>The simulated acquirer\<close>

text \<open>
  \<open>rand.Float64\<close> is a multiple of \<open>2 ^ -53\<close> below 1; \<open>draw\<close> is the source of its numerator and the
  failure rate is the number of such multiples below it.
\<close>

record simulated_acquirer =
  sa_failures :: int
  sa_delay :: duration

definition SimulatedAcquirer_Charge ::
  "('m world_scheme \<Rightarrow> int \<times> 'm world_scheme) \<Rightarrow> simulated_acquirer \<Rightarrow> 'm acquirer" where
  "SimulatedAcquirer_Charge draw a ctx req =
     andThen (if 0 < sa_delay a then await ctx (sa_delay a) else ok ()) (\<lambda>_.
       if cq_token req = ''fail-me'' then fail (Plain ''card declined (forced by token)'')
       else
         reading draw (\<lambda>n.
         if n < sa_failures a then fail (Plain ''card declined'')
         else reading uid_New (\<lambda>u. ok (''sim-'' @ u))))"

section \<open>Message handlers\<close>

definition decode_ticket_reserved :: "payload \<Rightarrow> err + reservation_context" where
  "decode_ticket_reserved p =
     thenE (unmarshal p) (\<lambda>kvs.
     thenE (str_field ''reservation_id'' kvs) (\<lambda>i.
     thenE (str_field ''user_id'' kvs) (\<lambda>u.
     thenE (int_field ''amount_cents'' kvs) (\<lambda>a.
     thenE (str_field ''currency'' kvs) (\<lambda>c.
     thenE (time_field ''expires_at'' kvs) (\<lambda>t.
       Inr \<lparr>c_reservation_id = i, c_user_id = u, c_amount_cents = a, c_currency = c, c_expires_at = t\<rparr>))))))"

definition onTicketReserved :: "'m context_repository \<Rightarrow> 'm world_scheme handler" where
  "onTicketReserved repo msg =
     (case decode_ticket_reserved (m_payload msg) of
        Inl e \<Rightarrow> fail (Wrapped ''decode ticket.reserved: '' e '''')
      | Inr c \<Rightarrow> wrapErr (\<lambda>e. Wrapped ''upsert reservation context: '' e '''') (cr_Upsert repo c))"

definition decode_payment_process :: "payload \<Rightarrow> err + payment_requested" where
  "decode_payment_process p =
     thenE (unmarshal p) (\<lambda>kvs.
     thenE (str_field ''reservation_id'' kvs) (\<lambda>i.
     thenE (str_field ''user_id'' kvs) (\<lambda>u.
     thenE (str_field ''payment_method_token'' kvs) (\<lambda>t.
       Inr \<lparr>q_reservation_id = i, q_user_id = u, q_token = t\<rparr>))))"

definition onPaymentProcess :: "'m processor \<Rightarrow> go_context \<Rightarrow> 'm world_scheme handler" where
  "onPaymentProcess pc ctx msg =
     (case decode_payment_process (m_payload msg) of
        Inl e \<Rightarrow> fail (Wrapped ''decode payment.process: '' e '''')
      | Inr req \<Rightarrow>
          let key = hdr (m_headers msg) ''Idempotency-Key'' in
          Handle pc ctx req (if key = '''' then m_id msg else key))"

definition payment_consumers ::
  "'m processor \<Rightarrow> 'm context_repository \<Rightarrow> go_context \<Rightarrow> (string \<times> string \<times> 'm world_scheme handler) list" where
  "payment_consumers pc repo ctx =
     [(SubjectTicketReserved, ''payment-context'', onTicketReserved repo),
      (SubjectPaymentProcess, ''payment-process'', onPaymentProcess pc ctx)]"

section \<open>The wiring of the service\<close>

definition pg_payments :: "(payment_db, 'm) pg_world_ext payment_repository" where
  "pg_payments = \<lparr>pr_Create = Payments_Create, pr_GetByIdempotencyKey = GetByIdempotencyKey,
     pr_UpdateStatus = UpdateStatus\<rparr>"

definition pg_contexts :: "(payment_db, 'm) pg_world_ext context_repository" where
  "pg_contexts = \<lparr>cr_Upsert = Contexts_Upsert, cr_Get = Contexts_Get\<rparr>"

definition payment_processor ::
  "(payment_db, 'm) pg_world_ext acquirer \<Rightarrow> (payment_db, 'm) pg_world_ext processor" where
  "payment_processor acq =
     NewProcessor (Some pg_payments) (Some pg_contexts) (Some Payment_Enqueue) (Some WithinTx)
       (Some acq) wall []"

lemma payment_processor_simps [simp]:
  "wired (payment_processor acq)" "payments (payment_processor acq) = pg_payments"
  "contexts (payment_processor acq) = pg_contexts" "enqueue (payment_processor acq) = Payment_Enqueue"
  "acquirer (payment_processor acq) = acq" "pc_Now (payment_processor acq) = wall"
  "pc_source (payment_processor acq) = ''pulsar-payment''"
  "pc_sleeper (payment_processor acq) = sleepFor" "pc_attempts (payment_processor acq) = 3"
  "pc_delay (payment_processor acq) = 500 * millisecond"
  "payment_tx (payment_processor acq) = WithinTx"
  by (simp_all add: payment_processor_def NewProcessor_def wired_def payment_tx_def fun_eq_iff
      defaultContextWaitAttempts_def defaultContextWaitDelay_def)

lemma pg_repositories [simp]:
  "pr_Create pg_payments = Payments_Create" "pr_GetByIdempotencyKey pg_payments = GetByIdempotencyKey"
  "pr_UpdateStatus pg_payments = UpdateStatus" "cr_Get pg_contexts = Contexts_Get"
  "cr_Upsert pg_contexts = Contexts_Upsert"
  by (simp_all add: pg_payments_def pg_contexts_def)

end
