(* ===== verification/Payment_Ledger.thy ===== *)
theory Payment_Ledger
  imports Payment
begin

text \<open>
  What the payment tables mean, and what the operations of the processor may do to them.  A payment
  that has been decided has its outcome event in the outbox, and an outcome event is always about a
  payment of the table.  The interface between the processor and its repositories is the locale
  \<open>payment_ports\<close>; the PostgreSQL adapters meet it.
\<close>

section \<open>The invariant\<close>

definition wf_payments :: "payment_db \<Rightarrow> bool" where
  "wf_payments d \<longleftrightarrow>
     distinct (map p_id (t_payments d)) \<and> distinct (map p_idempotency_key (t_payments d))
   \<and> (\<forall>p\<in>set (t_payments d). uuid_in (p_id p) = Some (p_id p)
        \<and> uuid_in (p_reservation_id p) = Some (p_reservation_id p) \<and> 0 < p_amount_cents p)
   \<and> distinct (map o_id (t_outbox d))"

text \<open>The payment a delivery works on, read or created earlier, and its row.\<close>

definition copy_of :: "payment \<Rightarrow> payment \<Rightarrow> bool" where
  "copy_of q p \<longleftrightarrow> uuid_in (p_id q) = Some (p_id p)
     \<and> uuid_in (p_reservation_id q) = Some (p_reservation_id p)
     \<and> p_user_id q = p_user_id p \<and> p_amount_cents q = p_amount_cents p
     \<and> p_idempotency_key q = p_idempotency_key p"

definition outcome_types :: "string set" where
  "outcome_types = {TypePaymentSucceeded, TypePaymentFailed}"

fun outcome_type :: "payment_status \<Rightarrow> string" where
  "outcome_type PAY_SUCCEEDED = TypePaymentSucceeded"
| "outcome_type PAY_FAILED = TypePaymentFailed"
| "outcome_type PAY_PENDING = ''''"

definition reports :: "outbox_row \<Rightarrow> payment \<Rightarrow> string \<Rightarrow> string \<Rightarrow> bool" where
  "reports b p gatewayRef reason \<longleftrightarrow> (\<exists>q. copy_of q p \<and> o_correlation_id b = p_reservation_id q
     \<and> o_payload b = PaymentOutcomePayload q gatewayRef reason)"

definition published :: "payment_db \<Rightarrow> bool" where
  "published d \<longleftrightarrow> (\<forall>p\<in>set (t_payments d). p_status p \<noteq> PAY_PENDING \<longrightarrow>
     (\<exists>b\<in>set (t_outbox d). o_event_type b = outcome_type (p_status p)
        \<and> reports b p (p_gateway_ref p) (p_failure_reason p)))"

definition grounded :: "payment_db \<Rightarrow> bool" where
  "grounded d \<longleftrightarrow> (\<forall>b\<in>set (t_outbox d). o_event_type b \<in> outcome_types \<longrightarrow>
     (\<exists>p\<in>set (t_payments d). \<exists>gatewayRef reason. reports b p gatewayRef reason))"

definition payment_inv :: "payment_db \<Rightarrow> bool" where
  "payment_inv d \<longleftrightarrow> wf_payments d \<and> published d \<and> grounded d"

section \<open>Effects\<close>

definition adds_row :: "payment_db \<Rightarrow> outbox_row \<Rightarrow> payment_db \<Rightarrow> bool" where
  "adds_row d b d' \<longleftrightarrow> o_id b \<notin> o_id ` set (t_outbox d) \<and> o_processed_at b = None
     \<and> d' = d\<lparr>t_outbox := t_outbox d @ [b]\<rparr>"

text \<open>A new pending payment.\<close>

definition opens :: "payment_db \<Rightarrow> payment \<Rightarrow> payment \<Rightarrow> payment_db \<Rightarrow> bool" where
  "opens d q p d' \<longleftrightarrow> copy_of q p \<and> p_status p = p_status q
     \<and> uuid_in (p_id p) = Some (p_id p) \<and> uuid_in (p_reservation_id p) = Some (p_reservation_id p)
     \<and> 0 < p_amount_cents p
     \<and> (\<forall>x\<in>set (t_payments d). p_id x \<noteq> p_id p \<and> p_idempotency_key x \<noteq> p_idempotency_key p)
     \<and> d' = d\<lparr>t_payments := t_payments d @ [p]\<rparr>"

definition set_status :: "string \<Rightarrow> payment_status \<Rightarrow> string \<Rightarrow> string \<Rightarrow> payment_db \<Rightarrow> payment_db" where
  "set_status k st gatewayRef reason d =
     d\<lparr>t_payments := map (\<lambda>p. if p_id p = k
        then p\<lparr>p_status := st, p_gateway_ref := gatewayRef, p_failure_reason := reason\<rparr>
        else p) (t_payments d)\<rparr>"

text \<open>A decision: the row and its outcome event together.\<close>

definition decides ::
  "payment_db \<Rightarrow> payment \<Rightarrow> payment_status \<Rightarrow> string \<Rightarrow> string \<Rightarrow> outbox_row \<Rightarrow> payment_db \<Rightarrow> bool" where
  "decides d q st gatewayRef reason b d' \<longleftrightarrow> st \<noteq> PAY_PENDING
     \<and> o_event_type b = outcome_type st \<and> o_correlation_id b = p_reservation_id q
     \<and> o_payload b = PaymentOutcomePayload q gatewayRef reason \<and> o_subject b = SubjectFor (o_event_type b)
     \<and> (\<exists>k. uuid_in (p_id q) = Some k \<and> adds_row (set_status k st gatewayRef reason d) b d')"

text \<open>An outcome event of a decided payment, once more.\<close>

definition repeats :: "payment_db \<Rightarrow> payment \<Rightarrow> outbox_row \<Rightarrow> payment_db \<Rightarrow> bool" where
  "repeats d q b d' \<longleftrightarrow> p_status q \<noteq> PAY_PENDING \<and> o_event_type b = outcome_type (p_status q)
     \<and> o_correlation_id b = p_reservation_id q \<and> o_subject b = SubjectFor (o_event_type b)
     \<and> (\<exists>gatewayRef reason. o_payload b = PaymentOutcomePayload q gatewayRef reason)
     \<and> adds_row d b d'"

lemma set_status_simps [simp]:
  "t_outbox (set_status k st g r d) = t_outbox d" "t_contexts (set_status k st g r d) = t_contexts d"
  "map p_id (t_payments (set_status k st g r d)) = map p_id (t_payments d)"
  "map p_idempotency_key (t_payments (set_status k st g r d)) = map p_idempotency_key (t_payments d)"
  by (simp_all add: set_status_def map_replace_key)

lemma copy_of_status [simp]:
  "copy_of q (p\<lparr>p_status := st, p_gateway_ref := g, p_failure_reason := r\<rparr>) = copy_of q p"
  by (simp add: copy_of_def)

lemma reports_status [simp]:
  "reports b (p\<lparr>p_status := st, p_gateway_ref := g, p_failure_reason := r\<rparr>) x y = reports b p x y"
  by (simp add: reports_def)

section \<open>The effects keep the invariant\<close>

lemma opens_inv:
  assumes "payment_inv d" "opens d q p d'" "p_status q = PAY_PENDING"
  shows "payment_inv d'"
proof -
  have "wf_payments d'" using assms by (auto simp: payment_inv_def opens_def wf_payments_def)
  moreover have "published d'" using assms by (auto simp: payment_inv_def opens_def published_def)
  moreover have "grounded d'" using assms unfolding payment_inv_def opens_def grounded_def
    by auto
  ultimately show ?thesis by (simp add: payment_inv_def)
qed

lemma repeats_inv:
  assumes inv: "payment_inv d" and rep: "repeats d q b d'" and p: "p \<in> set (t_payments d)" "copy_of q p"
  shows "payment_inv d'"
proof -
  from rep obtain g r where b: "o_correlation_id b = p_reservation_id q" "o_payload b = PaymentOutcomePayload q g r"
    and new: "o_id b \<notin> o_id ` set (t_outbox d)" and d': "d' = d\<lparr>t_outbox := t_outbox d @ [b]\<rparr>"
    by (auto simp: repeats_def adds_row_def)
  have "wf_payments d'" using inv new by (auto simp: payment_inv_def wf_payments_def d')
  moreover have "published d'" using inv by (auto simp: payment_inv_def published_def d')
  moreover have "\<exists>g r. reports b p g r" using p(2) b by (auto simp: reports_def)
  with inv p(1) have "grounded d'" unfolding payment_inv_def grounded_def d' by simp blast
  ultimately show ?thesis by (simp add: payment_inv_def)
qed

lemma set_status_row:
  "x \<in> set (t_payments (set_status k st g r d)) \<longleftrightarrow>
     (\<exists>p\<in>set (t_payments d). x = (if p_id p = k
        then p\<lparr>p_status := st, p_gateway_ref := g, p_failure_reason := r\<rparr> else p))"
  by (simp add: set_status_def image_iff del: if_image_distrib)

lemma decides_inv:
  assumes inv: "payment_inv d" and dec: "decides d q st g r b d'"
    and p: "p \<in> set (t_payments d)" "copy_of q p"
  shows "payment_inv d'"
proof -
  let ?f = "\<lambda>p. p\<lparr>p_status := st, p_gateway_ref := g, p_failure_reason := r\<rparr>"
  from dec p(2) have st: "st \<noteq> PAY_PENDING" "o_event_type b = outcome_type st"
    and b: "o_correlation_id b = p_reservation_id q" "o_payload b = PaymentOutcomePayload q g r"
    and new: "o_id b \<notin> o_id ` set (t_outbox d)"
    and d': "d' = (set_status (p_id p) st g r d)\<lparr>t_outbox := t_outbox d @ [b]\<rparr>"
    by (auto simp: decides_def adds_row_def copy_of_def)
  have rows: "x \<in> set (t_payments d') \<longleftrightarrow>
      (\<exists>y\<in>set (t_payments d). x = (if p_id y = p_id p then ?f y else y))" for x
    by (simp add: d' set_status_row)
  have rb: "reports b p g r" using p(2) b by (auto simp: reports_def)
  have wf: "wf_payments d" using inv by (simp add: payment_inv_def)
  then have ids: "distinct (map p_id (t_payments d))" by (simp add: wf_payments_def)
  have maps: "map p_id (t_payments d') = map p_id (t_payments d)"
    "map p_idempotency_key (t_payments d') = map p_idempotency_key (t_payments d)"
    by (simp_all add: d')
  have "uuid_in (p_id x) = Some (p_id x) \<and> uuid_in (p_reservation_id x) = Some (p_reservation_id x)
      \<and> 0 < p_amount_cents x" if x: "x \<in> set (t_payments d')" for x
  proof -
    from x obtain y where y: "y \<in> set (t_payments d)" "x = (if p_id y = p_id p then ?f y else y)"
      by (auto simp: rows)
    with wf p(1) show ?thesis by (simp add: wf_payments_def)
  qed
  then have "wf_payments d'" using wf new unfolding wf_payments_def maps by (auto simp: d')
  moreover have "published d'"
    unfolding published_def
  proof (intro ballI impI)
    fix x assume x: "x \<in> set (t_payments d')" and dec: "p_status x \<noteq> PAY_PENDING"
    from x obtain y where y: "y \<in> set (t_payments d)" "x = (if p_id y = p_id p then ?f y else y)"
      by (auto simp: rows)
    show "\<exists>b\<in>set (t_outbox d'). o_event_type b = outcome_type (p_status x)
        \<and> reports b x (p_gateway_ref x) (p_failure_reason x)"
    proof (cases "p_id y = p_id p")
      case True
      with ids y(1) p(1) have "y = p" by (auto dest: distinct_key_eq)
      with y True st rb have "o_event_type b = outcome_type (p_status x)
          \<and> reports b x (p_gateway_ref x) (p_failure_reason x)" by simp
      then show ?thesis by (auto simp: d')
    next
      case False
      with y dec inv have "\<exists>b\<in>set (t_outbox d). o_event_type b = outcome_type (p_status x)
        \<and> reports b x (p_gateway_ref x) (p_failure_reason x)"
        by (auto simp: payment_inv_def published_def)
      then show ?thesis by (auto simp: d')
    qed
  qed
  moreover have "grounded d'"
    unfolding grounded_def
  proof (intro ballI impI)
    fix c assume c: "c \<in> set (t_outbox d')" and ty: "o_event_type c \<in> outcome_types"
    have "\<exists>y\<in>set (t_payments d). \<exists>g r. reports c y g r"
    proof (cases "c = b")
      case True
      with p(1) rb show ?thesis by blast
    next
      case False
      with c have "c \<in> set (t_outbox d)" by (simp add: d')
      with inv ty show ?thesis by (auto simp: payment_inv_def grounded_def)
    qed
    then obtain y g' r' where y: "y \<in> set (t_payments d)" "reports c y g' r'" by blast
    then have "(if p_id y = p_id p then ?f y else y) \<in> set (t_payments d')" by (auto simp: rows)
    moreover have "reports c (if p_id y = p_id p then ?f y else y) g' r'" using y(2) by simp
    ultimately show "\<exists>p\<in>set (t_payments d'). \<exists>g r. reports c p g r" by blast
  qed
  ultimately show ?thesis by (simp add: payment_inv_def)
qed

section \<open>The contract of the ports\<close>

text \<open>
  What the repositories and the sleeper promise to the processor, on a \<open>view\<close> of the
  tables: a nil error means the row is there, an error leaves open whether it is, and only the
  repositories write.
\<close>

locale payment_ports =
  fixes pc :: "'m processor" and view :: "'m world_scheme \<Rightarrow> payment_db"
  assumes view_rng: "view (w\<lparr>rng_pos := pos\<rparr>) = view w"
    and view_count: "view (count c w) = view w"
    and Get_frame: "cr_Get (contexts pc) i w = (x, w') \<Longrightarrow> view w' = view w"
    and sleep_frame: "pc_sleeper pc ctx t w = (y, w') \<Longrightarrow> view w' = view w"
    and Create_ok: "pr_Create (payments pc) q w = (Inr u, w') \<Longrightarrow>
      \<exists>p. opens (view w) q p (view w')"
    and Create_err: "pr_Create (payments pc) q w = (Inl e, w') \<Longrightarrow>
      view w' = view w \<or> (\<exists>p. opens (view w) q p (view w'))"
    and Find_ok: "pr_GetByIdempotencyKey (payments pc) key w = (Inr q, w') \<Longrightarrow>
      view w' = view w \<and> find_payment (view w) key = Some q"
    and Find_err: "pr_GetByIdempotencyKey (payments pc) key w = (Inl e, w') \<Longrightarrow> view w' = view w"
    and UpdateStatus_ok: "pr_UpdateStatus (payments pc) i st g r w = (Inr u, w') \<Longrightarrow>
      \<exists>k. uuid_in i = Some k \<and> view w' = set_status k st g r (view w)"
    and Enqueue_ok: "enqueue pc [rec] w = (Inr u, w') \<Longrightarrow>
      \<exists>b. adds_row (view w) b (view w') \<and> o_event_type b = ob_event_type rec
        \<and> o_correlation_id b = ob_correlation_id rec \<and> Some (o_payload b) = ob_payload rec
        \<and> o_subject b = ob_subject rec"
    and Enqueue_err: "enqueue pc [rec] w = (Inl e, w') \<Longrightarrow> view w' = view w \<or>
      (\<exists>b. adds_row (view w) b (view w') \<and> o_event_type b = ob_event_type rec
        \<and> o_correlation_id b = ob_correlation_id rec \<and> Some (o_payload b) = ob_payload rec
        \<and> o_subject b = ob_subject rec)"
begin

lemma record_payment_run:
  assumes "record_payment pc ty q g r w = (x, w')"
  obtains rec where "x = Inr rec" "view w' = view w" "ob_event_type rec = ty" "ob_subject rec = SubjectFor ty"
    "ob_correlation_id rec = p_reservation_id q" "ob_payload rec = Some (PaymentOutcomePayload q g r)"
proof (cases x)
  case (Inl e)
  with assms show ?thesis by (auto simp: record_payment_def dest: record_event_Inl)
next
  case (Inr rec)
  with assms have "record_event (pc_source pc) ty (p_reservation_id q) ''''
      (Inr (PaymentOutcomePayload q g r)) w = (Inr rec, w')"
    by (simp add: record_payment_def)
  from record_event_Inr [OF this] Inr that view_rng show ?thesis by auto
qed

text \<open>The write of \<open>finish\<close> is a decision.\<close>

lemma finish_write_decides:
  assumes run: "finish_write pc q g r approved rec w = (Inr u, w')"
    and rec: "ob_event_type rec = (if approved then TypePaymentSucceeded else TypePaymentFailed)"
      "ob_correlation_id rec = p_reservation_id q" "ob_payload rec = Some (PaymentOutcomePayload q g r)"
      "ob_subject rec = SubjectFor (ob_event_type rec)"
  shows "\<exists>b. decides (view w) q (if approved then PAY_SUCCEEDED else PAY_FAILED) g r b (view w')"
proof -
  let ?st = "if approved then PAY_SUCCEEDED else PAY_FAILED"
  from run obtain w1 where up: "pr_UpdateStatus (payments pc) (p_id q) ?st g r w = (Inr (), w1)"
    and en: "enqueue pc [rec] w1 = (Inr u, w')"
    by (auto simp: finish_write_def andThen_Inr)
  from UpdateStatus_ok [OF up] Enqueue_ok [OF en] rec show ?thesis
    unfolding decides_def by force
qed

text \<open>Recording a decided payment again only adds its outcome event.\<close>

lemma recordOutcome_repeats:
  assumes run: "recordOutcome pc q w = (x, w')"
  shows "view w' = view w \<or> (\<exists>b. repeats (view w) q b (view w'))"
proof -
  have *: "view w' = view w \<or> (\<exists>b. repeats (view w) q b (view w'))"
    if r: "andThen (record_payment pc (outcome_type (p_status q)) q g r) (\<lambda>rec. enqueue pc [rec]) w = (x, w')"
      and d: "p_status q \<noteq> PAY_PENDING" for g r
  proof -
    obtain y w1 where y: "record_payment pc (outcome_type (p_status q)) q g r w = (y, w1)" by fastforce
    then obtain rec where rec: "y = Inr rec" "view w1 = view w" "ob_event_type rec = outcome_type (p_status q)"
      "ob_subject rec = SubjectFor (outcome_type (p_status q))" "ob_correlation_id rec = p_reservation_id q" "ob_payload rec = Some (PaymentOutcomePayload q g r)"
      by (rule record_payment_run)
    with r y have "enqueue pc [rec] w1 = (x, w')" by (simp add: andThen_def)
    with rec have "view w' = view w \<or> (\<exists>b. adds_row (view w) b (view w')
        \<and> o_event_type b = outcome_type (p_status q) \<and> o_correlation_id b = p_reservation_id q
        \<and> o_payload b = PaymentOutcomePayload q g r \<and> o_subject b = SubjectFor (o_event_type b))"
      by (cases x) (fastforce dest!: Enqueue_ok Enqueue_err)+
    with d show ?thesis unfolding repeats_def by blast
  qed
  show ?thesis
  proof (cases "p_status q")
    case PAY_PENDING
    with run show ?thesis by (simp add: recordOutcome_def)
  next
    case PAY_SUCCEEDED
    with run show ?thesis by (intro * [of "p_gateway_ref q" "[]"]) (simp_all add: recordOutcome_def)
  next
    case PAY_FAILED
    with run show ?thesis by (intro * [of "[]" "p_failure_reason q"]) (simp_all add: recordOutcome_def)
  qed
qed

lemma loadOrCreate_effect:
  assumes run: "loadOrCreate pc req c key w = (x, w')"
  shows "view w' = view w \<or>
      (\<exists>i p. opens (view w) (new_payment req c key i) p (view w'))"
    and "x = Inr q \<Longrightarrow> (\<exists>i p. q = new_payment req c key i \<and> opens (view w) q p (view w'))
      \<or> find_payment (view w') key = Some q"
proof -
  obtain i w1 where u: "uid_New w = (i, w1)" by fastforce
  then have v1: "view w1 = view w" using view_rng by (auto simp: uid_New_def)
  let ?n = "new_payment req c key i"
  obtain y w2 where y: "pr_Create (payments pc) ?n w1 = (y, w2)" by fastforce
  show "view w' = view w \<or> (\<exists>i p. opens (view w) (new_payment req c key i) p (view w'))"
    using run u y v1
    by (cases y; cases x) (auto simp: loadOrCreate_def reading_def onResult_def wrapErr_def
        split: if_splits prod.splits sum.splits dest!: Create_ok Create_err Find_ok Find_err)
  show "x = Inr q \<Longrightarrow> (\<exists>i p. q = new_payment req c key i \<and> opens (view w) q p (view w'))
      \<or> find_payment (view w') key = Some q"
    using run u y v1
    by (cases y) (auto simp: loadOrCreate_def reading_def onResult_def wrapErr_def
        split: if_splits prod.splits sum.splits dest!: Create_ok Create_err Find_ok Find_err)
qed

lemma wait_loop_frame: "wait_loop pc ctx i e n w = (x, w') \<Longrightarrow> view w' = view w"
proof (induction n arbitrary: w)
  case 0
  then show ?case by (auto simp: view_count)
next
  case (Suc n)
  obtain s w1 where s: "pc_sleeper pc ctx (pc_delay pc) w = (s, w1)" by fastforce
  obtain y w2 where y: "cr_Get (contexts pc) i w1 = (y, w2)" by fastforce
  from Suc.prems s y sleep_frame [OF s] Get_frame [OF y] Suc.IH [of w2] show ?case
    by (auto simp: onResult_def view_count split: sum.splits if_splits)
qed

lemma waitContext_frame:
  assumes "waitContext pc ctx i w = (x, w')" shows "view w' = view w"
proof -
  obtain y w1 where y: "cr_Get (contexts pc) i w = (y, w1)" by fastforce
  with assms Get_frame [OF y] show ?thesis
    by (auto simp: waitContext_def onResult_def split: sum.splits if_splits dest: wait_loop_frame)
qed

end

section \<open>The PostgreSQL adapters meet the contract\<close>

text \<open>
  The acquirer is a remote service: it may take time and draw random numbers, but it has no access
  to the payment database.
\<close>

definition no_database :: "'m payment_world \<Rightarrow> 'm payment_world \<Rightarrow> bool" where
  "no_database w w' \<longleftrightarrow> db w' = db w \<and> tx w' = tx w \<and> faults w' = faults w
     \<and> rng w' = rng w \<and> rng_pos w \<le> rng_pos w'"

definition acquirer_safe :: "(payment_db, 'm) pg_world_ext acquirer \<Rightarrow> bool" where
  "acquirer_safe acq \<longleftrightarrow> (\<forall>ctx req w. no_database w (snd (acq ctx req w)))"

lemma simulated_acquirer_safe:
  fixes draw :: "'m payment_world \<Rightarrow> int \<times> 'm payment_world"
  assumes "\<And>w. no_database w (snd (draw w))"
  shows "acquirer_safe (SimulatedAcquirer_Charge draw a)"
  unfolding acquirer_safe_def
proof (intro allI)
  fix ctx req and w :: "'m payment_world"
  define m :: "('m payment_world, unit) op" where
    "m = (if 0 < sa_delay a then await ctx (sa_delay a) else ok ())"
  obtain x w1 where m: "m w = (x, w1)" by fastforce
  then have f: "no_database w w1"
    by (auto simp: m_def no_database_def split: if_splits dest: await_frame)
  show "no_database w (snd (SimulatedAcquirer_Charge draw a ctx req w))"
    using f m assms [of w1]
    by (auto simp: SimulatedAcquirer_Charge_def m_def [symmetric] andThen_def reading_def uid_New_def
        no_database_def split: sum.splits prod.splits)
qed

lemma opens_insert:
  assumes "insert_payment q now d = (Inr m, d')"
  shows "\<exists>p. opens d q p d'"
proof -
  from assms obtain i r cur where "uuid_in (p_id q) = Some i" "uuid_in (p_reservation_id q) = Some r"
    and "0 < p_amount_cents q"
    and "\<forall>x\<in>set (t_payments d). p_id x \<noteq> i \<and> p_idempotency_key x \<noteq> p_idempotency_key q"
    and "d' = d\<lparr>t_payments := t_payments d @ [q\<lparr>p_id := i, p_reservation_id := r, p_currency := cur,
           p_gateway_ref := '''', p_failure_reason := ''''\<rparr>]\<rparr>"
    by (auto simp: insert_payment_def split: option.splits if_splits)
  then have "opens d q (q\<lparr>p_id := i, p_reservation_id := r, p_currency := cur,
      p_gateway_ref := '''', p_failure_reason := ''''\<rparr>) d'"
    by (auto simp: opens_def copy_of_def intro: uuid_in_canonical)
  then show ?thesis ..
qed

lemma Payments_Create_ok:
  "Payments_Create q w = (Inr u, w') \<Longrightarrow> \<exists>p. opens (db w) q p (db w')"
  by (auto simp: Payments_Create_def andThen_Inr elim!: stmt_Inr dest: opens_insert)

lemma Payments_Create_err:
  assumes "Payments_Create q w = (Inl e, w')"
  shows "db w' = db w \<or> (\<exists>p. opens (db w) q p (db w'))"
proof -
  from assms obtain e0 where "stmt (insert_payment q) w = (Inl e0, w')"
    by (auto simp: Payments_Create_def wrapErr_Inl andThen_Inl)
  from stmt_Inl [OF this] show ?thesis by (auto dest: opens_insert)
qed

lemma Find_payment_read:
  assumes "GetByIdempotencyKey key w = (Inr q, w')"
  shows "db w' = db w \<and> find_payment (db w) key = Some q"
proof -
  from assms have "stmt (select_payment key) w = (Inr (Some q), w')"
    by (auto simp: GetByIdempotencyKey_def andThen_Inr split: option.splits)
  then show ?thesis by (rule stmt_Inr) (auto simp: select_payment_def split: if_splits)
qed

lemma select_payment_db: "stmt (select_payment key) w = (x, w') \<Longrightarrow> db w' = db w"
  by (cases x) (auto simp: select_payment_def split: if_splits dest!: stmt_Inl elim!: stmt_Inr)

lemma Find_payment_db: "GetByIdempotencyKey key w = (x, w') \<Longrightarrow> db w' = db w"
  by (cases x) (auto simp: GetByIdempotencyKey_def op_simps dest: select_payment_db split: option.splits)

lemma context_by_id_db: "stmt (by_id i q) w = (x, w') \<Longrightarrow> db w' = db w"
  by (cases x) (auto simp: by_id_Inr dest!: stmt_Inl elim!: stmt_Inr)

lemma Contexts_Get_db: "Contexts_Get i w = (x, w') \<Longrightarrow> db w' = db w"
  by (cases x) (auto simp: Contexts_Get_def op_simps dest: context_by_id_db split: option.splits)

lemma UpdateStatus_write:
  "UpdateStatus i st g r w = (Inr u, w') \<Longrightarrow>
     \<exists>k. uuid_in i = Some k \<and> db w' = set_status k st g r (db w)"
  by (auto simp: UpdateStatus_def andThen_Inr update_payment_def set_status_def
      elim!: stmt_Inr split: option.splits if_splits)

lemma insert_batch_adds_one:
  assumes "insert_batch [rec] (t_outbox d) = Inr rows"
  shows "\<exists>b. adds_row d b (d\<lparr>t_outbox := rows\<rparr>) \<and> o_event_type b = ob_event_type rec
    \<and> o_correlation_id b = ob_correlation_id rec \<and> Some (o_payload b) = ob_payload rec
        \<and> o_subject b = ob_subject rec"
  using assms by (auto simp: adds_row_def split: sum.splits dest!: insert_outbox_Inr)

lemma Payment_Enqueue_ok:
  "Payment_Enqueue [rec] w = (Inr u, w') \<Longrightarrow>
     \<exists>b. adds_row (db w) b (db w') \<and> o_event_type b = ob_event_type rec
       \<and> o_correlation_id b = ob_correlation_id rec \<and> Some (o_payload b) = ob_payload rec
        \<and> o_subject b = ob_subject rec"
  by (auto simp: Payment_Enqueue_def Enqueue_def elim!: stmt_Inr dest: insert_batch_adds_one
      split: sum.splits simp del: insert_batch.simps)

lemma Payment_Enqueue_err:
  assumes "Payment_Enqueue [rec] w = (Inl e, w')"
  shows "db w' = db w \<or> (\<exists>b. adds_row (db w) b (db w') \<and> o_event_type b = ob_event_type rec
       \<and> o_correlation_id b = ob_correlation_id rec \<and> Some (o_payload b) = ob_payload rec
        \<and> o_subject b = ob_subject rec)"
  using assms
  by (auto simp: Payment_Enqueue_def Enqueue_def dest!: stmt_Inl insert_batch_adds_one
      split: sum.splits simp del: insert_batch.simps)

interpretation pay: payment_ports "payment_processor acq" db
proof unfold_locales
  show "pc_sleeper (payment_processor acq) ctx t w = (y, w') \<Longrightarrow> db w' = db w" for ctx t w y w'
    by (auto simp: sleepFor_def dest: await_frame)
qed (auto simp: count_def dest: Contexts_Get_db Payments_Create_ok Payments_Create_err Find_payment_read
    Find_payment_db UpdateStatus_write Payment_Enqueue_ok Payment_Enqueue_err)

lemma payment_tx_bodies [tx_keep]:
  "tx_body (Payments_Create q)" "tx_body (GetByIdempotencyKey key)" "tx_body (UpdateStatus i st g r)"
  "tx_body (Contexts_Upsert c)" "tx_body (Contexts_Get i)" "tx_body (Payment_Enqueue recs)"
  unfolding Payments_Create_def GetByIdempotencyKey_def UpdateStatus_def Contexts_Upsert_def
    Contexts_Get_def Payment_Enqueue_def
  by (intro tx_keep)+

end
