(* ===== verification/Payment_System.thy ===== *)
theory Payment_System
  imports Payment_Ledger
begin

text \<open>
  The payment service as a concurrent system: deliveries of the same command may overlap, the process
  may crash between its statements, and any statement may fail or lose its reply.  A delivery that
  has loaded its payment keeps what it read while others go on.
\<close>

section \<open>What a delivery may do to the tables\<close>

lemma acquirer_frame:
  "acquirer_safe acq \<Longrightarrow> acq ctx req w = (x, w') \<Longrightarrow> no_database w w'"
  by (metis acquirer_safe_def snd_conv)

lemma count_tx [simp]: "tx (count c w) = tx w" "db (count c w) = db w"
  by (simp_all add: count_def)

lemma finish_effect:
  assumes run: "finish (payment_processor acq) q g r approved w = (x, w')" and tx: "tx w = NoTx"
  shows "tx w' = NoTx \<and> (db w' = db w \<or>
    (\<exists>b. decides (db w) q (if approved then PAY_SUCCEEDED else PAY_FAILED) g r b (db w')))"
    and "x = Inr u \<Longrightarrow>
    \<exists>b. decides (db w) q (if approved then PAY_SUCCEEDED else PAY_FAILED) g r b (db w')"
proof -
  let ?ty = "if approved then TypePaymentSucceeded else TypePaymentFailed"
  let ?P = "\<lambda>_ d d'. \<exists>b. decides d q (if approved then PAY_SUCCEEDED else PAY_FAILED) g r b d'"
  obtain y w1 where y: "record_payment (payment_processor acq) ?ty q g r
      (count (recordChargeOutcome approved r) w) = (y, w1)" by fastforce
  then obtain rec where rec: "y = Inr rec" "db w1 = db w" "ob_event_type rec = ?ty"
    "ob_correlation_id rec = p_reservation_id q" "ob_payload rec = Some (PaymentOutcomePayload q g r)"
    "ob_subject rec = SubjectFor (ob_event_type rec)"
    by (rule pay.record_payment_run) simp
  have w1: "tx w1 = NoTx"
    using y rec(1) tx by (auto simp: record_payment_def dest!: record_event_Inr)
  from run y rec have run': "WithinTx (finish_write (payment_processor acq) q g r approved rec) w1 = (x, w')"
    by (simp add: finish_def andThen_def)
  have body: "tx_body (finish_write (payment_processor acq) q g r approved rec)"
    unfolding finish_write_def payment_processor_simps pg_repositories by (intro tx_keep)+
  have eff: "?P a (db w1) (db w2)"
    if "finish_write (payment_processor acq) q g r approved rec (begun w1) = (Inr a, w2)" for a w2
    using pay.finish_write_decides [OF that rec(3-6)] by simp
  from unit_of_work [OF run' w1 body, of ?P] eff rec(2)
  show "tx w' = NoTx \<and> (db w' = db w \<or>
    (\<exists>b. decides (db w) q (if approved then PAY_SUCCEEDED else PAY_FAILED) g r b (db w')))"
    and "x = Inr u \<Longrightarrow>
    \<exists>b. decides (db w) q (if approved then PAY_SUCCEEDED else PAY_FAILED) g r b (db w')"
    by auto
qed

lemma finish_decides:
  assumes "finish (payment_processor acq) q g r approved w = (x, w')" "tx w = NoTx"
  shows "tx w' = NoTx" "db w' = db w \<or> (\<exists>st g r b. decides (db w) q st g r b (db w'))"
  using finish_effect(1) [OF assms] by blast+

lemma record_payment_tx [tx_keep]:
  fixes pc :: "('db, 'm) pg_world_ext processor"
  shows "tx_body (record_payment pc ty q g r)"
proof (rule tx_bodyI)
  fix w w' :: "('db, 'm) pg_world_scheme" and x
  assume "record_payment pc ty q g r w = (x, w')"
  then have "w' = w \<or> w' = w\<lparr>rng_pos := rng_pos w + 16\<rparr>"
    unfolding record_payment_def using record_event_Inr record_event_Inl by (cases x) fastforce+
  then show "tx_of w' = tx_of w" by auto
qed

lemma recordOutcome_tx [tx_keep]: "tx_body (recordOutcome (payment_processor acq) q)"
  unfolding recordOutcome_def payment_processor_simps by (cases "p_status q") (auto intro!: tx_keep)

lemma uid_tx [simp]: "tx_of (snd (uid_New w)) = tx_of w"
  by (simp add: uid_New_def)

lemma loadOrCreate_tx [tx_keep]: "tx_body (loadOrCreate (payment_processor acq) req c key)"
  unfolding loadOrCreate_def payment_processor_simps pg_repositories
  by (intro tx_keep uid_tx)

lemma wait_loop_tx [tx_keep]: "tx_body (wait_loop (payment_processor acq) ctx i e n)"
proof (induction n)
  case (Suc n)
  have "tx_body (sleepFor ctx t :: ('m payment_world, unit) op)" for t
    by (rule tx_bodyI) (auto simp: sleepFor_def dest: await_frame)
  with Suc show ?case
    unfolding wait_loop.simps payment_processor_simps pg_repositories by (intro tx_keep)
qed (simp only: wait_loop.simps, intro tx_keep)

lemma waitContext_tx [tx_keep]: "tx_body (waitContext (payment_processor acq) ctx i)"
  unfolding waitContext_def payment_processor_simps pg_repositories by (intro tx_keep)

text \<open>
  The decision on a loaded payment: nothing, the outcome of a decided payment once more, or the
  decision of a pending one together with its outcome.
\<close>

lemma decide_effect:
  assumes run: "decide (payment_processor acq) ctx req c key q w = (x, w')"
    and tx: "tx w = NoTx" and acq: "acquirer_safe acq"
  shows "tx w' = NoTx" "db w' = db w \<or> (\<exists>b. repeats (db w) q b (db w'))
    \<or> (p_status q = PAY_PENDING \<and> (\<exists>st g r b. decides (db w) q st g r b (db w')))"
proof -
  have "tx w' = NoTx \<and> (db w' = db w \<or> (\<exists>b. repeats (db w) q b (db w'))
    \<or> (p_status q = PAY_PENDING \<and> (\<exists>st g r b. decides (db w) q st g r b (db w'))))"
  proof (cases "p_status q = PAY_PENDING")
    case False
    with run have "recordOutcome (payment_processor acq) q w = (x, w')" by (simp add: decide_def)
    with pay.recordOutcome_repeats [OF this] tx_body_NoTx [OF recordOutcome_tx this tx]
    show ?thesis by auto
  next
    case True
    show ?thesis
    proof (cases "time_after (wall w) (c_expires_at c)")
      case late: True
      with run True have "finish (payment_processor acq) q '''' ''reservation window elapsed'' False w = (x, w')"
        by (simp add: decide_def reading_def)
      from finish_decides [OF this tx] True show ?thesis by blast
    next
      case False
      obtain y w1 where y: "acq ctx (charge_for req q key) w = (y, w1)" by fastforce
      from acquirer_frame [OF acq y] tx have w1: "tx w1 = NoTx" "db w1 = db w"
        by (auto simp: no_database_def)
      from run True False y obtain g r a where "finish (payment_processor acq) q g r a w1 = (x, w')"
        by (cases y) (auto simp: decide_def reading_def onResult_def)
      from finish_decides [OF this w1(1)] w1(2) True show ?thesis by auto
    qed
  qed
  then show "tx w' = NoTx" "db w' = db w \<or> (\<exists>b. repeats (db w) q b (db w'))
    \<or> (p_status q = PAY_PENDING \<and> (\<exists>st g r b. decides (db w) q st g r b (db w')))"
    by auto
qed

section \<open>The system\<close>

type_synonym attempt = "payment_requested \<times> reservation_context \<times> string \<times> payment"
type_synonym 'm payment_sys = "'m payment_world \<times> attempt list"

inductive payment_step ::
  "(payment_db, 'm) pg_world_ext acquirer \<Rightarrow> 'm payment_sys \<Rightarrow> 'm payment_sys \<Rightarrow> bool" for acq where
  project: "onTicketReserved pg_contexts msg w = (x, w') \<Longrightarrow> payment_step acq (w, ps) (w', ps)"
| await_context: "waitContext (payment_processor acq) ctx i w = (x, w') \<Longrightarrow>
     payment_step acq (w, ps) (w', ps)"
| load: "loadOrCreate (payment_processor acq) req c key w = (Inr q, w') \<Longrightarrow>
     payment_step acq (w, ps) (w', (req, c, key, q) # ps)"
| load_failed: "loadOrCreate (payment_processor acq) req c key w = (Inl e, w') \<Longrightarrow>
     payment_step acq (w, ps) (w', ps)"
| decided: "(req, c, key, q) \<in> set ps \<Longrightarrow>
     decide (payment_processor acq) ctx req c key q w = (x, w') \<Longrightarrow>
     payment_step acq (w, ps) (w', remove1 (req, c, key, q) ps)"
| crash: "payment_step acq (w, ps) (w, remove1 a ps)"
| environment: "payment_step acq (w, ps) (w\<lparr>wall := t, pg_clock := t', faults := fs\<rparr>, ps)"
| relayed: "payment_step acq (w, ps) (w\<lparr>db := (db w)\<lparr>t_outbox :=
     map (\<lambda>b. if o_id b \<in> S then b\<lparr>o_processed_at := Some t\<rparr> else b) (t_outbox (db w))\<rparr>\<rparr>, ps)"

inductive payment_reachable :: "(payment_db, 'm) pg_world_ext acquirer \<Rightarrow> 'm payment_sys \<Rightarrow> bool"
  for acq where
  start: "t_payments (db w) = [] \<Longrightarrow> t_outbox (db w) = [] \<Longrightarrow> tx w = NoTx \<Longrightarrow>
     payment_reachable acq (w, [])"
| step: "payment_reachable acq s \<Longrightarrow> payment_step acq s s' \<Longrightarrow> payment_reachable acq s'"

definition known :: "payment_db \<Rightarrow> attempt \<Rightarrow> bool" where
  "known d a \<longleftrightarrow> (\<exists>p\<in>set (t_payments d). copy_of (snd (snd (snd a))) p)"

definition payment_sys_inv :: "'m payment_sys \<Rightarrow> bool" where
  "payment_sys_inv s \<longleftrightarrow> tx (fst s) = NoTx \<and> payment_inv (db (fst s))
     \<and> (\<forall>a\<in>set (snd s). known (db (fst s)) a)"

section \<open>Every step keeps the invariant\<close>

lemma set_status_known:
  assumes "known d a" shows "known (set_status k st g r d) a"
proof -
  from assms obtain p where p: "p \<in> set (t_payments d)" "copy_of (snd (snd (snd a))) p"
    by (auto simp: known_def)
  let ?p = "if p_id p = k then p\<lparr>p_status := st, p_gateway_ref := g, p_failure_reason := r\<rparr> else p"
  have "?p \<in> set (t_payments (set_status k st g r d))" using p(1) by (auto simp: set_status_row)
  moreover have "copy_of (snd (snd (snd a))) ?p" using p(2) by simp
  ultimately show ?thesis unfolding known_def by blast
qed

lemma known_rows: "t_payments d' = t_payments d \<Longrightarrow> known d' a = known d a"
  by (simp add: known_def)

lemma effects_known:
  assumes "known d a"
  shows "opens d q p d' \<Longrightarrow> known d' a" "repeats d q b d' \<Longrightarrow> known d' a"
    "decides d q st g r b d' \<Longrightarrow> known d' a"
proof -
  show "opens d q p d' \<Longrightarrow> known d' a" using assms by (auto simp: opens_def known_def)
  show "repeats d q b d' \<Longrightarrow> known d' a" using assms by (auto simp: repeats_def adds_row_def known_def)
  assume "decides d q st g r b d'"
  then obtain k where "t_payments d' = t_payments (set_status k st g r d)"
    by (auto simp: decides_def adds_row_def)
  with set_status_known [OF assms] known_rows show "known d' a" by blast
qed

lemma contexts_inv:
  "t_payments d' = t_payments d \<Longrightarrow> t_outbox d' = t_outbox d \<Longrightarrow> payment_inv d' = payment_inv d"
  by (simp add: payment_inv_def wf_payments_def published_def grounded_def)

lemma upsert_keeps:
  "upsert_context c now d = (x, d') \<Longrightarrow> t_payments d' = t_payments d \<and> t_outbox d' = t_outbox d"
  by (auto simp: upsert_context_def Let_def split: option.splits if_splits)

lemma upsert_rows:
  "stmt (upsert_context c) w = (x, w') \<Longrightarrow>
     t_payments (db w') = t_payments (db w) \<and> t_outbox (db w') = t_outbox (db w)"
  by (cases x) (auto dest!: stmt_Inl upsert_keeps elim!: stmt_Inr)

lemma project_frame:
  assumes "onTicketReserved pg_contexts msg w = (x, w')"
  shows "t_payments (db w') = t_payments (db w) \<and> t_outbox (db w') = t_outbox (db w)"
    "tx w = NoTx \<Longrightarrow> tx w' = NoTx"
proof -
  show "t_payments (db w') = t_payments (db w) \<and> t_outbox (db w') = t_outbox (db w)"
    using assms
    by (cases x) (auto simp: onTicketReserved_def Contexts_Upsert_def op_simps split: sum.splits
        dest: upsert_rows)
  have "tx_body (onTicketReserved pg_contexts msg)"
    unfolding onTicketReserved_def pg_repositories by (intro tx_keep)
  from tx_body_NoTx [OF this assms] show "tx w = NoTx \<Longrightarrow> tx w' = NoTx" .
qed

lemma reports_processed: "reports (b\<lparr>o_processed_at := t\<rparr>) = reports b"
  by (simp add: reports_def fun_eq_iff)

lemma relayed_payment_inv:
  assumes "payment_inv d"
  shows "payment_inv (d\<lparr>t_outbox := map (\<lambda>b. if c b then b\<lparr>o_processed_at := t\<rparr> else b) (t_outbox d)\<rparr>)"
    (is "payment_inv ?d")
proof -
  let ?f = "\<lambda>b. if c b then b\<lparr>o_processed_at := t\<rparr> else b"
  have same: "reports (?f b) p g r = reports b p g r" "o_event_type (?f b) = o_event_type b" for b p g r
    by (simp_all add: reports_def)
  have ids: "map o_id (t_outbox ?d) = map o_id (t_outbox d)" by simp
  have "wf_payments ?d" using assms unfolding payment_inv_def wf_payments_def ids by simp
  moreover have "published ?d"
    unfolding published_def
  proof (intro ballI impI)
    fix p assume p: "p \<in> set (t_payments ?d)" "p_status p \<noteq> PAY_PENDING"
    with assms obtain b where "b \<in> set (t_outbox d)" "o_event_type b = outcome_type (p_status p)"
      "reports b p (p_gateway_ref p) (p_failure_reason p)"
      by (auto simp: payment_inv_def published_def)
    then have "?f b \<in> set (t_outbox ?d) \<and> o_event_type (?f b) = outcome_type (p_status p)
        \<and> reports (?f b) p (p_gateway_ref p) (p_failure_reason p)"
      unfolding same by simp
    then show "\<exists>b\<in>set (t_outbox ?d). o_event_type b = outcome_type (p_status p)
        \<and> reports b p (p_gateway_ref p) (p_failure_reason p)" by blast
  qed
  moreover have "grounded ?d"
    using assms unfolding payment_inv_def grounded_def by (auto simp: reports_processed)
  ultimately show ?thesis by (simp add: payment_inv_def)
qed

lemma load_inv:
  assumes run: "loadOrCreate (payment_processor acq) req c key w = (x, w')"
    and inv: "payment_inv (db w)"
  shows "payment_inv (db w')" "x = Inr q \<Longrightarrow> known (db w') (req, c, key, q)"
    "known (db w) a \<Longrightarrow> known (db w') a"
proof -
  note eff = pay.loadOrCreate_effect [OF run]
  from eff(1) show "known (db w) a \<Longrightarrow> known (db w') a" using effects_known(1) by metis
  have *: "payment_inv (db w')" using eff(1) inv opens_inv by (fastforce simp: new_payment_def)
  then show "payment_inv (db w')" .
  assume "x = Inr q"
  from eff(2) [OF this] show "known (db w') (req, c, key, q)"
  proof
    assume "\<exists>i p. q = new_payment req c key i \<and> opens (db w) q p (db w')"
    then show ?thesis by (auto simp: opens_def known_def)
  next
    assume "find_payment (db w') key = Some q"
    then have "q \<in> set (t_payments (db w'))" by (auto simp: find_payment_def dest: find_SomeD)
    moreover with * have "copy_of q q" by (auto simp: payment_inv_def wf_payments_def copy_of_def)
    ultimately show ?thesis by (auto simp: known_def)
  qed
qed

lemma payment_step_inv:
  assumes "payment_step acq s s'" "acquirer_safe acq" "payment_sys_inv s"
  shows "payment_sys_inv s'"
  using assms(1,3)
proof (cases rule: payment_step.cases)
  case (project msg w x w' ps)
  from project_frame [OF project(3)] have rows: "t_payments (db w') = t_payments (db w)"
    "t_outbox (db w') = t_outbox (db w)" "tx w = NoTx \<Longrightarrow> tx w' = NoTx" by auto
  from assms(3) rows show ?thesis
    by (simp add: payment_sys_inv_def project(1,2) contexts_inv [OF rows(1,2)] known_rows [OF rows(1)])
next
  case (await_context ctx i w x w' ps)
  with assms(3) pay.waitContext_frame [OF await_context(3)] tx_body_NoTx [OF waitContext_tx await_context(3)]
  show ?thesis by (auto simp: payment_sys_inv_def)
next
  case (load req c key w q w' ps)
  with assms(3) load_inv [OF load(3)] tx_body_NoTx [OF loadOrCreate_tx load(3)] show ?thesis
    by (auto simp: payment_sys_inv_def)
next
  case (load_failed req c key w e w' ps)
  with assms(3) load_inv [OF load_failed(3)] tx_body_NoTx [OF loadOrCreate_tx load_failed(3)] show ?thesis
    by (auto simp: payment_sys_inv_def)
next
  case (decided req c key q ps ctx w x w')
  from assms(3) decided(1) have inv: "tx w = NoTx" "payment_inv (db w)"
    and kn: "\<forall>a\<in>set ps. known (db w) a" by (auto simp: payment_sys_inv_def)
  from kn decided(3) obtain p where p: "p \<in> set (t_payments (db w))" "copy_of q p"
    by (auto simp: known_def)
  note eff = decide_effect [OF decided(4) inv(1) assms(2)]
  have "payment_inv (db w')" using eff(2) inv(2) p repeats_inv decides_inv by metis
  moreover have "known (db w') a" if "known (db w) a" for a
    using eff(2) effects_known [OF that] that by metis
  ultimately show ?thesis
    using eff(1) kn set_remove1_subset [of "(req, c, key, q)" ps]
    by (auto simp: payment_sys_inv_def decided(2) subset_iff)
next
  case (relayed w ps S t)
  with assms(3) relayed_payment_inv [of "db w" "\<lambda>b. o_id b \<in> S" "Some t"] show ?thesis
    by (auto simp: payment_sys_inv_def known_def)
qed (auto simp: payment_sys_inv_def dest: notin_set_remove1)

lemma payment_reachable_inv:
  assumes "payment_reachable acq s" "acquirer_safe acq" shows "payment_sys_inv s"
  using assms(1)
proof induction
  case (start w)
  then show ?case
    by (simp add: payment_sys_inv_def payment_inv_def wf_payments_def published_def grounded_def)
next
  case (step s s')
  with assms(2) payment_step_inv show ?case by blast
qed

end
