(* ===== verification/Payment_Progress.thy ===== *)
theory Payment_Progress
  imports Payment_System
begin

text \<open>
  The processor on a healthy connection: each operation of a delivery runs to its end, and the end is
  given; then the facts that hold whatever fails, about what a delivery reads.
\<close>

section \<open>The adapters succeed\<close>

lemma Contexts_Get_run:
  assumes "healthy w" "uuid_in i = Some k"
  shows "Contexts_Get i w =
    ((case find_context (db w) k of None \<Rightarrow> Inl (Sentinel ErrContextNotFound) | Some c \<Rightarrow> Inr c), w)"
  unfolding Contexts_Get_def
  using stmt_run [OF assms(1), of "by_id i (\<lambda>k d. find_context d k)"] assms(2)
  by (simp add: by_id_def andThen_def split: option.splits)

lemma waitContext_run:
  assumes "healthy w" "uuid_in i = Some k" "find_context (db w) k = Some c"
  shows "waitContext (payment_processor acq) ctx i w = (Inr c, w)"
  using Contexts_Get_run [OF assms(1,2)] assms(3) by (simp add: waitContext_def onResult_def)

lemma Find_payment_run:
  assumes "healthy w" "text_ok key" "find_payment (db w) key = Some p"
  shows "GetByIdempotencyKey key w = (Inr p, w)"
  unfolding GetByIdempotencyKey_def
  using stmt_run [OF assms(1), of "select_payment key"] assms(2,3)
  by (simp add: select_payment_def andThen_def)

text \<open>A command for a reservation whose projection has landed, from its owner.\<close>

definition payable :: "payment_db \<Rightarrow> payment_requested \<Rightarrow> reservation_context \<Rightarrow> string \<Rightarrow> bool" where
  "payable d req c key \<longleftrightarrow>
     (\<exists>k. uuid_in (q_reservation_id req) = Some k \<and> find_context d k = Some c)
   \<and> text_ok (q_reservation_id req) \<and> q_user_id req = c_user_id c \<and> q_user_id req \<noteq> ''''
   \<and> key \<noteq> '''' \<and> text_ok key \<and> text_ok (c_user_id c) \<and> text_ok (c_currency c)
   \<and> length (c_currency c) = 3 \<and> 0 < c_amount_cents c"

definition fresh_ids :: "'m payment_world \<Rightarrow> bool" where
  "fresh_ids w \<longleftrightarrow> (\<forall>n \<ge> rng_pos w. uid_of_bytes (map (\<lambda>i. rng w (n + i)) [0..<16])
     \<notin> o_id ` set (t_outbox (db w)) \<union> p_id ` set (t_payments (db w)))"

lemma fresh_uid:
  assumes "fresh_ids w"
  shows "fst (uid_New w) \<notin> o_id ` set (t_outbox (db w))" "fst (uid_New w) \<notin> p_id ` set (t_payments (db w))"
  using assms by (auto simp: fresh_ids_def uid_New_def)

lemma uid_uuid: "uuid_in (fst (uid_New w)) = Some (fst (uid_New w))"
proof -
  obtain u w' where u: "uid_New w = (u, w')" by fastforce
  from uid_New_canonical [OF u] show ?thesis by (simp add: u uuid_in_v4)
qed

lemma uid_New_next: "snd (uid_New w) = w\<lparr>rng_pos := rng_pos w + 16\<rparr>"
  by (simp add: uid_New_def)

lemma Payments_Create_run:
  assumes w: "healthy w" and pay: "payable (db w) req c key"
    and i: "uuid_in i = Some i" "i \<notin> p_id ` set (t_payments (db w))"
    and new: "find_payment (db w) key = None"
  shows "\<exists>d. Payments_Create (new_payment req c key i) w = (Inr (), w\<lparr>db := d\<rparr>)"
proof -
  from pay obtain k where k: "uuid_in (q_reservation_id req) = Some k" by (auto simp: payable_def)
  have cur: "c_currency c \<noteq> ''''" using pay by (auto simp: payable_def)
  have "\<forall>x\<in>set (t_payments (db w)). p_id x \<noteq> i \<and> p_idempotency_key x \<noteq> key"
    using i(2) new by (auto simp: find_payment_def find_None_iff)
  with pay k i cur obtain d where "insert_payment (new_payment req c key i) (pg_clock w) (db w) = (Inr 1, d)"
    by (auto simp: insert_payment_def new_payment_def payable_def char3_def)
  from stmt_run [where f = "insert_payment (new_payment req c key i)", OF w this] show ?thesis
    by (auto simp: Payments_Create_def andThen_def wrapErr_def)
qed

text \<open>A second payment under the same key is refused.\<close>

lemma Payments_Create_duplicate:
  assumes w: "healthy w" "tx w = NoTx" and pay: "payable (db w) req c key" and i: "uuid_in i = Some i"
    and old: "find_payment (db w) key = Some p"
  shows "Payments_Create (new_payment req c key i) w = (Inl (Sentinel ErrDuplicatePayment), w)"
proof -
  from pay obtain k where k: "uuid_in (q_reservation_id req) = Some k" by (auto simp: payable_def)
  have cur: "c_currency c \<noteq> ''''" using pay by (auto simp: payable_def)
  from old have "\<exists>x\<in>set (t_payments (db w)). p_id x = i \<or> p_idempotency_key x = key"
    unfolding find_payment_def by (meson find_SomeD)
  with pay k i cur have "insert_payment (new_payment req c key i) (pg_clock w) (db w)
      = (Inl (PgError ''23505''), db w)"
    by (auto simp: insert_payment_def new_payment_def payable_def char3_def)
  from stmt_run_refused [where f = "insert_payment (new_payment req c key i)", OF w this] show ?thesis
    by (simp add: Payments_Create_def andThen_def wrapErr_def)
qed

section \<open>Loading\<close>

lemma loadOrCreate_new:
  assumes w: "healthy w" and pay: "payable (db w) req c key" and new: "find_payment (db w) key = None"
    and fr: "fresh_ids w"
  shows "\<exists>d. loadOrCreate (payment_processor acq) req c key w =
    (Inr (new_payment req c key (fst (uid_New w))), w\<lparr>rng_pos := rng_pos w + 16, db := d\<rparr>)"
proof -
  obtain u w1 where u: "uid_New w = (u, w1)" by fastforce
  with uid_New_next [of w] have w1: "w1 = w\<lparr>rng_pos := rng_pos w + 16\<rparr>" by simp
  have ui: "uuid_in u = Some u" using uid_uuid [of w] u by simp
  have un: "u \<notin> p_id ` set (t_payments (db w))" using fresh_uid(2) [OF fr] u by simp
  have "\<exists>d. Payments_Create (new_payment req c key u) w1 = (Inr (), w1\<lparr>db := d\<rparr>)"
    using w pay new ui un by (intro Payments_Create_run) (simp_all add: w1)
  with u w1 show ?thesis
    by (auto simp: loadOrCreate_def reading_def onResult_def)
qed

lemma loadOrCreate_old:
  assumes w: "healthy w" "tx w = NoTx" and pay: "payable (db w) req c key"
    and old: "find_payment (db w) key = Some p"
  shows "loadOrCreate (payment_processor acq) req c key w = (Inr p, w\<lparr>rng_pos := rng_pos w + 16\<rparr>)"
proof -
  obtain u w1 where u: "uid_New w = (u, w1)" by fastforce
  with uid_New_next [of w] have w1: "w1 = w\<lparr>rng_pos := rng_pos w + 16\<rparr>" by simp
  have ui: "uuid_in u = Some u" using uid_uuid [of w] u by simp
  have "Payments_Create (new_payment req c key u) w1 = (Inl (Sentinel ErrDuplicatePayment), w1)"
    using w pay ui old by (intro Payments_Create_duplicate) (simp_all add: w1)
  moreover have "GetByIdempotencyKey key w1 = (Inr p, w1)"
    using w pay old by (intro Find_payment_run) (simp_all add: w1 payable_def)
  ultimately show ?thesis using u w1
    by (simp add: loadOrCreate_def reading_def onResult_def wrapErr_def)
qed

section \<open>Deciding\<close>

lemma Payment_Enqueue_run:
  assumes w: "healthy w" and c: "text_ok (p_reservation_id q)"
    and new: "i \<notin> o_id ` set (t_outbox (db w))" "uuid_in i = Some i"
    and ty: "ty \<in> outcome_types"
  shows "\<exists>d. Payment_Enqueue [\<lparr>ob_id = i, ob_subject = SubjectFor ty, ob_event_type = ty,
      ob_event_version = CurrentVersion, ob_source = ''pulsar-payment'',
      ob_correlation_id = p_reservation_id q, ob_causation_id = '''',
      ob_payload = Some p, ob_occurred_at = t\<rparr>] w = (Inr (), w\<lparr>db := d\<rparr>)"
proof -
  have "text_ok ty" "text_ok (SubjectFor ty)"
    using ty by (auto simp: outcome_types_def text_ok_def type_defs SubjectFor_def subject_defs)
  then show ?thesis
    unfolding Payment_Enqueue_def using assms
    by (intro Enqueue_run [where i = i]) (auto simp: text_ok_def CurrentVersion_def int4_def)
qed

lemma record_payment_eq:
  "record_payment (payment_processor acq) ty q g r w =
     (Inr \<lparr>ob_id = fst (uid_New w), ob_subject = SubjectFor ty, ob_event_type = ty,
       ob_event_version = CurrentVersion, ob_source = ''pulsar-payment'',
       ob_correlation_id = p_reservation_id q, ob_causation_id = '''',
       ob_payload = Some (PaymentOutcomePayload q g r), ob_occurred_at = wall w\<rparr>,
      w\<lparr>rng_pos := rng_pos w + 16\<rparr>)"
  by (simp add: record_payment_def record_run)

lemma finish_run:
  assumes w: "healthy w" "tx w = NoTx" and q: "uuid_in (p_id q) = Some k" "text_ok (p_reservation_id q)"
    and t: "text_ok g" "text_ok r"
    and new: "fst (uid_New w) \<notin> o_id ` set (t_outbox (db w))"
  shows "\<exists>w'. finish (payment_processor acq) q g r approved w = (Inr (), w')"
proof -
  let ?ty = "if approved then TypePaymentSucceeded else TypePaymentFailed"
  let ?st = "if approved then PAY_SUCCEEDED else PAY_FAILED"
  let ?c = "count (recordChargeOutcome approved r) w"
  let ?w1 = "?c\<lparr>rng_pos := rng_pos w + 16\<rparr>"
  define rec where "rec = \<lparr>ob_id = fst (uid_New w), ob_subject = SubjectFor ?ty, ob_event_type = ?ty,
       ob_event_version = CurrentVersion, ob_source = ''pulsar-payment'',
       ob_correlation_id = p_reservation_id q, ob_causation_id = '''',
       ob_payload = Some (PaymentOutcomePayload q g r), ob_occurred_at = wall w\<rparr>"
  have uid: "fst (uid_New ?c) = fst (uid_New w)" by (simp add: uid_New_def)
  have rp: "record_payment (payment_processor acq) ?ty q g r ?c = (Inr rec, ?w1)"
    by (simp add: record_payment_eq uid rec_def)
  let ?b = "?w1\<lparr>tx := InTx (db ?w1)\<rparr>"
  have hb: "healthy ?b" using w(1) by (simp add: healthy_def count_def)
  have "update_payment (p_id q) ?st g r (pg_clock ?b) (db ?b) = (Inr (length (filter (\<lambda>p. p_id p = k)
      (t_payments (db w)))), set_status k ?st g r (db w))"
    using q(1) t by (simp add: update_payment_def set_status_def)
  from stmt_run [where f = "update_payment (p_id q) ?st g r", OF hb this]
  have up: "UpdateStatus (p_id q) ?st g r ?b = (Inr (), ?b\<lparr>db := set_status k ?st g r (db w)\<rparr>)"
    by (simp add: UpdateStatus_def andThen_def)
  obtain d where en: "Payment_Enqueue [rec] (?b\<lparr>db := set_status k ?st g r (db w)\<rparr>)
      = (Inr (), (?b\<lparr>db := set_status k ?st g r (db w)\<rparr>)\<lparr>db := d\<rparr>)"
    using Payment_Enqueue_run [of "?b\<lparr>db := set_status k ?st g r (db w)\<rparr>" q "fst (uid_New w)" ?ty
        "PaymentOutcomePayload q g r" "wall w"] hb q(2) new uid_uuid [of w]
    by (cases approved) (auto simp: rec_def outcome_types_def)
  have "finish_write (payment_processor acq) q g r approved rec ?b = (Inr (), ?b\<lparr>db := d\<rparr>)"
    using up en by (simp add: finish_write_def andThen_def)
  then have "WithinTx (finish_write (payment_processor acq) q g r approved rec) ?w1
      = (Inr (), (?b\<lparr>db := d\<rparr>)\<lparr>tx := NoTx\<rparr>)"
    using w by (intro WithinTx_ok [where s = "db ?w1"]) (auto simp: healthy_def count_def)
  with rp show ?thesis by (simp add: finish_def andThen_def)
qed

lemma recordOutcome_run:
  assumes w: "healthy w" and q: "text_ok (p_reservation_id q)" "p_status q \<noteq> PAY_PENDING"
    and new: "fst (uid_New w) \<notin> o_id ` set (t_outbox (db w))"
  shows "\<exists>d b. recordOutcome (payment_processor acq) q w = (Inr (), w\<lparr>rng_pos := rng_pos w + 16, db := d\<rparr>)
    \<and> adds_row (db w) b d \<and> o_event_type b = outcome_type (p_status q)
    \<and> o_correlation_id b = p_reservation_id q"
proof -
  have *: "\<exists>d b. andThen (record_payment (payment_processor acq) ty q g r) (\<lambda>rec. Payment_Enqueue [rec]) w
      = (Inr (), w\<lparr>rng_pos := rng_pos w + 16, db := d\<rparr>)
    \<and> adds_row (db w) b d \<and> o_event_type b = ty \<and> o_correlation_id b = p_reservation_id q"
    if ty: "ty \<in> outcome_types" for ty g r
  proof -
    let ?w1 = "w\<lparr>rng_pos := rng_pos w + 16\<rparr>"
    have "fst (uid_New w) \<notin> o_id ` set (t_outbox (db ?w1))" "healthy ?w1" using new w by simp_all
    from Payment_Enqueue_run [OF this(2) q(1) this(1) uid_uuid ty, of "PaymentOutcomePayload q g r" "wall w"]
    obtain d where en: "Payment_Enqueue [\<lparr>ob_id = fst (uid_New w), ob_subject = SubjectFor ty,
      ob_event_type = ty, ob_event_version = CurrentVersion, ob_source = ''pulsar-payment'',
      ob_correlation_id = p_reservation_id q, ob_causation_id = '''',
      ob_payload = Some (PaymentOutcomePayload q g r), ob_occurred_at = wall w\<rparr>] ?w1
      = (Inr (), ?w1\<lparr>db := d\<rparr>)" by blast
    from Payment_Enqueue_ok [OF en] en show ?thesis
      by (auto simp: record_payment_eq andThen_def)
  qed
  show ?thesis
    using q(2) * [of TypePaymentSucceeded "p_gateway_ref q" "[]"] * [of TypePaymentFailed "[]" "p_failure_reason q"]
    by (cases "p_status q") (simp_all add: recordOutcome_def outcome_types_def)
qed

section \<open>What holds whatever fails\<close>

lemma Contexts_Get_read:
  assumes "Contexts_Get i w = (Inr c, w')"
  shows "\<exists>k. uuid_in i = Some k \<and> find_context (db w) k = Some c"
proof -
  from assms have "stmt (by_id i (\<lambda>k d. find_context d k)) w = (Inr (Some c), w')"
    by (auto simp: Contexts_Get_def andThen_Inr split: option.splits)
  then show ?thesis by (rule stmt_Inr) (auto simp: by_id_Inr)
qed

lemma Contexts_Get_frame:
  assumes "Contexts_Get i w = (x, w')"
  shows "wall w' = wall w" "meter w' = meter w" "rng w' = rng w" "rng_pos w' = rng_pos w"
proof -
  from assms obtain y w1 where y: "stmt (by_id i (\<lambda>k d. find_context d k)) w = (y, w1)" and "w' = w1"
    by (cases "stmt (by_id i (\<lambda>k d. find_context d k)) w")
      (auto simp: Contexts_Get_def andThen_def split: sum.splits option.splits)
  with stmt_frame [OF y] show "wall w' = wall w" "meter w' = meter w" "rng w' = rng w" "rng_pos w' = rng_pos w"
    by simp_all
qed

text \<open>
  The inline wait: at most the budget of time, at most one outcome on the counter, and a context only
  if the projection is there.
\<close>

definition waited :: "duration \<Rightarrow> 'm payment_world \<Rightarrow> 'm payment_world \<Rightarrow> bool" where
  "waited budget w w' \<longleftrightarrow> wall w \<le> wall w' \<and> wall w' \<le> wall w + budget
     \<and> (meter w' = meter w \<or> (\<exists>outcome \<in> {''resolved'', ''exhausted'', ''aborted''}.
          meter w' = recordContextWait outcome # meter w))
     \<and> rng w' = rng w \<and> rng_pos w' = rng_pos w \<and> db w' = db w"

lemma waited_step:
  assumes "waited b w1 w2" "wall w \<le> wall w1" "wall w1 \<le> wall w + t" "meter w1 = meter w"
    "rng w1 = rng w" "rng_pos w1 = rng_pos w" "db w1 = db w"
  shows "waited (t + b) w w2"
  using assms by (auto simp: waited_def)

lemma wait_loop_waited:
  assumes "wait_loop (payment_processor acq) ctx i e n w = (x, w')"
  shows "waited (int n * (500 * millisecond)) w w'
    \<and> (\<forall>c. x = Inr c \<longrightarrow> (\<exists>k. uuid_in i = Some k \<and> find_context (db w) k = Some c))"
  using assms
proof (induction n arbitrary: w)
  case 0
  then show ?case by (auto simp: waited_def count_def)
next
  case (Suc n)
  obtain s w1 where s: "await ctx (500 * millisecond) w = (s, w1)" by fastforce
  then have w1: "wall w \<le> wall w1" "wall w1 \<le> wall w + 500 * millisecond" "meter w1 = meter w"
    "rng w1 = rng w" "rng_pos w1 = rng_pos w" "db w1 = db w"
    by (auto dest!: await_frame simp: duration_defs)
  have budget: "int (Suc n) * (500 * millisecond) = 500 * millisecond + int n * (500 * millisecond)"
    by (simp add: algebra_simps)
  note st = waited_step [where w = w and ?w1.0 = w1 and t = "500 * millisecond", OF _ w1]
  have nn: "0 \<le> int n * (500 * millisecond)" by (simp add: duration_defs)
  obtain y w2 where y: "Contexts_Get i w1 = (y, w2)" by fastforce
  have same: "waited (int n * (500 * millisecond)) w1 w2"
    using Contexts_Get_frame [OF y] Contexts_Get_db [OF y] nn by (simp add: waited_def)
  have outc: "waited (int n * (500 * millisecond)) w1 (count (recordContextWait oc) w3)"
    if "w3 = w1 \<or> w3 = w2" "oc \<in> {''resolved'', ''exhausted'', ''aborted''}" for w3 oc
    using that Contexts_Get_frame [OF y] Contexts_Get_db [OF y] nn by (auto simp: waited_def count_def)
  show ?case
  proof (cases s)
    case (Inl a)
    with Suc.prems s have "x = Inl e" "w' = count (recordContextWait ''aborted'') w1"
      by (simp_all add: onResult_def sleepFor_def)
    with st [OF outc [of w1 "''aborted''"]] show ?thesis unfolding budget by simp
  next
    case (Inr a)
    show ?thesis
    proof (cases y)
      case (Inr c)
      with Suc.prems s \<open>s = Inr a\<close> y have "x = Inr c" "w' = count (recordContextWait ''resolved'') w2"
        by (simp_all add: onResult_def sleepFor_def)
      with st [OF outc [of w2 "''resolved''"]] Contexts_Get_read [of i w1 c w2] y Inr w1(6)
      show ?thesis unfolding budget by simp
    next
      case (Inl e')
      show ?thesis
      proof (cases "errors_is e' ErrContextNotFound")
        case True
        with Suc.prems s \<open>s = Inr a\<close> y Inl
        have "wait_loop (payment_processor acq) ctx i e n w2 = (x, w')"
          by (simp add: onResult_def sleepFor_def)
        note ih = Suc.IH [OF this]
        have "waited (int n * (500 * millisecond)) w1 w'"
          using ih Contexts_Get_frame [OF y] Contexts_Get_db [OF y] by (simp add: waited_def)
        with st ih Contexts_Get_db [OF y] w1(6) show ?thesis unfolding budget by simp
      next
        case False
        with Suc.prems s \<open>s = Inr a\<close> y Inl have "x = Inl e'" "w' = w2"
          by (simp_all add: onResult_def sleepFor_def)
        with st [OF same] show ?thesis unfolding budget by simp
      qed
    qed
  qed
qed

lemma waitContext_waited:
  assumes "waitContext (payment_processor acq) ctx i w = (x, w')"
  shows "waited (1500 * millisecond) w w'"
    and "x = Inr c \<Longrightarrow> \<exists>k. uuid_in i = Some k \<and> find_context (db w) k = Some c"
proof -
  obtain y w1 where y: "Contexts_Get i w = (y, w1)" by fastforce
  note fr = Contexts_Get_frame [OF y] Contexts_Get_db [OF y]
  have "waited (1500 * millisecond) w w'
    \<and> (\<forall>c. x = Inr c \<longrightarrow> (\<exists>k. uuid_in i = Some k \<and> find_context (db w) k = Some c))"
  proof (cases "\<exists>e. y = Inl e \<and> errors_is e ErrContextNotFound")
    case True
    then obtain e where e: "y = Inl e" "errors_is e ErrContextNotFound" by blast
    with assms y have "wait_loop (payment_processor acq) ctx i e 3 w1 = (x, w')"
      by (simp add: waitContext_def onResult_def)
    from wait_loop_waited [OF this] fr show ?thesis by (auto simp: waited_def)
  next
    case False
    with assms y have "w' = w1" "x = y"
      by (auto simp: waitContext_def onResult_def split: sum.splits if_splits)
    with fr y show ?thesis by (auto simp: waited_def duration_defs dest: Contexts_Get_read)
  qed
  then show "waited (1500 * millisecond) w w'"
    and "x = Inr c \<Longrightarrow> \<exists>k. uuid_in i = Some k \<and> find_context (db w) k = Some c" by auto
qed

section \<open>The acquirer in a delivery\<close>

text \<open>Only the decision on a pending payment may consult the acquirer.\<close>

lemma wait_loop_acquirer:
  "wait_loop (payment_processor acq) ctx i e n = wait_loop (payment_processor acq') ctx i e n"
proof (induction n)
  case (Suc n)
  then show ?case
    unfolding wait_loop.simps payment_processor_simps by (simp cong del: sum.case_cong_weak if_weak_cong)
qed simp

lemma waitContext_acquirer:
  "waitContext (payment_processor acq) ctx i = waitContext (payment_processor acq') ctx i"
  unfolding waitContext_def payment_processor_simps wait_loop_acquirer [of acq ctx i _ _ acq'] ..

lemma loadOrCreate_acquirer:
  "loadOrCreate (payment_processor acq) req c key = loadOrCreate (payment_processor acq') req c key"
  unfolding loadOrCreate_def payment_processor_simps ..

lemma record_payment_acquirer:
  "record_payment (payment_processor acq) ty q g r = record_payment (payment_processor acq') ty q g r"
  unfolding record_payment_def payment_processor_simps ..

lemma finish_acquirer:
  "finish (payment_processor acq) q g r a = finish (payment_processor acq') q g r a"
  unfolding finish_def finish_write_def payment_processor_simps record_payment_acquirer [of acq _ q g r acq'] ..

lemma recordOutcome_acquirer:
  "recordOutcome (payment_processor acq) q = recordOutcome (payment_processor acq') q"
  unfolding recordOutcome_def payment_processor_simps record_payment_acquirer [of acq _ q _ _ acq'] ..

lemma Handle_acquirer:
  assumes "\<And>c w1 q w2. waitContext (payment_processor acq) ctx (q_reservation_id req) w = (Inr c, w1) \<Longrightarrow>
      loadOrCreate (payment_processor acq) req c key w1 = (Inr q, w2) \<Longrightarrow>
      decide (payment_processor acq) ctx req c key q w2 = decide (payment_processor acq') ctx req c key q w2"
  shows "Handle (payment_processor acq) ctx req key w = Handle (payment_processor acq') ctx req key w"
proof -
  obtain y w1 where y: "waitContext (payment_processor acq) ctx (q_reservation_id req) w = (y, w1)" by fastforce
  then have y': "waitContext (payment_processor acq') ctx (q_reservation_id req) w = (y, w1)"
    by (simp only: waitContext_acquirer [of acq' _ _ acq])
  show ?thesis
  proof (cases y)
    case (Inl e)
    with y y' show ?thesis by (simp add: Handle_def andThen_def wrapErr_def)
  next
    case (Inr c)
    obtain z w2 where z: "loadOrCreate (payment_processor acq) req c key w1 = (z, w2)" by fastforce
    then have z': "loadOrCreate (payment_processor acq') req c key w1 = (z, w2)"
      by (simp only: loadOrCreate_acquirer [of acq' _ _ _ acq])
    from y y' z z' Inr assms show ?thesis
      by (cases z) (simp_all add: Handle_def andThen_def wrapErr_def)
  qed
qed

text \<open>The steps of one delivery.\<close>

lemma Handle_cases:
  assumes "Handle (payment_processor acq) ctx req key w = (x, w')"
  obtains "w' = w"
  | e w1 where "waitContext (payment_processor acq) ctx (q_reservation_id req) w = (Inl e, w1)" "w' = w1"
  | c where "waitContext (payment_processor acq) ctx (q_reservation_id req) w = (Inr c, w')"
  | c e w1 where "waitContext (payment_processor acq) ctx (q_reservation_id req) w = (Inr c, w1)"
      "loadOrCreate (payment_processor acq) req c key w1 = (Inl e, w')"
  | c q w1 w2 where "waitContext (payment_processor acq) ctx (q_reservation_id req) w = (Inr c, w1)"
      "loadOrCreate (payment_processor acq) req c key w1 = (Inr q, w2)"
      "decide (payment_processor acq) ctx req c key q w2 = (x, w')"
proof -
  obtain y w1 where y: "waitContext (payment_processor acq) ctx (q_reservation_id req) w = (y, w1)" by fastforce
  show thesis
  proof (cases y)
    case (Inl e)
    with assms y that(1,2) show thesis by (auto simp: Handle_def andThen_def wrapErr_def split: if_splits)
  next
    case (Inr c)
    obtain z w2 where z: "loadOrCreate (payment_processor acq) req c key w1 = (z, w2)" by fastforce
    from assms y z Inr that show thesis
      by (cases z) (auto simp: Handle_def andThen_def wrapErr_def split: if_splits)
  qed
qed

section \<open>Which payment is loaded\<close>

lemma stmt_db_unless_plain:
  "stmt f w = (Inl e, w') \<Longrightarrow> \<forall>s. e \<noteq> Plain s \<Longrightarrow> db w' = db w"
  by (auto simp: stmt_def dest!: next_fault_eq split: prod.splits sum.splits option.splits
      tx_state.splits fault.splits)

lemma Create_duplicate_db:
  assumes "Payments_Create q w = (Inl e, w')" "errors_is e ErrDuplicatePayment"
  shows "db w' = db w"
proof -
  from assms obtain e0 where st: "stmt (insert_payment q) w = (Inl e0, w')"
    and e: "e = (if is_unique_violation e0 then Sentinel ErrDuplicatePayment else e0)"
    by (auto simp: Payments_Create_def wrapErr_Inl andThen_Inl)
  have "\<forall>s. e0 \<noteq> Plain s" using e assms(2) by (auto split: if_splits)
  with st show ?thesis by (rule stmt_db_unless_plain)
qed

lemma stmt_frames:
  assumes "Payments_Create q w = (x, w1)" "GetByIdempotencyKey key w1 = (y, w2)"
  shows "wall w1 = wall w" "wall w2 = wall w1"
proof -
  obtain r v where "stmt (insert_payment q) w = (r, v)" by fastforce
  with assms(1) have "w1 = v" and "wall v = wall w"
    by (auto simp: Payments_Create_def andThen_def wrapErr_def dest: stmt_frame(1) split: sum.splits)
  then show "wall w1 = wall w" by simp
  obtain r v where "stmt (select_payment key) w1 = (r, v)" by fastforce
  with assms(2) have "w2 = v" and "wall v = wall w1"
    by (auto simp: GetByIdempotencyKey_def andThen_def dest: stmt_frame(1) split: sum.splits option.splits)
  then show "wall w2 = wall w1" by simp
qed

lemma loadOrCreate_loaded:
  assumes "loadOrCreate (payment_processor acq) req c key w = (Inr q, w')"
  shows "wall w' = wall w"
    "(\<exists>i p. q = new_payment req c key i \<and> opens (db w) q p (db w'))
     \<or> (db w' = db w \<and> find_payment (db w) key = Some q)"
proof -
  obtain i w1 where u: "uid_New w = (i, w1)" by fastforce
  then have w1: "db w1 = db w" "wall w1 = wall w" by (auto simp: uid_New_def)
  let ?n = "new_payment req c key i"
  obtain y w2 where y: "Payments_Create ?n w1 = (y, w2)" by fastforce
  obtain z w3 where z: "GetByIdempotencyKey key w2 = (z, w3)" by fastforce
  note wl = stmt_frames [OF y z]
  have "wall w' = wall w \<and> ((\<exists>i p. q = new_payment req c key i \<and> opens (db w) q p (db w'))
     \<or> (db w' = db w \<and> find_payment (db w) key = Some q))"
  proof (cases y)
    case (Inr v)
    with assms u y have "w' = w2" "q = ?n"
      by (simp_all add: loadOrCreate_def reading_def onResult_def)
    with Payments_Create_ok [OF y [unfolded Inr]] wl w1 show ?thesis by auto
  next
    case (Inl e)
    with assms u y z have "errors_is e ErrDuplicatePayment" "z = Inr q" "w' = w3"
      by (auto simp: loadOrCreate_def reading_def onResult_def wrapErr_def split: if_splits sum.splits)
    with Create_duplicate_db [OF y [unfolded Inl]] Find_payment_read [of key w2 q w3] z wl w1
    show ?thesis by auto
  qed
  then show "wall w' = wall w" "(\<exists>i p. q = new_payment req c key i \<and> opens (db w) q p (db w'))
     \<or> (db w' = db w \<and> find_payment (db w) key = Some q)" by auto
qed

lemma find_payment_opens:
  "opens d q p d' \<Longrightarrow> p_idempotency_key q = key \<Longrightarrow> find_payment d key = None"
  by (auto simp: opens_def copy_of_def find_payment_def find_None_iff)

text \<open>A key that is taken always yields the payment that took it.\<close>

lemma loaded_existing:
  assumes "loadOrCreate (payment_processor acq) req c key w = (Inr q, w')" "find_payment (db w) key = Some p"
  shows "q = p" "db w' = db w"
proof -
  have key: "p_idempotency_key (new_payment req c key i) = key" for i by (simp add: new_payment_def)
  have "\<not> opens (db w) (new_payment req c key i) x (db w')" for i x
    using find_payment_opens [OF _ key] assms(2) by fastforce
  with loadOrCreate_loaded(2) [OF assms(1)] assms(2) show "q = p" "db w' = db w" by auto
qed

text \<open>A key that is free yields a payment priced by the projection.\<close>

lemma loaded_new:
  assumes "loadOrCreate (payment_processor acq) req c key w = (Inr q, w')" "find_payment (db w) key = None"
  obtains i where "q = new_payment req c key i"
  using loadOrCreate_loaded(2) [OF assms(1)] assms(2) by auto

definition priced :: "payment_requested \<Rightarrow> reservation_context \<Rightarrow> string \<Rightarrow> charge_request" where
  "priced req c key =
     \<lparr>cq_reservation_id = q_reservation_id req, cq_user_id = c_user_id c,
      cq_amount_cents = c_amount_cents c,
      cq_currency = (if c_currency c = '''' then ''BRL'' else c_currency c),
      cq_token = q_token req, cq_idempotency_key = key\<rparr>"

lemma charge_for_new [simp]: "charge_for req (new_payment req c key i) key = priced req c key"
  by (simp add: charge_for_def new_payment_def priced_def)

section \<open>A delivery on a healthy connection\<close>

lemma fresh_ids_later:
  assumes "fresh_ids w" "rng w' = rng w" "rng_pos w \<le> rng_pos w'"
    "t_outbox (db w') = t_outbox (db w)"
  shows "fst (uid_New w') \<notin> o_id ` set (t_outbox (db w'))"
  using assms by (auto simp: fresh_ids_def uid_New_def)

text \<open>The answer of the acquirer as the row and the event keep it.\<close>

definition verdict_of :: "err + string \<Rightarrow> payment_status \<times> string \<times> string" where
  "verdict_of r = (case r of Inl e \<Rightarrow> (PAY_FAILED, '''', err_text e) | Inr ref \<Rightarrow> (PAY_SUCCEEDED, ref, ''''))"

definition printable :: "err + string \<Rightarrow> bool" where
  "printable r \<longleftrightarrow> (case r of Inl e \<Rightarrow> text_ok (err_text e) | Inr ref \<Rightarrow> text_ok ref)"

lemma decide_run:
  assumes w: "healthy w" "tx w = NoTx" and q: "uuid_in (p_id q) = Some k" "text_ok (p_reservation_id q)"
      "p_status q = PAY_PENDING"
    and win: "wall w \<le> c_expires_at c" and acq: "acquirer_safe acq"
    and r: "fst (acq ctx (charge_for req q key) w) = r" "printable r"
    and fr: "fresh_ids w0" "rng w = rng w0" "rng_pos w0 \<le> rng_pos w" "t_outbox (db w) = t_outbox (db w0)"
  shows "\<exists>w' st g e b. decide (payment_processor acq) ctx req c key q w = (Inr (), w')
    \<and> verdict_of r = (st, g, e) \<and> decides (db w) q st g e b (db w')"
proof -
  obtain w1 where w1: "acq ctx (charge_for req q key) w = (r, w1)" using r(1) by (metis prod.collapse)
  from acquirer_frame [OF acq w1] have nd: "db w1 = db w" "tx w1 = NoTx" "faults w1 = faults w"
    "rng w1 = rng w" "rng_pos w \<le> rng_pos w1" using w(2) by (auto simp: no_database_def)
  have h1: "healthy w1" using w(1) nd by (simp add: healthy_def)
  have new: "fst (uid_New w1) \<notin> o_id ` set (t_outbox (db w1))"
    using fr nd by (intro fresh_ids_later [OF fr(1)]) auto
  have dec: "decide (payment_processor acq) ctx req c key q w
      = (case r of Inl e \<Rightarrow> finish (payment_processor acq) q '''' (err_text e) False w1
         | Inr ref \<Rightarrow> finish (payment_processor acq) q ref '''' True w1)"
    using q(3) win w1 by (simp add: decide_def reading_def onResult_def time_after_def split: sum.splits)
  obtain st g e where v: "verdict_of r = (st, g, e)" by (metis surj_pair)
  then have t: "text_ok g" "text_ok e" using r(2)
    by (auto simp: verdict_of_def printable_def text_ok_def split: sum.splits)
  from finish_run [OF h1 nd(2) q(1,2) t new, of acq "st = PAY_SUCCEEDED"] obtain w' where
    f: "finish (payment_processor acq) q g e (st = PAY_SUCCEEDED) w1 = (Inr (), w')" by blast
  from finish_effect(2) [OF f nd(2) refl] nd(1) have "\<exists>b. decides (db w) q st g e b (db w')"
    using v by (auto simp: verdict_of_def split: sum.splits)
  moreover have "decide (payment_processor acq) ctx req c key q w = (Inr (), w')"
    using dec f v by (auto simp: verdict_of_def split: sum.splits)
  ultimately show ?thesis using v by blast
qed

lemma decides_row:
  assumes "decides d q st g e b d'" "p \<in> set (t_payments d)" "copy_of q p"
  shows "p\<lparr>p_status := st, p_gateway_ref := g, p_failure_reason := e\<rparr> \<in> set (t_payments d')"
    and "b \<in> set (t_outbox d')" "o_event_type b = outcome_type st"
    and "reports b (p\<lparr>p_status := st, p_gateway_ref := g, p_failure_reason := e\<rparr>) g e"
proof -
  from assms(1,3) have d': "d' = (set_status (p_id p) st g e d)\<lparr>t_outbox := t_outbox d @ [b]\<rparr>"
    and ty: "o_event_type b = outcome_type st"
    and b: "o_correlation_id b = p_reservation_id q" "o_payload b = PaymentOutcomePayload q g e"
    by (auto simp: decides_def adds_row_def copy_of_def)
  show "p\<lparr>p_status := st, p_gateway_ref := g, p_failure_reason := e\<rparr> \<in> set (t_payments d')"
    using assms(2) by (auto simp: d' set_status_row intro!: bexI [of _ p])
  show "b \<in> set (t_outbox d')" "o_event_type b = outcome_type st" using ty by (simp_all add: d')
  show "reports b (p\<lparr>p_status := st, p_gateway_ref := g, p_failure_reason := e\<rparr>) g e"
    using assms(3) b by (auto simp: reports_def)
qed

end
