(* ===== verification/Payment_Properties.thy ===== *)
theory Payment_Properties
  imports Payment_Progress
begin

text \<open>
  The properties of the payment service, and a small database on which each of them is applied: the
  projection of one reservation (\<open>px_projected\<close>), and the same with its payment pending, taken or
  decided.
\<close>

section \<open>Sample states\<close>

definition px_reservation :: string where "px_reservation = ''aaaaaaaa-2222-4333-8444-555555555555''"
definition px_other :: string where "px_other = ''cccccccc-2222-4333-8444-555555555555''"
definition px_payment_id :: string where "px_payment_id = ''dddddddd-2222-4333-8444-555555555555''"
definition px_row_id :: string where "px_row_id = ''eeeeeeee-2222-4333-8444-555555555555''"

definition px_now :: instant where "px_now = 1750000000000000000"

definition px_context :: reservation_context where
  "px_context = \<lparr>c_reservation_id = px_reservation, c_user_id = ''user-1'', c_amount_cents = 10000,
     c_currency = ''BRL'', c_expires_at = px_now + 900000000000\<rparr>"

definition px_payment :: "payment_status \<Rightarrow> payment" where
  "px_payment st = \<lparr>p_id = px_payment_id, p_reservation_id = px_reservation, p_user_id = ''user-1'',
     p_amount_cents = 10000, p_currency = ''BRL'', p_status = st, p_idempotency_key = ''key-1'',
     p_gateway_ref = (if st = PAY_SUCCEEDED then ''sim-1'' else ''''),
     p_failure_reason = (if st = PAY_FAILED then ''card declined'' else '''')\<rparr>"

definition px_row :: outbox_row where
  "px_row = \<lparr>o_id = px_row_id, o_subject = SubjectPaymentSucceeded, o_event_type = TypePaymentSucceeded,
     o_event_version = 1, o_source = ''pulsar-payment'', o_correlation_id = px_reservation,
     o_causation_id = '''', o_payload = PaymentOutcomePayload (px_payment PAY_SUCCEEDED) ''sim-1'' '''',
     o_created_at = px_now, o_processed_at = None\<rparr>"

definition px_projected :: payment_db where
  "px_projected = \<lparr>t_outbox = [], t_payments = [], t_contexts = [px_context]\<rparr>"

definition px_paid :: payment_db where
  "px_paid = \<lparr>t_outbox = [px_row], t_payments = [px_payment PAY_SUCCEEDED],
     t_contexts = [px_context, px_context\<lparr>c_reservation_id := px_other\<rparr>]\<rparr>"

definition px_world :: "payment_db \<Rightarrow> instant \<Rightarrow> unit payment_world" where
  "px_world d now = \<lparr>wall = now, rng = (\<lambda>_. 0), rng_pos = 0, meter = [], db = d, pg_clock = now,
     tx = NoTx, faults = []\<rparr>"

definition px_request :: "string \<Rightarrow> string \<Rightarrow> payment_requested" where
  "px_request r u = \<lparr>q_reservation_id = r, q_user_id = u, q_token = ''tok''\<rparr>"

text \<open>An acquirer that approves, and one that declines.\<close>

definition px_approve :: "(payment_db, unit) pg_world_ext acquirer" where
  "px_approve ctx req = ok ''sim-1''"

definition px_decline :: "(payment_db, unit) pg_world_ext acquirer" where
  "px_decline = SimulatedAcquirer_Charge (\<lambda>w. (0, w)) \<lparr>sa_failures = 1, sa_delay = 0\<rparr>"

lemma px_world_simps [simp]:
  "db (px_world d now) = d" "tx (px_world d now) = NoTx" "faults (px_world d now) = []"
  "wall (px_world d now) = now" "pg_clock (px_world d now) = now"
  by (simp_all add: px_world_def)

lemma px_healthy [simp]: "healthy (px_world d now)"
  by (simp add: healthy_def)

lemma px_ids [simp]:
  "uuid_in px_reservation = Some px_reservation" "uuid_in px_other = Some px_other"
  "uuid_in px_payment_id = Some px_payment_id" "uuid_in px_row_id = Some px_row_id"
  by code_simp+

lemma px_distinct [simp]: "px_reservation \<noteq> px_other" "px_other \<noteq> px_reservation" "px_reservation \<noteq> []"
  "px_other \<noteq> []"
  by (simp_all add: px_reservation_def px_other_def)

lemma px_safe [simp]: "acquirer_safe px_approve" "acquirer_safe px_decline"
  by (simp add: acquirer_safe_def px_approve_def no_database_def)
    (simp add: px_decline_def simulated_acquirer_safe no_database_def)

lemma px_texts [simp]: "text_ok px_reservation" "text_ok px_other" "text_ok ''user-1''" "text_ok ''key-1''"
  "text_ok ''BRL''" "text_ok ''''" "text_ok ''key-2''" "text_ok ''sim-1''"
  by (simp_all add: text_ok_def px_reservation_def px_other_def)

lemma px_fresh: "fresh_ids (px_world px_projected now)" "fresh_ids (px_world px_paid now)"
proof -
  have "uid_of_bytes (map (\<lambda>i. (0 :: 8 word)) [0..<16]) = ''00000000-0000-4000-8000-000000000000''"
    by code_simp
  then have u: "uid_of_bytes (map (\<lambda>i. rng (px_world d now) (n + i)) [0..<16])
      = ''00000000-0000-4000-8000-000000000000''" for d n
    by (simp add: px_world_def)
  show "fresh_ids (px_world px_projected now)" "fresh_ids (px_world px_paid now)"
    unfolding fresh_ids_def u
    by (simp_all add: px_projected_def px_paid_def px_row_def px_payment_def px_row_id_def px_payment_id_def)
qed

lemma px_payable:
  "payable px_projected (px_request px_reservation ''user-1'') px_context ''key-1''"
  "payable px_paid (px_request px_reservation ''user-1'') px_context ''key-1''"
  by (simp_all add: payable_def px_request_def px_projected_def px_paid_def find_context_def px_context_def)

lemma px_paid_inv: "payment_inv px_paid"
proof -
  let ?p = "px_payment PAY_SUCCEEDED"
  have "copy_of ?p ?p" by (simp add: copy_of_def px_payment_def)
  then have "reports px_row ?p ''sim-1'' ''''"
    unfolding reports_def by (intro exI [of _ ?p]) (simp add: px_row_def px_payment_def)
  then show ?thesis
    by (auto simp: payment_inv_def wf_payments_def published_def grounded_def px_paid_def px_payment_def
        px_row_def)
qed

section \<open>Reachable states\<close>

lemma px_reached:
  obtains w :: "unit payment_world" and ps p where
    "payment_reachable px_approve (w, ps)" "p \<in> set (t_payments (db w))" "p_status p = PAY_SUCCEEDED"
    "\<exists>b\<in>set (t_outbox (db w)). o_event_type b = TypePaymentSucceeded"
proof -
  let ?w = "px_world px_projected px_now" and ?req = "px_request px_reservation ''user-1''"
  let ?pc = "payment_processor px_approve"
  have none: "find_payment (db ?w) ''key-1'' = None" by (simp add: find_payment_def px_projected_def)
  have r0: "payment_reachable px_approve (?w, [])"
    by (rule payment_reachable.start) (simp_all add: px_projected_def)
  let ?q = "new_payment ?req px_context ''key-1'' (fst (uid_New ?w))"
  obtain d where l: "loadOrCreate ?pc ?req px_context ''key-1'' ?w
      = (Inr ?q, ?w\<lparr>rng_pos := rng_pos ?w + 16, db := d\<rparr>)"
    using loadOrCreate_new [of ?w ?req px_context "''key-1''" px_approve] px_payable(1) px_fresh(1) none by auto
  let ?w1 = "?w\<lparr>rng_pos := rng_pos ?w + 16, db := d\<rparr>"
  let ?a = "(?req, px_context, ''key-1'', ?q)"
  have r1: "payment_reachable px_approve (?w1, [?a])"
    by (rule payment_reachable.step [OF r0 payment_step.load [OF l]])
  from loadOrCreate_loaded(2) [OF l] none obtain p where op: "opens (db ?w) ?q p d" by auto
  then have p: "p \<in> set (t_payments d)" "copy_of ?q p" "t_outbox d = t_outbox (db ?w)"
    by (auto simp: opens_def)
  have "\<exists>w' st g e b. decide ?pc None ?req px_context ''key-1'' ?q ?w1 = (Inr (), w')
    \<and> verdict_of (Inr ''sim-1'') = (st, g, e) \<and> decides (db ?w1) ?q st g e b (db w')"
    using p(2,3) px_fresh(1) uid_uuid [of ?w]
    by (intro decide_run [where w = ?w1 and ?w0.0 = ?w and k = "p_id p" and acq = px_approve])
      (simp_all add: px_request_def px_context_def px_approve_def new_payment_def copy_of_def printable_def)
  then obtain w' b where d: "decide ?pc None ?req px_context ''key-1'' ?q ?w1 = (Inr (), w')"
    and dec: "decides d ?q PAY_SUCCEEDED ''sim-1'' '''' b (db w')"
    by (auto simp: verdict_of_def)
  have "payment_reachable px_approve (w', remove1 ?a [?a])"
    by (rule payment_reachable.step [OF r1 payment_step.decided [OF _ d]]) simp
  moreover note decides_row [OF dec p(1,2)]
  ultimately show ?thesis
    by (intro that [of w' "remove1 ?a [?a]"
        "p\<lparr>p_status := PAY_SUCCEEDED, p_gateway_ref := ''sim-1'', p_failure_reason := ''''\<rparr>"]) auto
qed

text \<open>C14: Decisions and outcome events agree.  In every reachable state of the payment service a decided
  payment has its outcome event, with its reference and reason, in the outbox; each payment.succeeded and
  payment.failed event there is about a payment of the table, with its id, reservation and amount; and no
  two payments share an id or an idempotency key.\<close>

theorem outcomes_published:
  assumes "payment_reachable acq (w, ps)" "acquirer_safe acq"
  shows "(p \<in> set (t_payments (db w)) \<and> p_status p \<noteq> PAY_PENDING \<longrightarrow>
      (\<exists>b\<in>set (t_outbox (db w)). o_event_type b = outcome_type (p_status p)
        \<and> reports b p (p_gateway_ref p) (p_failure_reason p)))
    \<and> (b \<in> set (t_outbox (db w)) \<and> o_event_type b \<in> {TypePaymentSucceeded, TypePaymentFailed} \<longrightarrow>
      (\<exists>p\<in>set (t_payments (db w)). \<exists>gatewayRef reason. reports b p gatewayRef reason))
    \<and> distinct (map p_id (t_payments (db w))) \<and> distinct (map p_idempotency_key (t_payments (db w)))"
  using payment_reachable_inv [OF assms]
  by (auto simp: payment_sys_inv_def payment_inv_def published_def grounded_def outcome_types_def wf_payments_def)

theorem outcomes_published_witness:
  "\<exists>(w :: unit payment_world) p b c. p \<in> set (t_payments (db w)) \<and> b \<in> set (t_outbox (db w))
    \<and> o_event_type b = TypePaymentSucceeded \<and> reports b p (p_gateway_ref p) (p_failure_reason p)
    \<and> o_event_type c = TypePaymentSucceeded
    \<and> (\<exists>p\<in>set (t_payments (db w)). \<exists>gatewayRef reason. reports c p gatewayRef reason)"
proof (rule px_reached)
  fix w :: "unit payment_world" and ps p
  assume r: "payment_reachable px_approve (w, ps)" "p \<in> set (t_payments (db w))" "p_status p = PAY_SUCCEEDED"
    and "\<exists>b\<in>set (t_outbox (db w)). o_event_type b = TypePaymentSucceeded"
  then obtain c where c: "c \<in> set (t_outbox (db w))" "o_event_type c = TypePaymentSucceeded" by blast
  note claim = outcomes_published [OF r(1) px_safe(1)]
  from claim [of p] r(2,3) obtain b where "b \<in> set (t_outbox (db w))" "o_event_type b = TypePaymentSucceeded"
    "reports b p (p_gateway_ref p) (p_failure_reason p)" by auto
  with claim [of _ c] c r(2) show ?thesis by blast
qed

section \<open>One delivery, whatever fails\<close>

lemma decision_keeps:
  assumes load: "loadOrCreate (payment_processor acq) req c key w1 = (Inr q, w2)"
    and run: "decide (payment_processor acq) ctx req c key q w2 = (x, w')"
    and inv: "tx w1 = NoTx" "payment_inv (db w1)" "acquirer_safe acq"
    and p: "p \<in> set (t_payments (db w1))" "p_status p \<noteq> PAY_PENDING"
  shows "p \<in> set (t_payments (db w')) \<and> payment_inv (db w')"
proof -
  have tx2: "tx w2 = NoTx" using load inv(1) tx_body_NoTx loadOrCreate_tx by metis
  have inv2: "payment_inv (db w2)" and kn: "known (db w2) (req, c, key, q)"
    using load_inv(1,2) [OF load inv(2)] by auto
  have p2: "p \<in> set (t_payments (db w2))"
    using pay.loadOrCreate_effect(1) [OF load] p(1) by (auto simp: opens_def)
  from kn obtain y where y: "y \<in> set (t_payments (db w2))" "copy_of q y" by (auto simp: known_def)
  note eff = decide_effect(2) [OF run tx2 inv(3)]
  have "payment_inv (db w')" using eff inv2 y repeats_inv decides_inv by metis
  moreover have "p \<in> set (t_payments (db w'))"
  proof (cases "\<exists>st g r b. decides (db w2) q st g r b (db w') \<and> p_status q = PAY_PENDING")
    case True
    then obtain st g r b where dec: "decides (db w2) q st g r b (db w')" and pend: "p_status q = PAY_PENDING" by blast
    have "p_id y \<noteq> p_id p"
    proof
      assume "p_id y = p_id p"
      then have "y = p" using inv2 y(1) p2 by (auto simp: payment_inv_def wf_payments_def dest: distinct_key_eq)
      with loadOrCreate_loaded(2) [OF load] pend y(2) p inv(2) show False
        by (auto simp: opens_def copy_of_def payment_inv_def wf_payments_def find_payment_def
            dest!: find_SomeD dest: distinct_key_eq)
    qed
    with dec y(2) p2 show ?thesis
      by (force simp: decides_def adds_row_def copy_of_def set_status_row)
  next
    case False
    with eff p2 show ?thesis by (auto simp: repeats_def adds_row_def)
  qed
  ultimately show ?thesis by simp
qed

text \<open>C15: A decided payment is final for every delivery.  Whatever command and whatever key a
  delivery carries and whatever fails in it, it leaves every payment that was decided before it as it
  is, and the tables consistent.\<close>

theorem decided_payment_final:
  assumes run: "Handle (payment_processor acq) ctx req key w = (x, w')"
    and inv: "tx w = NoTx" "payment_inv (db w)" "acquirer_safe acq"
    and p: "p \<in> set (t_payments (db w))" "p_status p \<noteq> PAY_PENDING"
  shows "p \<in> set (t_payments (db w')) \<and> payment_inv (db w')"
  using run
proof (cases rule: Handle_cases)
  case 1
  with inv p show ?thesis by simp
next
  case (2 e w1)
  with inv p pay.waitContext_frame show ?thesis by metis
next
  case (3 c)
  with inv p pay.waitContext_frame show ?thesis by metis
next
  case (4 c e w1)
  from pay.waitContext_frame [OF 4(1)] have w1: "db w1 = db w" .
  from load_inv(1) [OF 4(2)] pay.loadOrCreate_effect(1) [OF 4(2)] inv(2) p(1) w1 show ?thesis
    by (auto simp: opens_def)
next
  case (5 c q w1 w2)
  from pay.waitContext_frame [OF 5(1)] have w1: "db w1 = db w" .
  have "tx w1 = NoTx" using tx_body_NoTx [OF waitContext_tx 5(1)] inv(1) by simp
  from decision_keeps [OF 5(2,3) this _ inv(3)] inv(2) p w1 show ?thesis by simp
qed

theorem decided_payment_final_witness:
  "\<exists>x w'. Handle (payment_processor px_decline) None (px_request px_reservation ''user-1'') ''key-2''
      (px_world px_paid px_now) = (x, w')
    \<and> px_payment PAY_SUCCEEDED \<in> set (t_payments (db w'))"
proof -
  obtain x w' where run: "Handle (payment_processor px_decline) None (px_request px_reservation ''user-1'')
      ''key-2'' (px_world px_paid px_now) = (x, w')" by fastforce
  from decided_payment_final [OF run, of "px_payment PAY_SUCCEEDED"] px_paid_inv run show ?thesis
    by (simp add: px_paid_def px_payment_def)
qed

lemma decided_never_charged:
  assumes "find_payment (db w) key = Some p" "p_status p \<noteq> PAY_PENDING"
  shows "Handle (payment_processor acq) ctx req key w = Handle (payment_processor acq') ctx req key w"
proof (rule Handle_acquirer)
  fix c w1 q w2
  assume wait: "waitContext (payment_processor acq) ctx (q_reservation_id req) w = (Inr c, w1)"
    and load: "loadOrCreate (payment_processor acq) req c key w1 = (Inr q, w2)"
  from loaded_existing(1) [OF load] pay.waitContext_frame [OF wait] assms have "p_status q \<noteq> PAY_PENDING"
    by simp
  then show "decide (payment_processor acq) ctx req c key q w2 = decide (payment_processor acq') ctx req c key q w2"
    unfolding decide_def by (simp add: recordOutcome_acquirer [of acq q acq'])
qed

lemma elapsed_never_charged:
  assumes "uuid_in (q_reservation_id req) = Some k"
    and "\<forall>c. find_context (db w) k = Some c \<longrightarrow> c_expires_at c < wall w"
  shows "Handle (payment_processor acq) ctx req key w = Handle (payment_processor acq') ctx req key w"
proof (rule Handle_acquirer)
  fix c w1 q w2
  assume wait: "waitContext (payment_processor acq) ctx (q_reservation_id req) w = (Inr c, w1)"
    and load: "loadOrCreate (payment_processor acq) req c key w1 = (Inr q, w2)"
  from waitContext_waited(2) [OF wait refl] assms have "c_expires_at c < wall w" by auto
  with waitContext_waited(1) [OF wait] loadOrCreate_loaded(1) [OF load]
  have late: "time_after (wall w2) (c_expires_at c)" by (simp add: waited_def time_after_def)
  show "decide (payment_processor acq) ctx req c key q w2 = decide (payment_processor acq') ctx req c key q w2"
    using late unfolding decide_def
    by (simp add: recordOutcome_acquirer [of acq q acq'] finish_acquirer [of acq _ _ _ _ acq'] reading_def)
qed

text \<open>C16: Nothing is charged twice or too late.  When the payment with the key of a delivery was decided
  before it, or the projected window of its reservation has elapsed, the delivery is the same for any two
  acquirers, whatever its command and whatever fails: it never asks one.\<close>

theorem never_charged_again:
  assumes "(\<exists>p. find_payment (db w) key = Some p \<and> p_status p \<noteq> PAY_PENDING)
    \<or> (\<exists>k c. uuid_in (q_reservation_id req) = Some k \<and> find_context (db w) k = Some c \<and> c_expires_at c < wall w)"
  shows "Handle (payment_processor acq) ctx req key w = Handle (payment_processor acq') ctx req key w"
  using assms decided_never_charged [of w key _ acq ctx req acq'] elapsed_never_charged [of req _ w acq ctx key acq']
  by fastforce

theorem never_charged_again_witness:
  "Handle (payment_processor px_approve) None (px_request px_reservation ''user-1'') ''key-1'' (px_world px_paid px_now)
     = Handle (payment_processor px_decline) None (px_request px_reservation ''user-1'') ''key-1'' (px_world px_paid px_now)
   \<and> Handle (payment_processor px_approve) None (px_request px_reservation ''user-1'') ''key-1''
       (px_world px_projected (px_now + 900000000001))
     = Handle (payment_processor px_decline) None (px_request px_reservation ''user-1'') ''key-1''
       (px_world px_projected (px_now + 900000000001))"
proof
  show "Handle (payment_processor px_approve) None (px_request px_reservation ''user-1'') ''key-1'' (px_world px_paid px_now)
     = Handle (payment_processor px_decline) None (px_request px_reservation ''user-1'') ''key-1'' (px_world px_paid px_now)"
    by (rule never_charged_again) (simp add: px_paid_def find_payment_def px_payment_def)
  show "Handle (payment_processor px_approve) None (px_request px_reservation ''user-1'') ''key-1''
       (px_world px_projected (px_now + 900000000001))
     = Handle (payment_processor px_decline) None (px_request px_reservation ''user-1'') ''key-1''
       (px_world px_projected (px_now + 900000000001))"
    by (rule never_charged_again) (simp add: px_request_def px_projected_def find_context_def px_context_def)
qed

text \<open>C17: Pricing is server-authoritative.  A new payment asks the acquirer at most for the charge the
  projection prices: two acquirers that agree on that one request make the same delivery, so nothing
  in the command but its token reaches the acquirer, whatever fails.\<close>

theorem server_priced:
  assumes "uuid_in (q_reservation_id req) = Some k" "find_context (db w) k = Some c"
    and "find_payment (db w) key = None"
    and agree: "\<And>v. acq ctx (priced req c key) v = acq' ctx (priced req c key) v"
  shows "Handle (payment_processor acq) ctx req key w = Handle (payment_processor acq') ctx req key w"
proof (rule Handle_acquirer)
  fix c' w1 q w2
  assume wait: "waitContext (payment_processor acq) ctx (q_reservation_id req) w = (Inr c', w1)"
    and load: "loadOrCreate (payment_processor acq) req c' key w1 = (Inr q, w2)"
  from waitContext_waited(2) [OF wait refl] assms(1,2) have c: "c' = c" by auto
  from load assms(3) pay.waitContext_frame [OF wait] obtain i where q: "q = new_payment req c key i"
    unfolding c by (metis loaded_new)
  show "decide (payment_processor acq) ctx req c' key q w2 = decide (payment_processor acq') ctx req c' key q w2"
    unfolding decide_def c q
    by (simp add: recordOutcome_acquirer [of acq _ acq'] finish_acquirer [of acq _ _ _ _ acq'] reading_def
        onResult_def agree split: prod.split sum.split)
qed

theorem server_priced_witness:
  "Handle (payment_processor px_approve) None (px_request px_reservation ''user-1'') ''key-1'' (px_world px_projected px_now)
   = Handle (payment_processor (\<lambda>ctx r. if cq_amount_cents r = 10000 then px_approve ctx r else px_decline ctx r))
       None (px_request px_reservation ''user-1'') ''key-1'' (px_world px_projected px_now)"
  by (rule server_priced [where k = px_reservation and c = px_context])
    (simp_all add: px_request_def px_projected_def find_context_def px_context_def find_payment_def priced_def)

text \<open>C18: The inline wait is bounded.  Waiting for the projection takes at most three half-second
  pauses, counts at most one outcome, writes nothing, and yields a context only if it is the one
  projected for the reservation.\<close>

theorem wait_bounded:
  assumes "waitContext (payment_processor acq) ctx i w = (x, w')"
  shows "wall w \<le> wall w' \<and> wall w' \<le> wall w + 1500000000 \<and> db w' = db w
    \<and> (meter w' = meter w \<or> (\<exists>outcome\<in>{''resolved'', ''exhausted'', ''aborted''}.
          meter w' = [''pulsar_payment_context_waits_total'', outcome] # meter w))
    \<and> (\<forall>c. x = Inr c \<longrightarrow> (\<exists>k. uuid_in i = Some k \<and> find_context (db w) k = Some c))"
  using waitContext_waited [OF assms]
  by (auto simp: waited_def millisecond_def recordContextWait_def)

theorem wait_bounded_witness:
  "wall (snd (waitContext (payment_processor px_approve) None px_other (px_world px_projected px_now)))
     \<le> px_now + 1500000000"
proof -
  obtain x w' where run: "waitContext (payment_processor px_approve) None px_other (px_world px_projected px_now)
      = (x, w')" by fastforce
  from wait_bounded [OF run] run show ?thesis by simp
qed

section \<open>One delivery on a healthy connection\<close>

text \<open>C19: An impostor changes nothing.  A command whose user is not the owner of the projected
  reservation is refused with ErrNotOwner, for every key and every acquirer, and leaves the whole
  state - tables, outbox, counters, clock - as it was.\<close>

theorem not_owner_inert:
  assumes "healthy w" "uuid_in (q_reservation_id req) = Some k" "find_context (db w) k = Some c"
    and "q_user_id req \<noteq> c_user_id c" "q_user_id req \<noteq> ''''" "key \<noteq> ''''"
  shows "\<exists>e. Handle (payment_processor acq) ctx req key w = (Inl e, w) \<and> errors_is e ErrNotOwner"
proof -
  from assms(2) have "q_reservation_id req \<noteq> ''''" by auto
  with assms waitContext_run [OF assms(1-3)] show ?thesis
    by (simp add: Handle_def andThen_def wrapErr_def not_owner_def)
qed

theorem not_owner_inert_witness:
  "\<exists>e. Handle (payment_processor px_approve) None (px_request px_reservation ''mallory'') ''key-1''
      (px_world px_projected px_now) = (Inl e, px_world px_projected px_now) \<and> errors_is e ErrNotOwner"
  by (rule not_owner_inert [where k = px_reservation and c = px_context])
    (simp_all add: px_request_def px_projected_def find_context_def px_context_def)

text \<open>C20: A first delivery decides.  A command from the owner inside the window is charged, and the
  answer of the acquirer becomes the status of its payment: one row under the key, for the reservation
  and the projected amount, and its outcome event.\<close>

theorem charge_decides:
  assumes w: "healthy w" "tx w = NoTx" and pay: "payable (db w) req c key"
    and new: "find_payment (db w) key = None" and fr: "fresh_ids w"
    and win: "wall w \<le> c_expires_at c" and acq: "acquirer_safe acq"
    and r: "\<And>v. fst (acq ctx (priced req c key) v) = r" "printable r"
  shows "\<exists>w' p b. Handle (payment_processor acq) ctx req key w = (Inr (), w')
    \<and> p \<in> set (t_payments (db w')) \<and> p_idempotency_key p = key
    \<and> uuid_in (q_reservation_id req) = Some (p_reservation_id p) \<and> p_amount_cents p = c_amount_cents c
    \<and> (p_status p, p_gateway_ref p, p_failure_reason p) = verdict_of r
    \<and> b \<in> set (t_outbox (db w')) \<and> o_event_type b = outcome_type (p_status p)
    \<and> reports b p (p_gateway_ref p) (p_failure_reason p)"
proof -
  let ?q = "new_payment req c key (fst (uid_New w))"
  from pay obtain k where k: "uuid_in (q_reservation_id req) = Some k" "find_context (db w) k = Some c"
    by (auto simp: payable_def)
  then have ne: "q_reservation_id req \<noteq> ''''" by auto
  obtain d where l: "loadOrCreate (payment_processor acq) req c key w
      = (Inr ?q, w\<lparr>rng_pos := rng_pos w + 16, db := d\<rparr>)"
    using loadOrCreate_new [OF w(1) pay new fr] by blast
  let ?w1 = "w\<lparr>rng_pos := rng_pos w + 16, db := d\<rparr>"
  from loadOrCreate_loaded(2) [OF l] new obtain p where op: "opens (db w) ?q p d" by auto
  then have p: "p \<in> set (t_payments d)" "copy_of ?q p" "t_outbox d = t_outbox (db w)"
    by (auto simp: opens_def)
  have "\<exists>w' st g e b. decide (payment_processor acq) ctx req c key ?q ?w1 = (Inr (), w')
    \<and> verdict_of r = (st, g, e) \<and> decides (db ?w1) ?q st g e b (db w')"
    using w p(2,3) win acq r fr pay
    by (intro decide_run [where w = ?w1 and ?w0.0 = w and k = "p_id p"])
      (simp_all add: copy_of_def payable_def, simp_all add: new_payment_def)
  then obtain w' st g e b where d: "decide (payment_processor acq) ctx req c key ?q ?w1 = (Inr (), w')"
    and v: "verdict_of r = (st, g, e)" and dec: "decides d ?q st g e b (db w')" by auto
  have "q_user_id req = c_user_id c" "c_user_id c \<noteq> ''''" "key \<noteq> ''''" using pay by (auto simp: payable_def)
  then have "Handle (payment_processor acq) ctx req key w = (Inr (), w')"
    using waitContext_run [OF w(1) k] l d ne
    by (simp add: Handle_def andThen_def wrapErr_def)
  then show ?thesis
    using decides_row [OF dec p(1,2)] v p(2)
    by (intro exI [of _ w'] exI [of _ "p\<lparr>p_status := st, p_gateway_ref := g, p_failure_reason := e\<rparr>"] exI [of _ b])
      (auto simp: copy_of_def new_payment_def)
qed

theorem charge_decides_witness:
  "\<exists>w' p. Handle (payment_processor px_decline) None (px_request px_reservation ''user-1'') ''key-1''
      (px_world px_projected px_now) = (Inr (), w')
    \<and> p \<in> set (t_payments (db w')) \<and> p_status p = PAY_FAILED \<and> p_failure_reason p = ''card declined''"
proof -
  have r: "fst (px_decline None (priced (px_request px_reservation ''user-1'') px_context ''key-1'') v)
      = Inl (Plain ''card declined'')" for v
    by (simp add: px_decline_def SimulatedAcquirer_Charge_def priced_def px_request_def andThen_def reading_def)
  have "printable (Inl (Plain ''card declined''))" by (simp add: printable_def text_ok_def)
  from charge_decides [OF px_healthy _ _ _ _ _ px_safe(2) r this, of px_projected px_now] px_payable(1) px_fresh(1)
  show ?thesis by (fastforce simp: find_payment_def px_projected_def px_context_def verdict_of_def)
qed

text \<open>C21: Overlapping deliveries can overturn a decision.  A delivery that loaded the payment while it
  was PENDING and reaches its decision after the window elapsed marks the payment FAILED and announces
  payment.failed, although another delivery has succeeded in the meantime: the update has no guard on
  the status it replaces.\<close>

theorem stale_delivery_overturns:
  assumes w: "healthy w" "tx w = NoTx" "fresh_ids w"
    and p: "p \<in> set (t_payments (db w))" "p_status p = PAY_SUCCEEDED"
    and q: "copy_of q p" "p_status q = PAY_PENDING" "text_ok (p_reservation_id q)"
    and late: "c_expires_at c < wall w"
  shows "\<exists>w' p' b. decide (payment_processor acq) ctx req c key q w = (Inr (), w')
    \<and> p' \<in> set (t_payments (db w')) \<and> p_id p' = p_id p \<and> p_status p' = PAY_FAILED
    \<and> b \<in> set (t_outbox (db w')) \<and> o_event_type b = TypePaymentFailed \<and> o_correlation_id b = p_reservation_id q"
proof -
  let ?r = "''reservation window elapsed''"
  have t: "text_ok ''''" "text_ok ?r" by (simp_all add: text_ok_def)
  from q(1) have "uuid_in (p_id q) = Some (p_id p)" by (simp add: copy_of_def)
  from finish_run [OF w(1,2) this q(3) t fresh_uid(1) [OF w(3)], of acq False] obtain w' where
    f: "finish (payment_processor acq) q '''' ?r False w = (Inr (), w')" by blast
  from finish_effect(2) [OF f w(2) refl] obtain b where dec: "decides (db w) q PAY_FAILED '''' ?r b (db w')" by auto
  have "decide (payment_processor acq) ctx req c key q w = (Inr (), w')"
    using f q(2) late by (simp add: decide_def reading_def time_after_def)
  with decides_row [OF dec p(1) q(1)] dec show ?thesis
    by (intro exI [of _ w'] exI [of _ "p\<lparr>p_status := PAY_FAILED, p_gateway_ref := '''', p_failure_reason := ?r\<rparr>"]
        exI [of _ b]) (auto simp: decides_def)
qed

theorem stale_delivery_overturns_witness:
  "\<exists>w' p'. decide (payment_processor px_approve) None (px_request px_reservation ''user-1'') px_context ''key-1''
      (px_payment PAY_PENDING) (px_world px_paid (px_now + 900000000001)) = (Inr (), w')
    \<and> p' \<in> set (t_payments (db w')) \<and> p_id p' = px_payment_id \<and> p_status p' = PAY_FAILED"
proof -
  have "copy_of (px_payment PAY_PENDING) (px_payment PAY_SUCCEEDED)" by (simp add: copy_of_def px_payment_def)
  from stale_delivery_overturns [OF px_healthy _ _ _ _ this, of px_paid "px_now + 900000000001" px_context]
    px_fresh(2) show ?thesis
    by (fastforce simp: px_paid_def px_payment_def px_context_def)
qed

text \<open>C22: The idempotency key is global.  When the key of a valid command for one reservation was
  used for another one before, the delivery succeeds, records the outcome of the other reservation
  once more, and makes no payment at all for the reservation it was asked to pay.\<close>

theorem shared_key_pays_nothing:
  assumes w: "healthy w" "tx w = NoTx" "payment_inv (db w)" "fresh_ids w"
    and pay: "payable (db w) req c key" and k: "uuid_in (q_reservation_id req) = Some k"
    and p: "find_payment (db w) key = Some p" "p_status p \<noteq> PAY_PENDING" "p_reservation_id p \<noteq> k"
  shows "\<exists>w' b. Handle (payment_processor acq) ctx req key w = (Inr (), w')
    \<and> t_payments (db w') = t_payments (db w) \<and> t_outbox (db w') = t_outbox (db w) @ [b]
    \<and> o_event_type b = outcome_type (p_status p) \<and> o_correlation_id b = p_reservation_id p"
proof -
  from pay k have c: "find_context (db w) k = Some c" by (auto simp: payable_def)
  have ne: "q_reservation_id req \<noteq> ''''" using k by auto
  have inp: "p \<in> set (t_payments (db w))" using p(1) by (auto simp: find_payment_def dest: find_SomeD)
  then have "uuid_in (p_reservation_id p) = Some (p_reservation_id p)"
    using w(3) by (auto simp: payment_inv_def wf_payments_def)
  then have tok: "text_ok (p_reservation_id p)" by (rule uuid_text_ok)
  let ?w1 = "w\<lparr>rng_pos := rng_pos w + 16\<rparr>"
  have l: "loadOrCreate (payment_processor acq) req c key w = (Inr p, ?w1)"
    by (rule loadOrCreate_old [OF w(1,2) pay p(1)])
  have "fst (uid_New ?w1) \<notin> o_id ` set (t_outbox (db ?w1))"
    by (rule fresh_ids_later [OF w(4)]) simp_all
  with w(1) tok p(2) obtain d b where ro: "recordOutcome (payment_processor acq) p ?w1
      = (Inr (), ?w1\<lparr>rng_pos := rng_pos ?w1 + 16, db := d\<rparr>)"
    and b: "adds_row (db w) b d" "o_event_type b = outcome_type (p_status p)"
      "o_correlation_id b = p_reservation_id p"
    using recordOutcome_run [of ?w1 p acq] by auto
  let ?w2 = "?w1\<lparr>rng_pos := rng_pos ?w1 + 16, db := d\<rparr>"
  have "q_user_id req = c_user_id c" "c_user_id c \<noteq> ''''" "key \<noteq> ''''" using pay by (auto simp: payable_def)
  then have "Handle (payment_processor acq) ctx req key w = (Inr (), ?w2)"
    using waitContext_run [OF w(1) k c] l ro ne p(2)
    by (simp add: Handle_def andThen_def wrapErr_def decide_def)
  with b show ?thesis
    by (intro exI [of _ ?w2] exI [of _ b]) (auto simp: adds_row_def)
qed

theorem shared_key_pays_nothing_witness:
  "\<exists>w' b. Handle (payment_processor px_approve) None (px_request px_other ''user-1'') ''key-1''
      (px_world px_paid px_now) = (Inr (), w')
    \<and> t_payments (db w') = [px_payment PAY_SUCCEEDED] \<and> o_correlation_id b = px_reservation
    \<and> t_outbox (db w') = [px_row, b]"
proof -
  have pay: "payable px_paid (px_request px_other ''user-1'') (px_context\<lparr>c_reservation_id := px_other\<rparr>) ''key-1''"
    by (simp add: payable_def px_request_def px_paid_def find_context_def px_context_def)
  have "uuid_in (q_reservation_id (px_request px_other ''user-1'')) = Some px_other"
    by (simp add: px_request_def)
  from shared_key_pays_nothing [OF px_healthy _ _ _ _ this, of px_paid px_now _ "''key-1''" "px_payment PAY_SUCCEEDED"]
    px_paid_inv px_fresh(2) pay show ?thesis
    by (fastforce simp: find_payment_def px_paid_def px_payment_def)
qed

end
