(* ===== verification/Broker.thy ===== *)
theory Broker
  imports EventBus
begin

text \<open>
  The broker as its clients see it.  The interface \<open>eventbus.Publisher\<close> is the locale \<open>publisher\<close>; the
  NATS server behind JetStream is the locale \<open>nats_server\<close>, and publishing through JetStream turns one
  into the other.  A reference server, with a script of failures and a deduplication window, shows that
  the laws can hold.  Then the start of a connection and the paced redelivery of a message.
\<close>

section \<open>Publishers\<close>

text \<open>What of a message is on record: the trace headers are not.\<close>

type_synonym sent = "string \<times> string \<times> payload"

definition sent_of :: "message \<Rightarrow> sent" where
  "sent_of msg = (m_id msg, m_subject msg, m_payload msg)"

text \<open>
  A nil error means that the broker has the message, or had one with its id inside the deduplication
  window; an error leaves it open.  Nothing else of the caller's state (\<open>kept\<close>) changes.
\<close>

locale publisher =
  fixes pub :: "message \<Rightarrow> ('s, unit) op"
    and accepted :: "'s \<Rightarrow> sent list"
    and kept :: "'s \<Rightarrow> 'k"
  assumes pub_ok: "pub msg s = (Inr u, s') \<Longrightarrow> accepted s' = accepted s @ [sent_of msg]
      \<or> (accepted s' = accepted s \<and> m_id msg \<in> fst ` set (accepted s))"
    and pub_err: "pub msg s = (Inl e, s') \<Longrightarrow>
      accepted s' = accepted s \<or> accepted s' = accepted s @ [sent_of msg]"
    and pub_kept: "pub msg s = (x, s') \<Longrightarrow> kept s' = kept s"
begin

text \<open>The log only grows, by at most the message itself.\<close>

lemma pub_once:
  assumes "pub msg s = (x, s')"
  shows "accepted s' = accepted s \<or> accepted s' = accepted s @ [sent_of msg]"
  using assms by (cases x) (auto dest: pub_ok pub_err)

lemma pub_grows:
  assumes "pub msg s = (x, s')"
  shows "\<exists>new. accepted s' = accepted s @ new \<and> set new \<subseteq> {sent_of msg}"
  using pub_once [OF assms] by fastforce

lemma pub_accepted:
  assumes "pub msg s = (Inr u, s')"
  shows "m_id msg \<in> fst ` set (accepted s')"
  using pub_ok [OF assms] by (auto simp: sent_of_def)

lemma pub_mono: "pub msg s = (x, s') \<Longrightarrow> set (accepted s) \<subseteq> set (accepted s')"
  using pub_grows by fastforce

end

section \<open>The server behind JetStream\<close>

definition wire_sent :: "nats_msg \<Rightarrow> sent" where
  "wire_sent nm = (hdr (n_header nm) NatsMsgId, n_subject nm, n_data nm)"

locale nats_server =
  fixes send :: "nats_msg \<Rightarrow> ('s, unit) op"
    and stored :: "'s \<Rightarrow> nats_msg list"
    and kept :: "'s \<Rightarrow> 'k"
  assumes send_ok: "send nm s = (Inr u, s') \<Longrightarrow> stored s' = stored s @ [nm]
      \<or> (stored s' = stored s \<and> (\<exists>old\<in>set (stored s). hdr (n_header old) NatsMsgId = hdr (n_header nm) NatsMsgId))"
    and send_err: "send nm s = (Inl e, s') \<Longrightarrow> stored s' = stored s \<or> stored s' = stored s @ [nm]"
    and send_kept: "send nm s = (x, s') \<Longrightarrow> kept s' = kept s"

lemma wire_sent_js [simp]: "wire_sent (js_wire inject msg) = sent_of msg"
  by (simp add: wire_sent_def js_wire_def sent_of_def hdr_def)

text \<open>\<open>JetStream.Publish\<close> over such a server is a publisher.\<close>

sublocale nats_server \<subseteq> js: publisher "js_publish inject send" "\<lambda>s. map wire_sent (stored s)" kept
proof unfold_locales
  fix msg s u s'
  assume "js_publish inject send msg s = (Inr u, s')"
  then have ok: "send (js_wire inject msg) s = (Inr u, s')" by (simp add: js_publish_def)
  have id: "hdr (n_header (js_wire inject msg)) NatsMsgId = m_id msg" by (simp add: js_wire_def hdr_def)
  from send_ok [OF ok] show "map wire_sent (stored s') = map wire_sent (stored s) @ [sent_of msg]
      \<or> (map wire_sent (stored s') = map wire_sent (stored s) \<and> m_id msg \<in> fst ` set (map wire_sent (stored s)))"
  proof (elim disjE conjE bexE)
    fix old assume "stored s' = stored s" "old \<in> set (stored s)"
      "hdr (n_header old) NatsMsgId = hdr (n_header (js_wire inject msg)) NatsMsgId"
    then have "wire_sent old \<in> set (map wire_sent (stored s))" "fst (wire_sent old) = m_id msg"
      by (simp, simp add: wire_sent_def id)
    then show ?thesis using \<open>stored s' = stored s\<close> by (metis imageI)
  qed simp
next
  fix msg s e s'
  assume "js_publish inject send msg s = (Inl e, s')"
  then have "send (js_wire inject msg) s = (Inl e, s')" by (simp add: js_publish_def)
  from send_err [OF this] show "map wire_sent (stored s') = map wire_sent (stored s)
      \<or> map wire_sent (stored s') = map wire_sent (stored s) @ [sent_of msg]"
    by (elim disjE) simp_all
next
  fix msg s x s'
  assume "js_publish inject send msg s = (x, s')"
  then show "kept s' = kept s" by (simp add: js_publish_def send_kept)
qed

section \<open>A reference server\<close>

text \<open>
  \<open>br_old\<close> is the number of messages that have left the deduplication window; each entry of
  \<open>br_script\<close> is the fate of one publish: refused, or stored with its reply lost.
\<close>

datatype publish_fault = PubRefused | PubAckLost

record broker =
  br_log :: "nats_msg list"
  br_old :: nat
  br_script :: "publish_fault option list"

definition br_store :: "nats_msg \<Rightarrow> broker \<Rightarrow> broker" where
  "br_store nm b =
     (if \<exists>old\<in>set (drop (br_old b) (br_log b)). hdr (n_header old) NatsMsgId = hdr (n_header nm) NatsMsgId
      then b else b\<lparr>br_log := br_log b @ [nm]\<rparr>)"

text \<open>The broker is a part of the state of its client, read by \<open>get\<close> and changed by \<open>upd\<close>.\<close>

definition br_send ::
  "('s \<Rightarrow> broker) \<Rightarrow> ((broker \<Rightarrow> broker) \<Rightarrow> 's \<Rightarrow> 's) \<Rightarrow> nats_msg \<Rightarrow> ('s, unit) op" where
  "br_send get upd nm s =
     (case br_script (get s) of
        [] \<Rightarrow> (Inr (), upd (br_store nm) s)
      | f # fs \<Rightarrow>
          (case f of
             Some PubRefused \<Rightarrow> (Inl (Plain ''nats: no responders available for request''),
               upd (\<lambda>b. b\<lparr>br_script := fs\<rparr>) s)
           | Some PubAckLost \<Rightarrow> (Inl (Plain ''nats: timeout''),
               upd (\<lambda>b. br_store nm (b\<lparr>br_script := fs\<rparr>)) s)
           | None \<Rightarrow> (Inr (), upd (\<lambda>b. br_store nm (b\<lparr>br_script := fs\<rparr>)) s)))"

lemma br_store_log:
  "br_log (br_store nm b) = br_log b @ [nm]
   \<or> (br_log (br_store nm b) = br_log b
      \<and> (\<exists>old\<in>set (br_log b). hdr (n_header old) NatsMsgId = hdr (n_header nm) NatsMsgId))"
  by (auto simp: br_store_def dest: in_set_dropD)

lemma br_send_ok:
  assumes "br_send get upd nm s = (Inr u, s')" "\<And>f s. get (upd f s) = f (get s)"
  shows "br_log (get s') = br_log (get s) @ [nm] \<or> (br_log (get s') = br_log (get s)
    \<and> (\<exists>old\<in>set (br_log (get s)). hdr (n_header old) NatsMsgId = hdr (n_header nm) NatsMsgId))"
  using assms br_store_log [of nm "get s"] br_store_log [of nm "(get s)\<lparr>br_script := tl (br_script (get s))\<rparr>"]
  by (auto simp: br_send_def split: list.splits option.splits publish_fault.splits)

lemma br_send_err:
  assumes "br_send get upd nm s = (Inl e, s')" "\<And>f s. get (upd f s) = f (get s)"
  shows "br_log (get s') = br_log (get s) \<or> br_log (get s') = br_log (get s) @ [nm]"
  using assms br_store_log [of nm "(get s)\<lparr>br_script := tl (br_script (get s))\<rparr>"]
  by (auto simp: br_send_def split: list.splits option.splits publish_fault.splits)

lemma br_send_frame:
  assumes "br_send get upd nm s = (x, s')" "\<And>f s. kept (upd f s) = kept s"
  shows "kept s' = kept s"
  using assms by (auto simp: br_send_def split: list.splits option.splits publish_fault.splits)

text \<open>The HTTP gateway keeps no tables; its broker is behind the world itself.\<close>

interpretation gw: nats_server "br_send world.more world.more_update" "\<lambda>s. br_log (world.more s)"
  "\<lambda>s. (wall s, rng s, rng_pos s, meter s)"
proof unfold_locales
  show "br_send world.more world.more_update nm s = (Inr u, s') \<Longrightarrow>
      br_log (world.more s') = br_log (world.more s) @ [nm] \<or> (br_log (world.more s') = br_log (world.more s)
      \<and> (\<exists>old\<in>set (br_log (world.more s)). hdr (n_header old) NatsMsgId = hdr (n_header nm) NatsMsgId))"
    for nm u and s s' :: "broker world_scheme"
    by (rule br_send_ok [where upd = world.more_update]) simp_all
  show "br_send world.more world.more_update nm s = (Inl e, s') \<Longrightarrow>
      br_log (world.more s') = br_log (world.more s) \<or> br_log (world.more s') = br_log (world.more s) @ [nm]"
    for nm e and s s' :: "broker world_scheme"
    by (rule br_send_err [where upd = world.more_update]) simp_all
  show "br_send world.more world.more_update nm s = (x, s') \<Longrightarrow>
      (wall s', rng s', rng_pos s', meter s') = (wall s, rng s, rng_pos s, meter s)"
    for nm x and s s' :: "broker world_scheme"
    by (rule br_send_frame [where kept = "\<lambda>s. (wall s, rng s, rng_pos s, meter s)"
        and get = world.more and upd = world.more_update and nm = nm and x = x]) simp_all
qed

section \<open>Connecting\<close>

fun ensure_streams :: "(stream_spec \<Rightarrow> duration \<Rightarrow> err option) \<Rightarrow> duration \<Rightarrow> stream_spec list \<Rightarrow> err + unit" where
  "ensure_streams create window [] = Inr ()"
| "ensure_streams create window (spec # specs) =
     (case create spec window of
        Some e \<Rightarrow> Inl (Wrapped (''eventbus: ensure stream '' @ ss_name spec @ '': '') e '''')
      | None \<Rightarrow> ensure_streams create window specs)"

text \<open>\<open>dial\<close> is the answer for a URL of \<open>nats.Connect\<close> and \<open>jetstream.New\<close>, \<open>create\<close> to \<open>CreateOrUpdateStream\<close>.\<close>

definition ConnectJetStream ::
  "(string \<Rightarrow> err option) \<Rightarrow> (stream_spec \<Rightarrow> duration \<Rightarrow> err option) \<Rightarrow> js_config \<Rightarrow> err + jetstream" where
  "ConnectJetStream dial create cfg =
     (case js_defaults cfg of
        Inl e \<Rightarrow> Inl e
      | Inr cfg' \<Rightarrow>
          (case dial (cfg_url cfg') of
             Some e \<Rightarrow> Inl e
           | None \<Rightarrow>
               (case ensure_streams create (cfg_dedup_window cfg') (cfg_streams cfg') of
                  Inl e \<Rightarrow> Inl e
                | Inr _ \<Rightarrow> Inr \<lparr>js_cfg = cfg', js_durables = [], js_closed = False\<rparr>)))"

definition broker_Connect ::
  "(string \<Rightarrow> err option) \<Rightarrow> (stream_spec \<Rightarrow> duration \<Rightarrow> err option) \<Rightarrow> string \<Rightarrow> string \<Rightarrow> err + jetstream" where
  "broker_Connect dial create url name =
     (case ConnectJetStream dial create (broker_config url name) of
        Inl e \<Rightarrow> Inl (Wrapped ''broker connect: '' e '''')
      | Inr bus \<Rightarrow> Inr bus)"

section \<open>Deliveries\<close>

text \<open>One fetched batch, message by message.\<close>

fun consume_batch :: "'s handler \<Rightarrow> nats_msg list \<Rightarrow> 's \<Rightarrow> verdict list \<times> 's" where
  "consume_batch h [] s = ([], s)"
| "consume_batch h (m # ms) s =
     (case js_handle h m s of (v, s1) \<Rightarrow>
       (case consume_batch h ms s1 of (vs, s2) \<Rightarrow> (v # vs, s2)))"

text \<open>
  The fetch loop, round by round, until the bus is closed: a round is closed, a failed fetch (logged, and
  the next round fetches again) or a batch.
\<close>

datatype fetched = LoopClosed | FetchFailed err | Fetched "nats_msg list"

fun consumeLoop :: "'s handler \<Rightarrow> fetched list \<Rightarrow> 's \<Rightarrow> verdict list \<times> 's" where
  "consumeLoop h [] s = ([], s)"
| "consumeLoop h (LoopClosed # rounds) s = ([], s)"
| "consumeLoop h (FetchFailed e # rounds) s = consumeLoop h rounds s"
| "consumeLoop h (Fetched batch # rounds) s =
     (case consume_batch h batch s of (vs, s1) \<Rightarrow>
       (case consumeLoop h rounds s1 of (us, s2) \<Rightarrow> (vs @ us, s2)))"

text \<open>
  The deliveries of one message: \<open>n\<close> of them are left of the budget \<open>MaxDeliver\<close>, the next one is the
  \<open>k\<close>-th.  The verdicts come with the delays they ask for; \<open>world\<close> is what happens in between.
\<close>

fun deliveries :: "'s handler \<Rightarrow> (duration \<Rightarrow> 's \<Rightarrow> 's) \<Rightarrow> nat \<Rightarrow> nat \<Rightarrow> nats_msg \<Rightarrow> 's \<Rightarrow> verdict list \<times> 's" where
  "deliveries h meanwhile 0 k m s = ([], s)"
| "deliveries h meanwhile (Suc n) k m s =
     (case js_handle h (m\<lparr>n_delivered := Some k\<rparr>) s of
        (Ack, s1) \<Rightarrow> ([Ack], s1)
      | (NakWithDelay d, s1) \<Rightarrow>
          (case deliveries h meanwhile n (Suc k) m (meanwhile d s1) of (vs, s2) \<Rightarrow> (NakWithDelay d # vs, s2)))"

fun pause_of :: "verdict \<Rightarrow> duration" where
  "pause_of Ack = 0"
| "pause_of (NakWithDelay d) = d"

lemma deliveries_pauses:
  "deliveries h meanwhile n k m s = (vs, s') \<Longrightarrow> length vs \<le> n \<and>
     (\<forall>i < length vs. pause_of (vs ! i) = 0 \<or> pause_of (vs ! i) = redeliveryDelay (k + i))"
proof (induction n arbitrary: k s vs s')
  case (Suc n)
  obtain v s1 where v: "js_handle h (m\<lparr>n_delivered := Some k\<rparr>) s = (v, s1)" by fastforce
  show ?case
  proof (cases v)
    case Ack
    with Suc.prems v show ?thesis by auto
  next
    case (NakWithDelay d)
    obtain ws s2 where ws: "deliveries h meanwhile n (Suc k) m (meanwhile d s1) = (ws, s2)" by fastforce
    from v NakWithDelay have "d = redeliveryDelay k"
      by (auto simp: js_handle_def split: prod.splits sum.splits)
    with Suc.prems v NakWithDelay ws Suc.IH [OF ws] show ?thesis
      by (auto simp: nth_Cons split: nat.splits)
  qed
qed simp

end
