(* ===== verification/Horizon.thy ===== *)
theory Horizon
  imports Outbox Broker "HOL-Library.Sublist"
begin

text \<open>
  \<open>internal/horizon\<close>: the outbox relay.  \<open>adapter/postgres/store.go\<close> reads the oldest rows without a
  processing time and marks rows as processed; a sweep publishes a batch in order, stops at the first
  failure and marks what the broker has accepted.  The interface the relay relies on is the locale
  \<open>outbox_relay\<close>, a publisher together with a store.
\<close>

section \<open>The store\<close>

record relay_record =
  hr_id :: string
  hr_subject :: string
  hr_payload :: payload
  hr_headers :: headers

definition relay_record_of :: "outbox_row \<Rightarrow> relay_record" where
  "relay_record_of r =
     \<lparr>hr_id = o_id r, hr_subject = o_subject r, hr_payload = Some (o_payload r),
      hr_headers = (if o_correlation_id r = '''' then Map.empty
                    else [''Correlation-Id'' \<mapsto> o_correlation_id r])\<rparr>"

definition unprocessed :: "outbox_row list \<Rightarrow> outbox_row list" where
  "unprocessed rows = filter (\<lambda>r. o_processed_at r = None) rows"

text \<open>
  \<open>ORDER BY created_at LIMIT n\<close>.  PostgreSQL does not say in which order it returns rows of the same
  instant: that is the parameter \<open>tie\<close>, which may depend on the table.
\<close>

type_synonym tie_break = "outbox_row list \<Rightarrow> outbox_row \<Rightarrow> nat"

definition oldest :: "tie_break \<Rightarrow> int \<Rightarrow> outbox_row list \<Rightarrow> outbox_row list" where
  "oldest tie n rows = take (nat n) (sort_key o_created_at (sort_key (tie rows) (unprocessed rows)))"

definition FetchBatch :: "tie_break \<Rightarrow> int \<Rightarrow> (('x outbox_db_scheme, 'm) pg_world_scheme, relay_record list) op" where
  "FetchBatch tie limit =
     stmt (\<lambda>now d. if limit < 0 then (Inl (PgError ''2201W''), d)
                   else (Inr (map relay_record_of (oldest tie limit (t_outbox d))), d))"

fun uuid_array :: "string list \<Rightarrow> string list option" where
  "uuid_array [] = Some []"
| "uuid_array (i # is) =
     (case (uuid_in i, uuid_array is) of (Some k, Some ks) \<Rightarrow> Some (k # ks) | _ \<Rightarrow> None)"

definition mark :: "instant \<Rightarrow> string list \<Rightarrow> outbox_row list \<Rightarrow> outbox_row list" where
  "mark t ids rows = map (\<lambda>r. if o_id r \<in> set ids \<and> o_processed_at r = None
     then r\<lparr>o_processed_at := Some t\<rparr> else r) rows"

definition MarkProcessed :: "string list \<Rightarrow> (('x outbox_db_scheme, 'm) pg_world_scheme, unit) op" where
  "MarkProcessed ids =
     (if ids = [] then ok ()
      else stmt (\<lambda>now d.
        case uuid_array ids of
          None \<Rightarrow> (Inl (PgError ''22P02''), d)
        | Some ks \<Rightarrow> (Inr (), d\<lparr>t_outbox := mark (timestamptz now) ks (t_outbox d)\<rparr>)))"

definition CountUnprocessed :: "(('x outbox_db_scheme, 'm) pg_world_scheme, int) op" where
  "CountUnprocessed = stmt (\<lambda>now d. (Inr (int (length (unprocessed (t_outbox d)))), d))"

section \<open>The relay\<close>

text \<open>The backlog counter is an optional capability of the store.\<close>

record 'm relay_store =
  rs_FetchBatch :: "int \<Rightarrow> ('m world_scheme, relay_record list) op"
  rs_MarkProcessed :: "string list \<Rightarrow> ('m world_scheme, unit) op"
  rs_CountUnprocessed :: "('m world_scheme, int) op option"

record 'm relay =
  rl_store :: "'m relay_store option"
  rl_bus :: "(message \<Rightarrow> ('m world_scheme, unit) op) option"
  rl_interval :: duration
  rl_batch :: int

definition NewRelay ::
  "'m relay_store option \<Rightarrow> (message \<Rightarrow> ('m world_scheme, unit) op) option \<Rightarrow> duration \<Rightarrow> int \<Rightarrow> 'm relay" where
  "NewRelay store bus interval batchSize =
     \<lparr>rl_store = store, rl_bus = bus, rl_interval = interval, rl_batch = batchSize\<rparr>"

definition relay_message :: "relay_record \<Rightarrow> message" where
  "relay_message rec =
     \<lparr>m_id = hr_id rec, m_subject = hr_subject rec, m_payload = hr_payload rec, m_headers = hr_headers rec\<rparr>"

text \<open>The loop over the batch: the ids published so far, and whether it stopped on a failure.\<close>

fun publish_batch ::
  "(message \<Rightarrow> ('s, unit) op) \<Rightarrow> relay_record list \<Rightarrow> string list \<Rightarrow> 's \<Rightarrow> (string list \<times> bool) \<times> 's" where
  "publish_batch pub [] published s = ((published, False), s)"
| "publish_batch pub (rec # recs) published s =
     (case pub (relay_message rec) s of
        (Inl e, s') \<Rightarrow> ((published, True), s')
      | (Inr _, s') \<Rightarrow> publish_batch pub recs (published @ [hr_id rec]) s')"

definition relay_counts :: "int \<Rightarrow> bool \<Rightarrow> 'm world_scheme \<Rightarrow> 'm world_scheme" where
  "relay_counts published failed w =
     (let w1 = (if 0 < published then count [''pulsar_horizon_events_relayed_total'', itoa published] w else w)
      in if failed then count [''pulsar_horizon_relay_failures_total''] w1 else w1)"

definition recordBacklog :: "'m relay_store \<Rightarrow> ('m world_scheme, 'a) op \<Rightarrow> ('m world_scheme, 'a) op" where
  "recordBacklog store m =
     (case rs_CountUnprocessed store of
        None \<Rightarrow> m
      | Some counter \<Rightarrow>
          onResult counter (\<lambda>r. case r of
            Inl _ \<Rightarrow> m
          | Inr n \<Rightarrow> counting [''pulsar_horizon_outbox_backlog'', itoa n] m))"

definition relay_batch ::
  "'m relay_store \<Rightarrow> (message \<Rightarrow> ('m world_scheme, unit) op) \<Rightarrow> int \<Rightarrow> ('m world_scheme, unit) op" where
  "relay_batch store pub n =
     onResult (rs_FetchBatch store n) (\<lambda>r. case r of
       Inl e \<Rightarrow> reading (\<lambda>w. ((), relay_counts 0 True w)) (\<lambda>_. fail e)
     | Inr batch \<Rightarrow>
         reading (publish_batch pub batch []) (\<lambda>(published, failed).
         reading (\<lambda>w. ((), relay_counts (int (length published)) failed w)) (\<lambda>_.
           if published = [] then ok () else rs_MarkProcessed store published)))"

definition relay_sweep :: "'m relay \<Rightarrow> ('m world_scheme, unit) op" where
  "relay_sweep r =
     (case (rl_store r, rl_bus r) of
        (Some store, Some pub) \<Rightarrow> recordBacklog store (relay_batch store pub (rl_batch r))
      | _ \<Rightarrow> ok ())"

text \<open>
  \<open>Run\<close> for a number of ticks: a failing sweep is logged and the next tick sweeps again.
  \<open>time.NewTicker\<close> panics for an interval that is not positive.
\<close>

primrec relay_ticks :: "'m relay \<Rightarrow> nat \<Rightarrow> 'm world_scheme \<Rightarrow> 'm world_scheme" where
  "relay_ticks r 0 w = w"
| "relay_ticks r (Suc ticks) w = relay_ticks r ticks (snd (relay_sweep r w))"

definition relay_run :: "'m relay \<Rightarrow> nat \<Rightarrow> 'm world_scheme \<Rightarrow> 'm world_scheme option" where
  "relay_run r ticks w = (if rl_interval r \<le> 0 then None else Some (relay_ticks r ticks w))"

section \<open>What the relay relies on, and what it does\<close>

definition sent_row :: "outbox_row \<Rightarrow> sent" where
  "sent_row r = (o_id r, o_subject r, Some (o_payload r))"

lemma sent_relay_message [simp]: "sent_of (relay_message (relay_record_of r)) = sent_row r"
  by (simp add: sent_of_def relay_message_def relay_record_of_def sent_row_def)

lemma relay_message_id [simp]: "m_id (relay_message rec) = hr_id rec" "hr_id (relay_record_of r) = o_id r"
  by (simp_all add: relay_message_def relay_record_of_def)

context publisher
begin

text \<open>A batch puts a subsequence of itself on the log, in order; the ids it reports are on it.\<close>

lemma publish_batch_effect:
  assumes "publish_batch pub (map relay_record_of rs) done s = ((published, failed), s')"
  shows "kept s' = kept s \<and> (\<exists>k new. k \<le> length rs \<and> published = done @ map o_id (take k rs)
    \<and> accepted s' = accepted s @ new \<and> subseq new (map sent_row (take (Suc k) rs))
    \<and> set (map o_id (take k rs)) \<subseteq> fst ` set (accepted s') \<and> (\<not> failed \<longrightarrow> k = length rs))"
  using assms
proof (induction rs arbitrary: "done" s)
  case Nil
  then show ?case by auto
next
  case (Cons r rs)
  obtain y s1 where y: "pub (relay_message (relay_record_of r)) s = (y, s1)" by fastforce
  from pub_grows [OF y] obtain new1 where
    n1: "accepted s1 = accepted s @ new1" "set new1 \<subseteq> {sent_row r}" by auto
  have sub1: "subseq new1 [sent_row r]"
    using y pub_ok [of "relay_message (relay_record_of r)" s _ s1] pub_err [of "relay_message (relay_record_of r)" s _ s1] n1(1)
    by (cases y) auto
  show ?case
  proof (cases y)
    case (Inl e)
    with Cons.prems y have s': "s' = s1" "published = done" "failed" by simp_all
    have "subseq new1 (map sent_row (take (Suc 0) (r # rs)))" using sub1 by simp
    then show ?thesis
      using n1(1) pub_kept [OF y] s' by (intro conjI exI [of _ 0] exI [of _ new1]) auto
  next
    case (Inr u)
    with Cons.prems y have "publish_batch pub (map relay_record_of rs) (done @ [o_id r]) s1 = ((published, failed), s')"
      by simp
    note ih = Cons.IH [OF this]
    then have kept: "kept s' = kept s1" by simp
    from ih obtain k new where
      k: "k \<le> length rs" "published = done @ [o_id r] @ map o_id (take k rs)"
      "accepted s' = accepted s1 @ new" "subseq new (map sent_row (take (Suc k) rs))"
      "set (map o_id (take k rs)) \<subseteq> fst ` set (accepted s')" "\<not> failed \<longrightarrow> k = length rs"
      unfolding append_assoc by blast
    have "o_id r \<in> fst ` set (accepted s1)"
      using pub_accepted [of "relay_message (relay_record_of r)" s u s1] y Inr by simp
    then have "set (map o_id (take (Suc k) (r # rs))) \<subseteq> fst ` set (accepted s')"
      using k(3,5) by auto
    moreover have "subseq (new1 @ new) (map sent_row (take (Suc (Suc k)) (r # rs)))"
      using list_emb_append_mono [OF sub1 k(4)] by simp
    ultimately show ?thesis
      using k(1,2,3,6) n1(1) kept pub_kept [OF y]
      by (intro conjI exI [of _ "Suc k"] exI [of _ "new1 @ new"]) auto
  qed
qed

end

locale outbox_relay = publisher pub accepted rows
  for pub :: "message \<Rightarrow> ('m world_scheme, unit) op" and accepted :: "'m world_scheme \<Rightarrow> sent list"
    and rows :: "'m world_scheme \<Rightarrow> outbox_row list" +
  fixes store :: "'m relay_store" and tie :: tie_break
  assumes fetch_ok: "rs_FetchBatch store n s = (Inr recs, s') \<Longrightarrow>
      rows s' = rows s \<and> accepted s' = accepted s \<and> recs = map relay_record_of (oldest tie n (rows s))"
    and fetch_err: "rs_FetchBatch store n s = (Inl e, s') \<Longrightarrow> rows s' = rows s \<and> accepted s' = accepted s"
    and mark_effect: "rs_MarkProcessed store ids s = (x, s') \<Longrightarrow> accepted s' = accepted s \<and>
      (rows s' = rows s \<or> (\<exists>t ks. uuid_array ids = Some ks \<and> rows s' = mark t ks (rows s)))"
    and count_effect: "rs_CountUnprocessed store = Some counter \<Longrightarrow> counter s = (y, s') \<Longrightarrow>
      rows s' = rows s \<and> accepted s' = accepted s"
    and meter_effect: "rows (count c s) = rows s \<and> accepted (count c s) = accepted s"
begin

lemma relay_counts_effect: "rows (relay_counts n b s) = rows s" "accepted (relay_counts n b s) = accepted s"
  by (simp_all add: relay_counts_def meter_effect)

text \<open>One sweep: a subsequence of the oldest rows goes on the log, and at most rows that are on the
  log are marked.\<close>

lemma sweep_effect:
  assumes run: "relay_sweep \<lparr>rl_store = Some store, rl_bus = Some pub, rl_interval = i, rl_batch = n\<rparr> s = (x, s')"
  shows "\<exists>k new. accepted s' = accepted s @ new
    \<and> subseq new (map sent_row (take (Suc k) (oldest tie n (rows s))))
    \<and> set (map o_id (take k (oldest tie n (rows s)))) \<subseteq> fst ` set (accepted s')
    \<and> (rows s' = rows s \<or> (\<exists>t ks. uuid_array (map o_id (take k (oldest tie n (rows s)))) = Some ks
         \<and> rows s' = mark t ks (rows s)))"
proof -
  have "\<exists>s1. relay_batch store pub n s1 = (x, s') \<and> rows s1 = rows s \<and> accepted s1 = accepted s"
  proof (cases "rs_CountUnprocessed store")
    case None
    with run show ?thesis by (auto simp: relay_sweep_def recordBacklog_def)
  next
    case (Some counter)
    obtain y s1 where y: "counter s = (y, s1)" by fastforce
    from run Some y have "relay_batch store pub n (case y of Inl e \<Rightarrow> s1
        | Inr m \<Rightarrow> count [''pulsar_horizon_outbox_backlog'', itoa m] s1) = (x, s')"
      by (simp add: relay_sweep_def recordBacklog_def onResult_def split: sum.splits)
    with count_effect [OF Some y] show ?thesis
      by (cases y) (auto simp: meter_effect)
  qed
  then obtain s1 where b: "relay_batch store pub n s1 = (x, s')"
    and s1: "rows s1 = rows s" "accepted s1 = accepted s" by blast
  obtain y s2 where y: "rs_FetchBatch store n s1 = (y, s2)" by fastforce
  show ?thesis
  proof (cases y)
    case (Inl e)
    with b y have "s' = relay_counts 0 True s2"
      by (simp add: relay_batch_def onResult_def reading_def)
    with fetch_err [of n s1 e s2] y Inl s1 show ?thesis
      by (intro exI [of _ 0] exI [of _ "[]"]) (auto simp: relay_counts_effect)
  next
    case (Inr recs)
    with fetch_ok [of n s1 recs s2] y s1 have s2: "rows s2 = rows s" "accepted s2 = accepted s"
      and recs: "recs = map relay_record_of (oldest tie n (rows s))" by auto
    obtain published failed s3 where p: "publish_batch pub recs [] s2 = ((published, failed), s3)"
      by (metis surj_pair)
    note eff = publish_batch_effect [OF p [unfolded recs]]
    then have k5: "rows s3 = rows s2" by simp
    from eff obtain k new where
      k: "published = map o_id (take k (oldest tie n (rows s)))" "accepted s3 = accepted s2 @ new"
      "subseq new (map sent_row (take (Suc k) (oldest tie n (rows s))))"
      "set (map o_id (take k (oldest tie n (rows s)))) \<subseteq> fst ` set (accepted s3)"
      unfolding append_Nil by blast
    let ?s4 = "relay_counts (int (length published)) failed s3"
    have "accepted s' = accepted s3 \<and> (rows s' = rows s \<or>
        (\<exists>t ks. uuid_array published = Some ks \<and> rows s' = mark t ks (rows s)))"
    proof (cases "published = []")
      case True
      with b y Inr p k5 s2 show ?thesis
        by (auto simp: relay_batch_def onResult_def reading_def relay_counts_effect)
    next
      case False
      with b y Inr p have "rs_MarkProcessed store published ?s4 = (x, s')"
        by (simp add: relay_batch_def onResult_def reading_def)
      from mark_effect [OF this] k5 s2 show ?thesis by (simp add: relay_counts_effect)
    qed
    with k s2 show ?thesis by (intro exI [of _ k] exI [of _ new]) auto
  qed
qed

end

section \<open>Nothing is lost, nothing is invented\<close>

definition outbox_wf :: "outbox_row list \<Rightarrow> bool" where
  "outbox_wf rows \<longleftrightarrow> distinct (map o_id rows) \<and> (\<forall>r\<in>set rows. uuid_in (o_id r) = Some (o_id r))"

definition on_log :: "outbox_row list \<Rightarrow> sent list \<Rightarrow> bool" where
  "on_log rows log \<longleftrightarrow> (\<forall>r\<in>set rows. o_processed_at r \<noteq> None \<longrightarrow> sent_row r \<in> set log)"

text \<open>Identifiers are global: what the broker has under the id of a row is that row.\<close>

definition ids_agree :: "outbox_row list \<Rightarrow> sent list \<Rightarrow> bool" where
  "ids_agree rows log \<longleftrightarrow> (\<forall>r\<in>set rows. \<forall>m\<in>set log. fst m = o_id r \<longrightarrow> m = sent_row r)"

definition relay_inv :: "outbox_row list \<Rightarrow> sent list \<Rightarrow> bool" where
  "relay_inv rows log \<longleftrightarrow> outbox_wf rows \<and> ids_agree rows log \<and> on_log rows log"

lemma uuid_array_canonical:
  "\<forall>r\<in>set rs. uuid_in (o_id r) = Some (o_id r) \<Longrightarrow> uuid_array (map o_id rs) = Some (map o_id rs)"
  by (induction rs) auto

lemma oldest_set: "set (oldest tie n rows) \<subseteq> set (unprocessed rows)"
  by (auto simp: oldest_def dest: in_set_takeD)

lemma oldest_rows: "r \<in> set (oldest tie n rows) \<Longrightarrow> r \<in> set rows \<and> o_processed_at r = None"
  using oldest_set by (fastforce simp: unprocessed_def)

lemma mark_ids [simp]: "map o_id (mark t ks rows) = map o_id rows"
  by (simp add: mark_def map_replace_key)

lemma sent_row_processed [simp]: "sent_row (r\<lparr>o_processed_at := t\<rparr>) = sent_row r"
  by (simp add: sent_row_def)

lemma sent_row_id [simp]: "fst (sent_row r) = o_id r"
  by (simp add: sent_row_def)

lemma subseq_set: "subseq xs ys \<Longrightarrow> set xs \<subseteq> set ys"
  by (metis set_nths_subset subseq_conv_nths)

lemma mark_rowE:
  "x \<in> set (mark t ks rows) \<Longrightarrow> \<exists>r\<in>set rows. o_id x = o_id r \<and> sent_row x = sent_row r
     \<and> (o_processed_at x = o_processed_at r \<or> o_id r \<in> set ks)"
  by (fastforce simp: mark_def)

text \<open>What a sweep does keeps the invariant.\<close>

lemma sweep_keeps:
  assumes inv: "relay_inv rows log" and new: "subseq new (map sent_row (take j (oldest tie n rows)))"
    and ids: "set (map o_id (take k (oldest tie n rows))) \<subseteq> fst ` set (log @ new)"
    and rows': "rows' = rows \<or> (\<exists>t ks. uuid_array (map o_id (take k (oldest tie n rows))) = Some ks
         \<and> rows' = mark t ks rows)"
  shows "relay_inv rows' (log @ new)"
proof -
  have wf: "outbox_wf rows" and ag: "ids_agree rows log" and ol: "on_log rows log"
    using inv by (auto simp: relay_inv_def)
  have sub: "\<exists>r\<in>set rows. m = sent_row r" if m: "m \<in> set new" for m
  proof -
    from subseq_set [OF new] m obtain r where "r \<in> set (take j (oldest tie n rows))" "m = sent_row r" by auto
    with oldest_rows [of r tie n rows] show ?thesis by (auto dest: in_set_takeD)
  qed
  have uniq: "r = r'" if "r \<in> set rows" "r' \<in> set rows" "o_id r = o_id r'" for r r'
    using wf that by (auto simp: outbox_wf_def dest: distinct_key_eq)
  have ag1: "ids_agree rows (log @ new)"
    unfolding ids_agree_def
  proof (intro ballI impI)
    fix r m assume r: "r \<in> set rows" and m: "m \<in> set (log @ new)" "fst m = o_id r"
    show "m = sent_row r"
    proof (cases "m \<in> set log")
      case True
      with ag r m(2) show ?thesis by (simp add: ids_agree_def)
    next
      case False
      with m(1) have "m \<in> set new" by simp
      from sub [OF this] obtain r' where r': "r' \<in> set rows" "m = sent_row r'" ..
      with uniq [OF r r'(1)] m(2) show ?thesis by simp
    qed
  qed
  have ol1: "on_log rows (log @ new)" using ol by (auto simp: on_log_def)
  show ?thesis
  proof (cases "rows' = rows")
    case True
    with wf ag1 ol1 show ?thesis by (simp add: relay_inv_def)
  next
    case False
    with rows' obtain t ks where ks: "uuid_array (map o_id (take k (oldest tie n rows))) = Some ks"
      and m: "rows' = mark t ks rows" by blast
    have "\<forall>r\<in>set (take k (oldest tie n rows)). uuid_in (o_id r) = Some (o_id r)"
      using wf oldest_rows unfolding outbox_wf_def by (meson in_set_takeD)
    with ks have ks': "set ks \<subseteq> fst ` set (log @ new)"
      using ids by (simp add: uuid_array_canonical)
    have "sent_row r \<in> set (log @ new)" if "r \<in> set rows" "o_id r \<in> set ks" for r
    proof -
      from that(2) ks' have "o_id r \<in> fst ` set (log @ new)" by blast
      then obtain m where "m \<in> set (log @ new)" "fst m = o_id r" by (metis imageE)
      with ag1 that(1) show ?thesis by (auto simp: ids_agree_def)
    qed
    with ol1 have "on_log rows' (log @ new)"
      unfolding m on_log_def by (metis mark_rowE)
    moreover have "ids_agree rows' (log @ new)"
      using ag1 unfolding m ids_agree_def by (metis mark_rowE)
    moreover have "outbox_wf rows'"
      using wf unfolding m outbox_wf_def mark_ids by (metis mark_rowE)
    ultimately show ?thesis by (simp add: relay_inv_def)
  qed
qed

section \<open>The relay over PostgreSQL and JetStream\<close>

definition pg_store :: "tie_break \<Rightarrow> ('x outbox_db_scheme, 'm) pg_world_ext relay_store" where
  "pg_store tie = \<lparr>rs_FetchBatch = FetchBatch tie, rs_MarkProcessed = MarkProcessed,
     rs_CountUnprocessed = Some CountUnprocessed\<rparr>"

abbreviation "br_pub inject \<equiv> js_publish inject (br_send pg_world.more pg_world.more_update)"

definition pg_relay ::
  "(headers \<Rightarrow> headers) \<Rightarrow> tie_break \<Rightarrow> duration \<Rightarrow> int \<Rightarrow> ('x outbox_db_scheme, broker) pg_world_ext relay" where
  "pg_relay inject tie interval n = NewRelay (Some (pg_store tie)) (Some (br_pub inject)) interval n"

abbreviation "br_sent w \<equiv> map wire_sent (br_log (pg_world.more w))"

interpretation nats: nats_server "br_send pg_world.more pg_world.more_update" "\<lambda>s. br_log (pg_world.more s)"
  "\<lambda>s. t_outbox (db s)"
proof unfold_locales
  show "br_send pg_world.more pg_world.more_update nm s = (Inr u, s') \<Longrightarrow>
      br_log (pg_world.more s') = br_log (pg_world.more s) @ [nm] \<or> (br_log (pg_world.more s') = br_log (pg_world.more s)
      \<and> (\<exists>old\<in>set (br_log (pg_world.more s)). hdr (n_header old) NatsMsgId = hdr (n_header nm) NatsMsgId))"
    for nm u and s s' :: "('x outbox_db_scheme, broker) pg_world_scheme"
    by (rule br_send_ok [where upd = pg_world.more_update]) simp_all
  show "br_send pg_world.more pg_world.more_update nm s = (Inl e, s') \<Longrightarrow>
      br_log (pg_world.more s') = br_log (pg_world.more s) \<or> br_log (pg_world.more s') = br_log (pg_world.more s) @ [nm]"
    for nm e and s s' :: "('x outbox_db_scheme, broker) pg_world_scheme"
    by (rule br_send_err [where upd = pg_world.more_update]) simp_all
  show "br_send pg_world.more pg_world.more_update nm s = (x, s') \<Longrightarrow> t_outbox (db s') = t_outbox (db s)"
    for nm x and s s' :: "('x outbox_db_scheme, broker) pg_world_scheme"
    by (rule br_send_frame [where kept = "\<lambda>s. t_outbox (db s)" and get = pg_world.more
        and upd = pg_world.more_update and nm = nm and x = x]) simp_all
qed

text \<open>A statement that only reads leaves the tables alone.\<close>

lemma read_rows:
  assumes "stmt f w = (r, w')" "\<And>now d. snd (f now d) = d"
  shows "db w' = db w"
proof (cases r)
  case (Inl e)
  from stmt_Inl [OF assms(1) [unfolded Inl]] assms(2) show ?thesis by (metis snd_conv)
next
  case (Inr a)
  from assms(1) [unfolded Inr] obtain d where d: "f (pg_clock w) (db w) = (Inr a, d)"
    and w': "w' = w\<lparr>faults := tl (faults w), db := d\<rparr>" by (rule stmt_Inr)
  from assms(2) [of "pg_clock w" "db w"] d have "d = db w" by simp
  with w' show ?thesis by simp
qed

lemma FetchBatch_db: "FetchBatch tie n w = (x, w') \<Longrightarrow> db w' = db w \<and> pg_world.more w' = pg_world.more w"
  by (auto simp: FetchBatch_def dest: read_rows stmt_frame(6) split: if_splits)

lemma FetchBatch_ok:
  "FetchBatch tie n w = (Inr recs, w') \<Longrightarrow> recs = map relay_record_of (oldest tie n (t_outbox (db w)))"
  by (auto simp: FetchBatch_def elim!: stmt_Inr split: if_splits)

lemma CountUnprocessed_db:
  "CountUnprocessed w = (x, w') \<Longrightarrow> db w' = db w \<and> pg_world.more w' = pg_world.more w"
  by (auto simp: CountUnprocessed_def dest: read_rows stmt_frame(6))

lemma MarkProcessed_effect:
  assumes "MarkProcessed ids w = (x, w')"
  shows "pg_world.more w' = pg_world.more w \<and> (t_outbox (db w') = t_outbox (db w) \<or>
    (\<exists>t ks. uuid_array ids = Some ks \<and> t_outbox (db w') = mark t ks (t_outbox (db w))))"
proof (cases "ids = []")
  case True
  with assms show ?thesis by (simp add: MarkProcessed_def)
next
  case False
  let ?f = "\<lambda>now d. case uuid_array ids of None \<Rightarrow> (Inl (PgError ''22P02''), d)
        | Some ks \<Rightarrow> (Inr (), d\<lparr>t_outbox := mark (timestamptz now) ks (t_outbox d)\<rparr>)"
  from assms False have st: "stmt ?f w = (x, w')" by (simp add: MarkProcessed_def)
  have "t_outbox d = t_outbox (db w) \<or> (\<exists>t ks. uuid_array ids = Some ks \<and> t_outbox d = mark t ks (t_outbox (db w)))"
    if "?f (pg_clock w) (db w) = (y, d)" for y d
    using that by (auto split: option.splits)
  with st show ?thesis
    using stmt_frame(6) [OF st] by (cases x) (fastforce dest!: stmt_Inl elim!: stmt_Inr)+
qed

interpretation hz: outbox_relay "br_pub inject" "\<lambda>s. map wire_sent (br_log (pg_world.more s))"
  "\<lambda>s. t_outbox (db s)" "pg_store tie" tie
  by unfold_locales
    (auto simp: pg_store_def count_def dest: FetchBatch_db FetchBatch_ok CountUnprocessed_db MarkProcessed_effect)

lemma relay_sweep_inv:
  assumes "relay_sweep (pg_relay inject tie i n) w = (x, w')" "relay_inv (t_outbox (db w)) (br_sent w)"
  shows "relay_inv (t_outbox (db w')) (br_sent w')"
    "map o_id (t_outbox (db w')) = map o_id (t_outbox (db w))"
proof -
  from assms(1) have run: "relay_sweep \<lparr>rl_store = Some (pg_store tie), rl_bus = Some (br_pub inject),
      rl_interval = i, rl_batch = n\<rparr> w = (x, w')"
    by (simp add: pg_relay_def NewRelay_def)
  obtain k new where
    eff: "br_sent w' = br_sent w @ new" "subseq new (map sent_row (take (Suc k) (oldest tie n (t_outbox (db w)))))"
      "set (map o_id (take k (oldest tie n (t_outbox (db w))))) \<subseteq> fst ` set (br_sent w')"
      "t_outbox (db w') = t_outbox (db w) \<or> (\<exists>t ks. uuid_array (map o_id (take k (oldest tie n (t_outbox (db w))))) = Some ks
         \<and> t_outbox (db w') = mark t ks (t_outbox (db w)))"
    using hz.sweep_effect [OF run] by blast
  from sweep_keeps [OF assms(2) eff(2) _ eff(4)] eff(1,3) show "relay_inv (t_outbox (db w')) (br_sent w')"
    by simp
  from eff(4) show "map o_id (t_outbox (db w')) = map o_id (t_outbox (db w))" by auto
qed

section \<open>The relay drains the outbox\<close>

definition ready :: "(('x outbox_db_scheme, broker) pg_world_scheme) \<Rightarrow> bool" where
  "ready w \<longleftrightarrow> healthy w \<and> br_script (pg_world.more w) = []"

lemma br_pub_run:
  "br_script (pg_world.more w) = [] \<Longrightarrow>
     br_pub inject msg w = (Inr (), pg_world.more_update (br_store (js_wire inject msg)) w)"
  by (simp add: js_publish_def br_send_def)

lemma br_store_script [simp]: "br_script (br_store nm b) = br_script b"
  by (simp add: br_store_def)

lemma publish_batch_run:
  "br_script (pg_world.more w) = [] \<Longrightarrow>
     \<exists>f. publish_batch (br_pub inject) rs done w = ((done @ map hr_id rs, False), pg_world.more_update f w)
       \<and> br_script (f (pg_world.more w)) = []"
proof (induction rs arbitrary: "done" w)
  case Nil
  have "pg_world.more_update (\<lambda>b. b) w = w" by (cases w) simp
  with Nil show ?case by (intro exI [of _ "\<lambda>b. b"]) simp
next
  case (Cons r rs)
  let ?w1 = "pg_world.more_update (br_store (js_wire inject (relay_message r))) w"
  from Cons.prems have "br_script (pg_world.more ?w1) = []" by simp
  from Cons.IH [OF this, of "done @ [hr_id r]"] obtain f where
    "publish_batch (br_pub inject) rs (done @ [hr_id r]) ?w1
      = ((done @ hr_id r # map hr_id rs, False), pg_world.more_update f ?w1)"
    "br_script (f (pg_world.more ?w1)) = []" by auto
  with Cons.prems show ?case
    by (intro exI [of _ "f \<circ> br_store (js_wire inject (relay_message r))"]) (simp add: br_pub_run comp_def)
qed

lemma stmt_read:
  assumes "healthy w" "f (pg_clock w) (db w) = (Inr a, db w)"
  shows "stmt f w = (Inr a, w)"
proof -
  have "w\<lparr>db := db w\<rparr> = w" by (cases w) simp
  with stmt_run [where f = f, OF assms] show ?thesis by simp
qed

lemma mark_nil [simp]: "mark t [] rows = rows"
  by (simp add: mark_def)

text \<open>A sweep on a working database and a working broker succeeds and marks exactly its batch.\<close>

lemma relay_sweep_run:
  assumes w: "ready w" and n: "0 \<le> n" and wf: "outbox_wf (t_outbox (db w))"
  shows "\<exists>w'. relay_sweep (pg_relay inject tie i n) w = (Inr (), w') \<and> ready w'
    \<and> t_outbox (db w') = mark (timestamptz (pg_clock w)) (map o_id (oldest tie n (t_outbox (db w)))) (t_outbox (db w))"
proof -
  let ?rows = "t_outbox (db w)" and ?b = "oldest tie n (t_outbox (db w))"
  have h: "healthy w" "br_script (pg_world.more w) = []" using w by (simp_all add: ready_def)
  have cnt: "CountUnprocessed w = (Inr (int (length (unprocessed ?rows))), w)"
    unfolding CountUnprocessed_def by (rule stmt_read [OF h(1)]) simp
  let ?w1 = "count [''pulsar_horizon_outbox_backlog'', itoa (int (length (unprocessed ?rows)))] w"
  have h1: "healthy ?w1" "br_script (pg_world.more ?w1) = []" "db ?w1 = db w" "pg_clock ?w1 = pg_clock w"
    using h by (simp_all add: count_def healthy_def)
  have fetch: "FetchBatch tie n ?w1 = (Inr (map relay_record_of ?b), ?w1)"
    unfolding FetchBatch_def by (rule stmt_read [OF h1(1)]) (use n h1(3) in simp)
  obtain f where pb: "publish_batch (br_pub inject) (map relay_record_of ?b) [] ?w1
      = ((map o_id ?b, False), pg_world.more_update f ?w1)"
    and f: "br_script (f (pg_world.more ?w1)) = []"
    using publish_batch_run [OF h1(2), of inject "map relay_record_of ?b" "[]"] by (auto simp: comp_def)
  let ?w2 = "relay_counts (int (length (map o_id ?b))) False (pg_world.more_update f ?w1)"
  have w2: "healthy ?w2" "br_script (pg_world.more ?w2) = []" "db ?w2 = db w" "pg_clock ?w2 = pg_clock w"
    using h1 f by (auto simp: relay_counts_def count_def healthy_def)
  have sweep: "relay_sweep (pg_relay inject tie i n) w
      = (if map o_id ?b = [] then (Inr (), ?w2) else MarkProcessed (map o_id ?b) ?w2)"
    using cnt fetch pb
    by (simp add: relay_sweep_def pg_relay_def NewRelay_def recordBacklog_def relay_batch_def pg_store_def
        onResult_def reading_def)
  show ?thesis
  proof (cases "?b = []")
    case True
    with sweep w2 show ?thesis by (simp add: ready_def)
  next
    case False
    have can: "\<forall>r\<in>set ?b. uuid_in (o_id r) = Some (o_id r)"
      using wf oldest_rows unfolding outbox_wf_def by metis
    let ?d = "(db w)\<lparr>t_outbox := mark (timestamptz (pg_clock w)) (map o_id ?b) ?rows\<rparr>"
    have "MarkProcessed (map o_id ?b) ?w2 = (Inr (), ?w2\<lparr>db := ?d\<rparr>)"
    proof -
      let ?f = "\<lambda>now d. case uuid_array (map o_id ?b) of None \<Rightarrow> (Inl (PgError ''22P02''), d)
        | Some ks \<Rightarrow> (Inr (), d\<lparr>t_outbox := mark (timestamptz now) ks (t_outbox d)\<rparr>)"
      have "?f (pg_clock ?w2) (db ?w2) = (Inr (), ?d)"
        unfolding w2 uuid_array_canonical [OF can] by simp
      from stmt_run [where f = ?f, OF w2(1) this] False show ?thesis by (simp add: MarkProcessed_def)
    qed
    with sweep False w2 show ?thesis by (simp add: ready_def)
  qed
qed

lemma unprocessed_mark:
  assumes wf: "outbox_wf rows"
  shows "length (unprocessed (mark t (map o_id (oldest tie n rows)) rows)) = length (unprocessed rows) - nat n"
proof -
  let ?S = "sort_key o_created_at (sort_key (tie rows) (unprocessed rows))" and ?P = "\<lambda>r. o_id r \<notin> set (map o_id (oldest tie n rows))"
  have mk: "unprocessed (mark t ids rs) = filter (\<lambda>r. o_id r \<notin> set ids) (unprocessed rs)" for ids rs
    by (induction rs) (auto simp: mark_def unprocessed_def)
  have "distinct (map o_id (unprocessed rows))"
    using wf by (simp add: outbox_wf_def unprocessed_def distinct_map_filter)
  then have inj: "inj_on o_id (set (unprocessed rows))" "distinct (unprocessed rows)"
    by (simp_all add: distinct_map)
  then have d: "distinct ?S" "inj_on o_id (set ?S)" by simp_all
  have split: "?S = oldest tie n rows @ drop (nat n) ?S" by (simp add: oldest_def)
  have none: "filter ?P (oldest tie n rows) = []" by (simp add: filter_empty_conv)
  have all: "filter ?P (drop (nat n) ?S) = drop (nat n) ?S"
  proof (rule filter_True, rule ballI)
    fix r assume r: "r \<in> set (drop (nat n) ?S)"
    show "?P r"
    proof
      assume "o_id r \<in> set (map o_id (oldest tie n rows))"
      then obtain y where y: "y \<in> set (oldest tie n rows)" "o_id r = o_id y" by auto
      from d(1) split have "set (oldest tie n rows) \<inter> set (drop (nat n) ?S) = {}"
        by (metis distinct_append)
      moreover have "r = y"
        using y r d(2) unfolding oldest_def by (meson in_set_dropD in_set_takeD inj_onD)
      ultimately show False using r y(1) by blast
    qed
  qed
  have "length (filter ?P (unprocessed rows)) = length (filter ?P ?S)"
    by (simp only: filter_sort length_sort)
  also have "\<dots> = length (drop (nat n) ?S)"
    by (subst split) (simp only: filter_append none all append_Nil)
  finally show ?thesis by (simp add: mk)
qed

lemma mark_wf [simp]: "outbox_wf (mark t ids rows) = outbox_wf rows"
proof -
  have "o_id ` set (mark t ids rows) = o_id ` set rows" by (metis mark_ids set_map)
  then have "(\<forall>i \<in> o_id ` set (mark t ids rows). uuid_in i = Some i) = (\<forall>i \<in> o_id ` set rows. uuid_in i = Some i)"
    by simp
  then show ?thesis unfolding outbox_wf_def mark_ids by simp
qed

lemma relay_ticks_drain:
  assumes "ready w" "0 \<le> n" "outbox_wf (t_outbox (db w))"
  shows "length (unprocessed (t_outbox (db (relay_ticks (pg_relay inject tie i n) ticks w))))
    = length (unprocessed (t_outbox (db w))) - ticks * nat n"
  using assms(1,3)
proof (induction ticks arbitrary: w)
  case (Suc ticks)
  from relay_sweep_run [OF Suc.prems(1) assms(2) Suc.prems(2), of inject tie i] obtain w' where
    w': "relay_sweep (pg_relay inject tie i n) w = (Inr (), w')" "ready w'"
    "t_outbox (db w') = mark (timestamptz (pg_clock w)) (map o_id (oldest tie n (t_outbox (db w)))) (t_outbox (db w))"
    by blast
  with Suc.prems(2) have wf: "outbox_wf (t_outbox (db w'))" by simp
  from Suc.IH [OF w'(2) wf] w'(1,3) unprocessed_mark [OF Suc.prems(2)] show ?case by simp
qed simp

end
