(* ===== verification/Relay_System.thy ===== *)
theory Relay_System
  imports Horizon
begin

text \<open>
  The outbox and the relay as a system: services add rows in transactions, sweeps run against a
  database and a broker that may fail at every round trip, and the deduplication window of the broker
  moves on.  \<open>K\<close> bounds how far: \<open>br_old \<in> K\<close>.
\<close>

section \<open>Steps\<close>

type_synonym 'x relay_world = "('x outbox_db_scheme, broker) pg_world_ext world_scheme"

inductive relay_step :: "(headers \<Rightarrow> headers) \<Rightarrow> nat set \<Rightarrow> 'x relay_world \<Rightarrow> 'x relay_world \<Rightarrow> bool"
  for inject K where
  produced: "WithinTx (Enqueue recs) w = (x, w') \<Longrightarrow> relay_step inject K w w'"
| swept: "relay_sweep (pg_relay inject tie i n) w = (x, w') \<Longrightarrow> relay_step inject K w w'"
| environment: "k \<in> K \<Longrightarrow> relay_step inject K w
     (pg_world.more_update (\<lambda>b. b\<lparr>br_old := k, br_script := scr\<rparr>) (w\<lparr>wall := t, pg_clock := t', faults := fs\<rparr>))"

inductive relay_reachable :: "(headers \<Rightarrow> headers) \<Rightarrow> nat set \<Rightarrow> 'x relay_world \<Rightarrow> bool" for inject K where
  start: "t_outbox (db w) = [] \<Longrightarrow> tx w = NoTx \<Longrightarrow> br_log (pg_world.more w) = [] \<Longrightarrow>
     br_old (pg_world.more w) \<in> K \<Longrightarrow> relay_reachable inject K w"
| step: "relay_reachable inject K w \<Longrightarrow> relay_step inject K w w' \<Longrightarrow> relay_reachable inject K w'"

section \<open>What a batch of records adds\<close>

definition adds_rows :: "outbox_row list \<Rightarrow> outbox_row list \<Rightarrow> bool" where
  "adds_rows rows rows' \<longleftrightarrow> (\<exists>new. rows' = rows @ new \<and> (\<forall>r\<in>set new. o_processed_at r = None
     \<and> uuid_in (o_id r) = Some (o_id r) \<and> o_id r \<notin> o_id ` set rows) \<and> distinct (map o_id new))"

lemma insert_batch_adds:
  "insert_batch recs rows = Inr rows' \<Longrightarrow> adds_rows rows rows'"
proof (induction recs arbitrary: rows)
  case Nil
  then show ?case by (simp add: adds_rows_def)
next
  case (Cons rec recs)
  then obtain rows1 where i: "insert_outbox rec rows = Inr rows1" and b: "insert_batch recs rows1 = Inr rows'"
    by (auto split: sum.splits)
  from i obtain r where r: "rows1 = rows @ [r]" "o_id r \<notin> o_id ` set rows" "o_processed_at r = None"
    "uuid_in (o_id r) = Some (o_id r)"
    using uuid_in_canonical by (fastforce simp: insert_outbox_def split: option.splits if_splits)
  from Cons.IH [OF b] obtain new where "rows' = rows1 @ new" "\<forall>x\<in>set new. o_processed_at x = None
     \<and> uuid_in (o_id x) = Some (o_id x) \<and> o_id x \<notin> o_id ` set rows1" "distinct (map o_id new)"
    by (auto simp: adds_rows_def)
  with r show ?case unfolding adds_rows_def by (intro exI [of _ "r # new"]) auto
qed

lemma Enqueue_adds:
  assumes "Enqueue recs w = (Inr u, w')"
  shows "adds_rows (t_outbox (db w)) (t_outbox (db w'))"
  using assms insert_batch_adds
  by (fastforce simp: Enqueue_def adds_rows_def split: if_splits sum.splits elim!: stmt_Inr)

section \<open>The invariant\<close>

definition grounded_log :: "outbox_row list \<Rightarrow> sent list \<Rightarrow> bool" where
  "grounded_log rows log \<longleftrightarrow> set log \<subseteq> sent_row ` set rows"

definition relay_sys_inv :: "'x relay_world \<Rightarrow> bool" where
  "relay_sys_inv w \<longleftrightarrow> tx w = NoTx \<and> relay_inv (t_outbox (db w)) (br_sent w)
     \<and> grounded_log (t_outbox (db w)) (br_sent w)"

lemma distinct_rows_agree:
  assumes wf: "outbox_wf rows" and g: "grounded_log rows log"
  shows "ids_agree rows log"
  unfolding ids_agree_def
proof (intro ballI impI)
  fix r m assume r: "r \<in> set rows" and m: "m \<in> set log" "fst m = o_id r"
  from m(1) g obtain x where x: "x \<in> set rows" "m = sent_row x" unfolding grounded_log_def by blast
  with m(2) wf r have "x = r" unfolding outbox_wf_def by (metis distinct_key_eq sent_row_id)
  with x show "m = sent_row r" by simp
qed

lemma adds_rows_inv:
  assumes "relay_inv rows log" "grounded_log rows log" "adds_rows rows rows'"
  shows "relay_inv rows' log \<and> grounded_log rows' log"
proof -
  from assms(3) obtain new where n: "rows' = rows @ new" "\<forall>r\<in>set new. o_processed_at r = None
     \<and> uuid_in (o_id r) = Some (o_id r) \<and> o_id r \<notin> o_id ` set rows" "distinct (map o_id new)"
    by (auto simp: adds_rows_def)
  from n(2) have new: "o_id r \<notin> o_id ` set rows" if "r \<in> set new" for r using that by simp
  have "o_id ` set rows \<inter> o_id ` set new = {}"
  proof (intro equals0I, elim IntE)
    fix i assume "i \<in> o_id ` set rows" "i \<in> o_id ` set new"
    then show False using new by (metis imageE)
  qed
  with assms(1) n have wf: "outbox_wf rows'" by (auto simp: relay_inv_def outbox_wf_def)
  have "set rows \<subseteq> set rows'" by (simp add: n(1))
  with assms(2) have "grounded_log rows' log" unfolding grounded_log_def by (meson image_mono order_trans)
  moreover have "on_log rows' log" using assms(1) n(2) by (simp add: n(1) relay_inv_def on_log_def ball_Un)
  ultimately show ?thesis using wf distinct_rows_agree by (simp add: relay_inv_def)
qed

lemma sweep_grounded:
  assumes "grounded_log rows log" "subseq new (map sent_row (take k (oldest tie n rows)))"
    and "rows' = rows \<or> (\<exists>t ks. rows' = mark t ks rows)"
  shows "grounded_log rows' (log @ new)"
proof -
  have "set new \<subseteq> sent_row ` set (take k (oldest tie n rows))" using subseq_set [OF assms(2)] by simp
  also have "\<dots> \<subseteq> sent_row ` set rows" by (meson image_mono in_set_takeD oldest_rows subsetI)
  finally have new: "set new \<subseteq> sent_row ` set rows" .
  have "map sent_row rows' = map sent_row rows"
    using assms(3) by (auto simp: mark_def map_replace_key)
  then have "sent_row ` set rows' = sent_row ` set rows" by (metis list.set_map)
  with assms(1) new show ?thesis by (simp add: grounded_log_def)
qed

section \<open>What every operation of a sweep keeps\<close>

lemma publish_batch_keeps:
  assumes "\<And>msg s x s'. pub msg s = (x, s') \<Longrightarrow> P s \<Longrightarrow> P s'"
  shows "publish_batch pub recs done s = (y, s') \<Longrightarrow> P s \<Longrightarrow> P s'"
proof (induction recs arbitrary: "done" s)
  case (Cons rec recs)
  obtain x s1 where x: "pub (relay_message rec) s = (x, s1)" by fastforce
  with Cons.prems(2) assms have "P s1" by blast
  with Cons x show ?case by (cases x) auto
qed simp

lemma pg_sweep_ops:
  fixes P :: "'x relay_world \<Rightarrow> bool"
  assumes run: "relay_sweep (pg_relay inject tie i n) w = (x, w')" and P: "P w"
    and stmt: "\<And>s y s'. CountUnprocessed s = (y, s') \<Longrightarrow> P s \<Longrightarrow> P s'"
      "\<And>n s y s'. FetchBatch tie n s = (y, s') \<Longrightarrow> P s \<Longrightarrow> P s'"
      "\<And>ids s y s'. MarkProcessed ids s = (y, s') \<Longrightarrow> P s \<Longrightarrow> P s'"
    and pub: "\<And>msg s y s'. br_pub inject msg s = (y, s') \<Longrightarrow> P s \<Longrightarrow> P s'"
    and meter: "\<And>c s. P s \<Longrightarrow> P (count c s)"
  shows "P w'"
proof -
  obtain r1 w1 where c: "CountUnprocessed w = (r1, w1)" by fastforce
  then have w1: "P w1" using stmt(1) P by blast
  let ?w1 = "case r1 of Inl _ \<Rightarrow> w1 | Inr m \<Rightarrow> count [''pulsar_horizon_outbox_backlog'', itoa m] w1"
  have P1: "P ?w1" using w1 meter by (cases r1) auto
  obtain r2 w2 where f: "FetchBatch tie n ?w1 = (r2, w2)" by fastforce
  then have w2: "P w2" using stmt(2) P1 by blast
  have counts: "P s \<Longrightarrow> P (relay_counts m b s)" for m b s
    by (simp add: relay_counts_def Let_def meter)
  from run c f have rest: "(case r2 of Inl e \<Rightarrow> (Inl e, relay_counts 0 True w2)
      | Inr recs \<Rightarrow> (case publish_batch (br_pub inject) recs [] w2 of ((published, failed), w3) \<Rightarrow>
          (if published = [] then ok () else MarkProcessed published)
            (relay_counts (int (length published)) failed w3))) = (x, w')"
    by (cases r1; cases r2)
      (auto simp: relay_sweep_def pg_relay_def NewRelay_def recordBacklog_def relay_batch_def pg_store_def
        onResult_def reading_def split: prod.splits)
  show ?thesis
  proof (cases r2)
    case (Inl e)
    with rest w2 counts show ?thesis by auto
  next
    case (Inr recs)
    obtain published failed w3 where p: "publish_batch (br_pub inject) recs [] w2 = ((published, failed), w3)"
      by (metis surj_pair)
    from publish_batch_keeps [where P = P and pub = "br_pub inject", OF _ p w2] pub have w3: "P w3" by blast
    with rest Inr p counts show ?thesis
      by (auto split: if_splits dest: stmt(3))
  qed
qed

lemma pg_sweep_keeps:
  fixes P :: "'x relay_world \<Rightarrow> bool"
  assumes "relay_sweep (pg_relay inject tie i n) w = (x, w')" "P w"
    and "\<And>(f :: instant \<Rightarrow> 'x outbox_db_scheme \<Rightarrow> (err + int) \<times> 'x outbox_db_scheme) s y s'. stmt f s = (y, s') \<Longrightarrow> P s \<Longrightarrow> P s'"
      "\<And>(f :: instant \<Rightarrow> 'x outbox_db_scheme \<Rightarrow> (err + relay_record list) \<times> 'x outbox_db_scheme) s y s'. stmt f s = (y, s') \<Longrightarrow> P s \<Longrightarrow> P s'"
      "\<And>(f :: instant \<Rightarrow> 'x outbox_db_scheme \<Rightarrow> (err + unit) \<times> 'x outbox_db_scheme) s y s'. stmt f s = (y, s') \<Longrightarrow> P s \<Longrightarrow> P s'"
    and "\<And>msg s y s'. br_pub inject msg s = (y, s') \<Longrightarrow> P s \<Longrightarrow> P s'"
    and "\<And>c s. P s \<Longrightarrow> P (count c s)"
  shows "P w'"
proof (rule pg_sweep_ops [where P = P, OF assms(1,2) _ _ _ assms(6,7)])
  show "CountUnprocessed s = (y, s') \<Longrightarrow> P s \<Longrightarrow> P s'" for s y s'
    unfolding CountUnprocessed_def by (rule assms(3))
  show "FetchBatch tie n s = (y, s') \<Longrightarrow> P s \<Longrightarrow> P s'" for n s y s'
    unfolding FetchBatch_def by (rule assms(4))
  show "MarkProcessed ids s = (y, s') \<Longrightarrow> P s \<Longrightarrow> P s'" for ids s y s'
    unfolding MarkProcessed_def using assms(5) by (auto split: if_splits)
qed

lemma br_pub_frame:
  assumes "br_pub inject msg s = (y, s')"
  shows "tx s' = tx s" "br_old (pg_world.more s') = br_old (pg_world.more s)" "db s' = db s"
  using assms
  by (auto simp: js_publish_def br_send_def br_store_def split: list.splits option.splits publish_fault.splits if_splits)

lemma pg_sweep_NoTx:
  assumes "relay_sweep (pg_relay inject tie i n) w = (x, w')" "tx w = NoTx"
  shows "tx w' = NoTx"
  by (rule pg_sweep_keeps [where P = "\<lambda>w. tx w = NoTx", OF assms])
    (simp_all add: tx_body_NoTx [OF stmt_tx_body] br_pub_frame(1), simp add: count_def)

text \<open>A sweep changes nothing of the database but the outbox.\<close>

lemma pg_sweep_more:
  assumes "relay_sweep (pg_relay inject tie i n) (w :: 'x relay_world) = (x, w')"
  shows "outbox_db.more (db w') = outbox_db.more (db w)"
proof (rule pg_sweep_ops [where P = "\<lambda>s. outbox_db.more (db s) = outbox_db.more (db w)", OF assms])
  have keep: "outbox_db.more (db s') = outbox_db.more (db s)"
    if "stmt f s = (y, s')" "\<And>now d. outbox_db.more (snd (f now d)) = outbox_db.more d"
    for f :: "instant \<Rightarrow> 'x outbox_db_scheme \<Rightarrow> (err + 'a) \<times> 'x outbox_db_scheme" and s s' :: "'x relay_world" and y
    using that(1) that(2) [of "pg_clock s" "db s"] by (cases y) (auto dest!: stmt_Inl elim!: stmt_Inr)
  show "CountUnprocessed s = (y, s') \<Longrightarrow> outbox_db.more (db s) = outbox_db.more (db w) \<Longrightarrow>
      outbox_db.more (db s') = outbox_db.more (db w)" for s y and s' :: "'x relay_world"
    unfolding CountUnprocessed_def by (drule keep) simp_all
  show "FetchBatch tie n s = (y, s') \<Longrightarrow> outbox_db.more (db s) = outbox_db.more (db w) \<Longrightarrow>
      outbox_db.more (db s') = outbox_db.more (db w)" for n s y and s' :: "'x relay_world"
    unfolding FetchBatch_def by (drule keep) simp_all
  show "MarkProcessed ids s = (y, s') \<Longrightarrow> outbox_db.more (db s) = outbox_db.more (db w) \<Longrightarrow>
      outbox_db.more (db s') = outbox_db.more (db w)" for ids s y and s' :: "'x relay_world"
    unfolding MarkProcessed_def by (cases "ids = []", simp, simp, drule keep) (simp_all split: option.split)
qed (auto dest: br_pub_frame simp: count_def)

section \<open>Every reachable state\<close>

lemma Enqueue_more: "WithinTx (Enqueue recs) w = (x, w') \<Longrightarrow> pg_world.more w' = pg_world.more w"
  by (erule WithinTx_more) (auto simp: Enqueue_def dest: stmt_frame(6) split: if_splits)

lemma relay_step_inv:
  assumes "relay_step inject K w w'" "relay_sys_inv w"
  shows "relay_sys_inv w'"
  using assms
proof (cases rule: relay_step.cases)
  case (produced recs x)
  have more: "pg_world.more w' = pg_world.more w"
    by (rule Enqueue_more [OF produced])
  have inv: "tx w = NoTx" "relay_inv (t_outbox (db w)) (br_sent w)" "grounded_log (t_outbox (db w)) (br_sent w)"
    using assms(2) by (auto simp: relay_sys_inv_def)
  from unit_of_work [OF produced inv(1) Enqueue_tx_body, of "\<lambda>_ d d'. adds_rows (t_outbox d) (t_outbox d')"]
  have "tx w' = NoTx" "db w' = db w \<or> adds_rows (t_outbox (db w)) (t_outbox (db w'))"
    using Enqueue_adds by force+
  with inv adds_rows_inv more show ?thesis unfolding relay_sys_inv_def by metis
next
  case (swept tie i n x)
  from swept have run: "relay_sweep \<lparr>rl_store = Some (pg_store tie), rl_bus = Some (br_pub inject),
      rl_interval = i, rl_batch = n\<rparr> w = (x, w')"
    by (simp add: pg_relay_def NewRelay_def)
  obtain k new where eff: "br_sent w' = br_sent w @ new"
      "subseq new (map sent_row (take (Suc k) (oldest tie n (t_outbox (db w)))))"
      "t_outbox (db w') = t_outbox (db w) \<or> (\<exists>t ks. uuid_array (map o_id (take k (oldest tie n (t_outbox (db w))))) = Some ks
         \<and> t_outbox (db w') = mark t ks (t_outbox (db w)))"
    using hz.sweep_effect [OF run] by blast
  have "grounded_log (t_outbox (db w')) (br_sent w')"
    unfolding eff(1) using sweep_grounded [OF _ eff(2)] eff(3) assms(2) by (auto simp: relay_sys_inv_def)
  moreover have "relay_inv (t_outbox (db w')) (br_sent w')"
    using relay_sweep_inv(1) [OF swept] assms(2) by (simp add: relay_sys_inv_def)
  ultimately show ?thesis using pg_sweep_NoTx [OF swept] assms(2) by (simp add: relay_sys_inv_def)
next
  case (environment k t t' fs scr)
  with assms(2) show ?thesis by (simp add: relay_sys_inv_def)
qed

lemma relay_reachable_inv: "relay_reachable inject K w \<Longrightarrow> relay_sys_inv w"
proof (induction rule: relay_reachable.induct)
  case (start w)
  then show ?case
    by (simp add: relay_sys_inv_def relay_inv_def outbox_wf_def ids_agree_def on_log_def grounded_log_def)
next
  case (step w w')
  then show ?case by (blast intro: relay_step_inv)
qed

section \<open>Inside the deduplication window\<close>

text \<open>While the window covers the log, no identifier is on it twice.\<close>

definition once_only :: "'x relay_world \<Rightarrow> bool" where
  "once_only w \<longleftrightarrow> br_old (pg_world.more w) = 0 \<and> distinct (map fst (br_sent w))"

lemma br_store_distinct:
  assumes "br_old b = 0" "distinct (map fst (map wire_sent (br_log b)))"
  shows "distinct (map fst (map wire_sent (br_log (br_store nm b))))"
  using assms by (auto simp: br_store_def wire_sent_def)

lemma br_pub_once:
  assumes "br_pub inject msg s = (y, s')" "once_only s"
  shows "once_only s'"
proof -
  have cong: "br_log (br_store nm (b\<lparr>br_script := fs\<rparr>)) = br_log (br_store nm b)" for nm b fs
    by (simp add: br_store_def)
  from assms(1) have "br_log (pg_world.more s') = br_log (pg_world.more s) \<or>
      br_log (pg_world.more s') = br_log (br_store (js_wire inject msg) (pg_world.more s))"
    by (auto simp: js_publish_def br_send_def cong split: list.splits option.splits publish_fault.splits)
  moreover have "br_old (pg_world.more s') = 0"
    using assms(2) br_pub_frame(2) [OF assms(1)] by (simp add: once_only_def)
  ultimately show ?thesis
    using assms(2) br_store_distinct unfolding once_only_def by metis
qed

lemma stmt_once: "stmt f s = (y, s') \<Longrightarrow> once_only s \<Longrightarrow> once_only s'"
  using stmt_frame(6) [of f s y s'] by (simp add: once_only_def)

lemma relay_step_once:
  assumes "relay_step inject {0} w w'" "once_only w"
  shows "once_only w'"
  using assms
proof (cases rule: relay_step.cases)
  case (produced recs x)
  have "pg_world.more w' = pg_world.more w"
    by (rule Enqueue_more [OF produced])
  with assms(2) show ?thesis by (simp add: once_only_def)
next
  case (swept tie i n x)
  show ?thesis
    by (rule pg_sweep_keeps [where P = once_only, OF swept assms(2)])
      (auto dest: stmt_once br_pub_once simp: once_only_def count_def)
next
  case (environment k t t' fs scr)
  with assms(2) show ?thesis by (simp add: once_only_def)
qed

lemma relay_reachable_once: "relay_reachable inject {0} w \<Longrightarrow> once_only w"
proof (induction rule: relay_reachable.induct)
  case (start w)
  then show ?case by (simp add: once_only_def)
next
  case (step w w')
  then show ?case by (blast intro: relay_step_once)
qed

end
