(* ===== verification/Relay_Properties.thy ===== *)
theory Relay_Properties
  imports Relay_System
begin

text \<open>
  The properties of the outbox relay, and a small outbox on which they are applied.
\<close>

section \<open>A sample outbox\<close>

definition ry_id :: string where "ry_id = ''eeeeeeee-2222-4333-8444-555555555555''"

definition ry_record :: outbox_record where
  "ry_record = \<lparr>ob_id = ry_id, ob_subject = SubjectTicketReserved, ob_event_type = TypeTicketReserved,
     ob_event_version = 1, ob_source = ''pulsar-core'', ob_correlation_id = ry_id, ob_causation_id = '''',
     ob_payload = Some JNull, ob_occurred_at = 5000\<rparr>"

definition ry_row :: outbox_row where
  "ry_row = \<lparr>o_id = ry_id, o_subject = SubjectTicketReserved, o_event_type = TypeTicketReserved,
     o_event_version = 1, o_source = ''pulsar-core'', o_correlation_id = ry_id, o_causation_id = '''',
     o_payload = JNull, o_created_at = 5000, o_processed_at = None\<rparr>"

definition ry_world :: "outbox_row list \<Rightarrow> unit relay_world" where
  "ry_world rows = \<lparr>wall = 0, rng = (\<lambda>_. 0), rng_pos = 0, meter = [], db = \<lparr>t_outbox = rows\<rparr>, pg_clock = 7000,
     tx = NoTx, faults = [], br_log = [], br_old = 0, br_script = []\<rparr>"

lemma ry_world_simps [simp]:
  "t_outbox (db (ry_world rows)) = rows" "tx (ry_world rows) = NoTx" "ready (ry_world rows)"
  "pg_world.more (ry_world rows) = \<lparr>br_log = [], br_old = 0, br_script = []\<rparr>"
  "pg_clock (ry_world rows) = 7000"
  by (simp_all add: ry_world_def ready_def healthy_def)

lemma ry_id_in [simp]: "uuid_in ry_id = Some ry_id"
  by code_simp

lemma ry_row_wf [simp]: "outbox_wf [ry_row]"
  by (simp add: outbox_wf_def ry_row_def)

lemma ry_oldest [simp]: "oldest tie 10 [ry_row] = [ry_row]"
  by (simp add: oldest_def unprocessed_def ry_row_def)

lemma ry_produced: "WithinTx (Enqueue [ry_record]) (ry_world []) = (Inr (), ry_world [ry_row])"
proof -
  let ?w = "(ry_world [])\<lparr>tx := InTx (db (ry_world []))\<rparr>"
  have "insert_batch [ry_record] [] = Inr [ry_row]"
    by (simp add: insert_outbox_def ry_record_def ry_row_def int4_def text_ok_def timestamptz_def)
      (simp add: ry_id_def SubjectTicketReserved_def TypeTicketReserved_def)
  then have "Enqueue [ry_record] ?w = (Inr (), ?w\<lparr>db := \<lparr>t_outbox = [ry_row]\<rparr>\<rparr>)"
    by (simp add: Enqueue_def stmt_def ry_world_def)
  from WithinTx_ok [where fn = "Enqueue [ry_record]", OF _ _ this] show ?thesis by (simp add: ry_world_def)
qed

lemma ry_reached:
  obtains w r where "relay_reachable (\<lambda>h. h) {0} (w :: unit relay_world)" "t_outbox (db w) = [r]"
    "o_id r = ry_id" "o_processed_at r \<noteq> None"
proof -
  have r0: "relay_reachable (\<lambda>h. h) {0} (ry_world [])"
    by (rule relay_reachable.start) simp_all
  have r1: "relay_reachable (\<lambda>h. h) {0} (ry_world [ry_row])"
    by (rule relay_reachable.step [OF r0 relay_step.produced [OF ry_produced]])
  from relay_sweep_run [of "ry_world [ry_row]" 10 "\<lambda>h. h" "\<lambda>_ _. 0" second] obtain w where
    s: "relay_sweep (pg_relay (\<lambda>h. h) (\<lambda>_ _. 0) second 10) (ry_world [ry_row]) = (Inr (), w)"
    and rows: "t_outbox (db w) = mark (timestamptz 7000) (map o_id [ry_row]) [ry_row]" by auto
  have "relay_reachable (\<lambda>h. h) {0} w"
    by (rule relay_reachable.step [OF r1 relay_step.swept [OF s]])
  with that rows show ?thesis by (auto simp: mark_def ry_row_def)
qed

section \<open>Properties\<close>

lemma relay_at_least_once:
  assumes "relay_reachable inject K (w :: 'x relay_world)"
  shows "(\<forall>r\<in>set (t_outbox (db w)). o_processed_at r \<noteq> None \<longrightarrow> sent_row r \<in> set (br_sent w))
    \<and> (\<forall>m\<in>set (br_sent w). \<exists>r\<in>set (t_outbox (db w)). m = sent_row r)"
  using relay_reachable_inv [OF assms]
  unfolding relay_sys_inv_def relay_inv_def on_log_def grounded_log_def by blast

lemma relay_effectively_once:
  assumes "relay_reachable inject {0} (w :: 'x relay_world)"
    and "r \<in> set (t_outbox (db w))" "o_processed_at r \<noteq> None"
  shows "filter (\<lambda>m. fst m = o_id r) (br_sent w) = [sent_row r]"
proof -
  let ?log = "br_sent w"
  from relay_reachable_inv [OF assms(1)] assms(2,3) have m: "sent_row r \<in> set ?log"
    by (simp add: relay_sys_inv_def relay_inv_def on_log_def)
  from relay_reachable_once [OF assms(1)] have d: "distinct (map fst ?log)"
    by (simp only: once_only_def)
  from m obtain xs ys where log: "?log = xs @ sent_row r # ys" by (meson split_list)
  from d have "\<forall>m\<in>set xs. fst m \<noteq> o_id r" "\<forall>m\<in>set ys. fst m \<noteq> o_id r"
    unfolding log by (force simp: image_iff)+
  then have "filter (\<lambda>m. fst m = o_id r) xs = []" "filter (\<lambda>m. fst m = o_id r) ys = []"
    by (simp_all add: filter_empty_conv)
  then show ?thesis unfolding log by simp
qed

text \<open>C23: The relay delivers every record, at least once and effectively once.  In every reachable state of
  the outbox and its relay - transactions that commit or fail, sweeps that fail at any round trip, replies
  that are lost, a deduplication window that moves on - a row marked as processed is on the broker with
  its id, subject and payload, and the broker holds nothing but rows of the outbox; and as long as the
  deduplication window covers what was published, such a row is on the broker exactly once, however often
  sweeps crash between publishing and marking and publish it again.\<close>

theorem relay_delivers:
  assumes "relay_reachable inject K (w :: 'x relay_world)"
  shows "(\<forall>r\<in>set (t_outbox (db w)). o_processed_at r \<noteq> None \<longrightarrow> sent_row r \<in> set (br_sent w)
      \<and> (K = {0} \<longrightarrow> filter (\<lambda>m. fst m = o_id r) (br_sent w) = [sent_row r]))
    \<and> (\<forall>m\<in>set (br_sent w). \<exists>r\<in>set (t_outbox (db w)). m = sent_row r)"
proof -
  have "filter (\<lambda>m. fst m = o_id r) (br_sent w) = [sent_row r]"
    if "K = {0}" "r \<in> set (t_outbox (db w))" "o_processed_at r \<noteq> None" for r
    using relay_effectively_once [of inject w r] assms that by simp
  with relay_at_least_once [OF assms] show ?thesis by blast
qed

theorem relay_delivers_witness:
  "\<exists>(w :: unit relay_world) r. t_outbox (db w) = [r] \<and> o_id r = ry_id \<and> sent_row r \<in> set (br_sent w)
    \<and> filter (\<lambda>m. fst m = ry_id) (br_sent w) = [sent_row r]"
proof (rule ry_reached)
  fix w :: "unit relay_world" and r
  assume w: "relay_reachable (\<lambda>h. h) {0} w" and r: "t_outbox (db w) = [r]" "o_id r = ry_id" "o_processed_at r \<noteq> None"
  have "r \<in> set (t_outbox (db w))" by (simp only: r(1) list.set_intros)
  with relay_delivers [OF w] r(3) have "sent_row r \<in> set (br_sent w)" "filter (\<lambda>m. fst m = o_id r) (br_sent w) = [sent_row r]"
    by blast+
  with r show ?thesis by metis
qed

text \<open>C24: The relay works oldest first and never skips.  Whatever fails in a sweep, the broker's log grows
  by a subsequence, in order, of the rows it read, at most one beyond those it reports; and the rows it
  marks are a prefix of the batch that is on the log, so a row is never marked before an older one.\<close>

theorem relay_in_order:
  assumes "relay_sweep (pg_relay inject tie i n) (w :: 'x relay_world) = (x, w')"
    and "outbox_wf (t_outbox (db w))"
  shows "\<exists>k new. br_sent w' = br_sent w @ new
    \<and> subseq new (map sent_row (take (Suc k) (oldest tie n (t_outbox (db w)))))
    \<and> set (map o_id (take k (oldest tie n (t_outbox (db w))))) \<subseteq> fst ` set (br_sent w')
    \<and> (t_outbox (db w') = t_outbox (db w)
       \<or> (\<exists>t. t_outbox (db w') = mark t (map o_id (take k (oldest tie n (t_outbox (db w))))) (t_outbox (db w))))"
proof -
  let ?rows = "t_outbox (db w)"
  have run: "relay_sweep \<lparr>rl_store = Some (pg_store tie), rl_bus = Some (br_pub inject),
      rl_interval = i, rl_batch = n\<rparr> w = (x, w')"
    using assms(1) by (simp add: pg_relay_def NewRelay_def)
  have can: "uuid_array (map o_id (take k (oldest tie n ?rows))) = Some (map o_id (take k (oldest tie n ?rows)))" for k
  proof (rule uuid_array_canonical, intro ballI)
    fix r assume "r \<in> set (take k (oldest tie n ?rows))"
    then have "r \<in> set ?rows" by (meson in_set_takeD oldest_rows)
    with assms(2) show "uuid_in (o_id r) = Some (o_id r)" by (simp add: outbox_wf_def)
  qed
  from hz.sweep_effect [OF run] show ?thesis unfolding can by (simp only: option.inject) metis
qed

theorem relay_in_order_witness:
  "\<exists>x w' k new. relay_sweep (pg_relay (\<lambda>h. h) (\<lambda>_ _. 0) second 10)
      (pg_world.more_update (\<lambda>b. b\<lparr>br_script := [Some PubAckLost]\<rparr>) (ry_world [ry_row])) = (x, w')
    \<and> br_sent w' = new \<and> subseq new (map sent_row (take (Suc k) [ry_row]))"
proof -
  let ?w = "pg_world.more_update (\<lambda>b. b\<lparr>br_script := [Some PubAckLost]\<rparr>) (ry_world [ry_row])"
  obtain x w' where run: "relay_sweep (pg_relay (\<lambda>h. h) (\<lambda>_ _. 0) second 10) ?w = (x, w')" by fastforce
  have rows: "t_outbox (db ?w) = [ry_row]" "br_sent ?w = []" by (simp_all add: ry_world_def)
  from relay_in_order [OF run] obtain k new where
    "br_sent w' = new" "subseq new (map sent_row (take (Suc k) [ry_row]))"
    unfolding rows ry_oldest by auto
  with run show ?thesis by blast
qed

text \<open>C25: The relay drains the outbox.  With an interval that a ticker accepts and a working database and
  broker every tick takes the batch size off the backlog, so after enough ticks nothing is left
  unprocessed.\<close>

theorem relay_drains:
  assumes "ready (w :: 'x relay_world)" "0 < n" "outbox_wf (t_outbox (db w))" "0 < i"
  shows "\<exists>w'. relay_run (pg_relay inject tie i n) ticks w = Some w'
    \<and> length (unprocessed (t_outbox (db w'))) = length (unprocessed (t_outbox (db w))) - ticks * nat n
    \<and> (length (unprocessed (t_outbox (db w))) \<le> ticks \<longrightarrow> (\<forall>r\<in>set (t_outbox (db w')). o_processed_at r \<noteq> None))"
proof -
  let ?w' = "relay_ticks (pg_relay inject tie i n) ticks w"
  have run: "relay_run (pg_relay inject tie i n) ticks w = Some ?w'"
    using assms(4) by (simp add: relay_run_def pg_relay_def NewRelay_def)
  have left: "length (unprocessed (t_outbox (db ?w'))) = length (unprocessed (t_outbox (db w))) - ticks * nat n"
    using relay_ticks_drain [OF assms(1) _ assms(3)] assms(2) by simp
  moreover have "\<forall>r\<in>set (t_outbox (db ?w')). o_processed_at r \<noteq> None"
    if "length (unprocessed (t_outbox (db w))) \<le> ticks"
  proof -
    have "1 \<le> nat n" using assms(2) by simp
    then have "ticks \<le> ticks * nat n" by simp
    with left that have "unprocessed (t_outbox (db ?w')) = []" by simp
    then show ?thesis by (simp add: unprocessed_def filter_empty_conv)
  qed
  ultimately show ?thesis using run by simp
qed

theorem relay_drains_witness:
  "\<exists>w. relay_run (pg_relay (\<lambda>h. h) (\<lambda>_ _. 0) second 10) 1 (ry_world [ry_row]) = Some w
    \<and> unprocessed (t_outbox (db w)) = []"
proof -
  have "length (unprocessed (t_outbox (db (ry_world [ry_row])))) \<le> 1" by (simp add: unprocessed_def)
  with relay_drains [of "ry_world [ry_row]" 10 second "\<lambda>h. h" "\<lambda>_ _. 0" 1] show ?thesis
    by (auto simp: unprocessed_def filter_empty_conv duration_defs)
qed

end
