(* ===== verification/Holds.thy ===== *)
theory Holds
  imports Core_System
begin

text \<open>
  \<open>internal/holds\<close>: the Redis accelerator of reservation holds, its circuit breaker, the observers, and
  the store that the core service and the sweeper use.  Redis is the parameter \<open>redis_client\<close>; a
  reference client with expiring keys shows that what is asked of it can hold.
\<close>

section \<open>Names\<close>

definition KeyPrefix :: string where "KeyPrefix = ''hold:''"
definition OpSet :: string where "OpSet = ''set''"
definition OpRelease :: string where "OpRelease = ''release''"
definition OpExists :: string where "OpExists = ''exists''"

definition opTimeout :: duration where "opTimeout = 200 * millisecond"
definition defaultFailureThreshold :: int where "defaultFailureThreshold = 5"
definition defaultCooldown :: duration where "defaultCooldown = 30 * second"

definition Key :: "string \<Rightarrow> string" where
  "Key reservationID = KeyPrefix @ reservationID"

section \<open>The circuit breaker\<close>

record breaker =
  b_threshold :: int
  b_cooldown :: duration
  b_failures :: int
  b_openedAt :: instant

definition newBreaker :: "int \<Rightarrow> duration \<Rightarrow> breaker" where
  "newBreaker threshold cooldown =
     \<lparr>b_threshold = threshold, b_cooldown = cooldown, b_failures = 0, b_openedAt = zero_time\<rparr>"

text \<open>Each method runs under the mutex of the breaker, so it is one step; \<open>now\<close> is \<open>time.Now()\<close>.\<close>

definition allow :: "instant \<Rightarrow> breaker \<Rightarrow> bool \<times> breaker" where
  "allow now b =
     (if b_failures b < b_threshold b then (True, b)
      else if time_sub now (b_openedAt b) < b_cooldown b then (False, b)
      else (True, b\<lparr>b_openedAt := now\<rparr>))"

definition success :: "breaker \<Rightarrow> bool \<times> breaker" where
  "success b = (b_threshold b \<le> b_failures b, b\<lparr>b_failures := 0\<rparr>)"

definition failure :: "instant \<Rightarrow> breaker \<Rightarrow> bool \<times> breaker" where
  "failure now b =
     (let b1 = b\<lparr>b_failures := b_failures b + 1\<rparr> in
      if b_threshold b1 \<le> b_failures b1
      then (b_failures b1 = b_threshold b1, b1\<lparr>b_openedAt := now\<rparr>)
      else (False, b1))"

section \<open>Observers\<close>

datatype op_outcome = OpSuccess | OpDegraded | OpShortCircuited

record 's hold_observer =
  ob_ObserveOp :: "string \<Rightarrow> duration \<Rightarrow> op_outcome \<Rightarrow> 's \<Rightarrow> 's"
  ob_BreakerOpened :: "'s \<Rightarrow> 's"
  ob_BreakerRecovered :: "'s \<Rightarrow> 's"

definition outcomeOf :: "err + 'a \<Rightarrow> op_outcome" where
  "outcomeOf r = (case r of Inl _ \<Rightarrow> OpDegraded | Inr _ \<Rightarrow> OpSuccess)"

text \<open>The OpenTelemetry observer; a histogram or gauge value is the last label of its entry.\<close>

fun attrOutcome :: "op_outcome \<Rightarrow> string" where
  "attrOutcome OpSuccess = ''success''"
| "attrOutcome OpDegraded = ''degraded''"
| "attrOutcome OpShortCircuited = ''short_circuited''"

definition OTel_ObserveOp :: "string \<Rightarrow> duration \<Rightarrow> op_outcome \<Rightarrow> 'm world_scheme \<Rightarrow> 'm world_scheme" where
  "OTel_ObserveOp what latency outcome w =
     (let w1 = count [''pulsar_holds_ops_total'', what, attrOutcome outcome] w in
      if outcome \<noteq> OpShortCircuited
      then count [''pulsar_holds_op_duration_seconds'', what, itoa latency] w1 else w1)"

definition OTel_BreakerOpened :: "'m world_scheme \<Rightarrow> 'm world_scheme" where
  "OTel_BreakerOpened w =
     count [''pulsar_holds_breaker_open'', itoa 1] (count [''pulsar_holds_breaker_opened_total''] w)"

definition OTel_BreakerRecovered :: "'m world_scheme \<Rightarrow> 'm world_scheme" where
  "OTel_BreakerRecovered w =
     count [''pulsar_holds_breaker_open'', itoa 0] (count [''pulsar_holds_breaker_recovered_total''] w)"

text \<open>
  \<open>create kind name\<close> is the answer of the meter to the creation of an instrument; the first error ends the
  construction.
\<close>

definition otel_instruments :: "(string \<times> string) list" where
  "otel_instruments =
     [(''Int64Counter'', ''pulsar_holds_ops_total''), (''Float64Histogram'', ''pulsar_holds_op_duration_seconds''),
      (''Int64Counter'', ''pulsar_holds_breaker_opened_total''), (''Int64Counter'', ''pulsar_holds_breaker_recovered_total''),
      (''Int64Gauge'', ''pulsar_holds_breaker_open'')]"

fun instrument_error :: "(string \<Rightarrow> string \<Rightarrow> err option) \<Rightarrow> (string \<times> string) list \<Rightarrow> err option" where
  "instrument_error create [] = None"
| "instrument_error create ((kind, name) # rest) =
     (case create kind name of Some e \<Rightarrow> Some e | None \<Rightarrow> instrument_error create rest)"

definition NewOTelObserver :: "(string \<Rightarrow> string \<Rightarrow> err option) \<Rightarrow> err + 'm world_scheme hold_observer" where
  "NewOTelObserver create =
     (case instrument_error create otel_instruments of
        Some e \<Rightarrow> Inl e
      | None \<Rightarrow> Inr \<lparr>ob_ObserveOp = OTel_ObserveOp, ob_BreakerOpened = OTel_BreakerOpened,
          ob_BreakerRecovered = OTel_BreakerRecovered\<rparr>)"

text \<open>The in-memory observer.\<close>

record op_counters =
  oc_attempts :: int
  oc_succeeded :: int
  oc_degraded :: int
  oc_short_circuited :: int

record snapshot =
  sn_ops :: "string \<rightharpoonup> op_counters"
  sn_latency_count :: int
  sn_latency_sum :: duration
  sn_latency_max :: duration
  sn_breaker_open :: bool
  sn_opened :: int
  sn_recovered :: int

definition NewSnapshotObserver :: snapshot where
  "NewSnapshotObserver = \<lparr>sn_ops = Map.empty, sn_latency_count = 0, sn_latency_sum = 0, sn_latency_max = 0,
     sn_breaker_open = False, sn_opened = 0, sn_recovered = 0\<rparr>"

definition counters_of :: "snapshot \<Rightarrow> string \<Rightarrow> op_counters" where
  "counters_of sn what =
     (case sn_ops sn what of
        Some c \<Rightarrow> c
      | None \<Rightarrow> \<lparr>oc_attempts = 0, oc_succeeded = 0, oc_degraded = 0, oc_short_circuited = 0\<rparr>)"

definition reached_redis :: "duration \<Rightarrow> snapshot \<Rightarrow> snapshot" where
  "reached_redis latency sn =
     sn\<lparr>sn_latency_count := sn_latency_count sn + 1, sn_latency_sum := sn_latency_sum sn + latency,
       sn_latency_max := max (sn_latency_max sn) latency\<rparr>"

definition Snapshot_ObserveOp :: "string \<Rightarrow> duration \<Rightarrow> op_outcome \<Rightarrow> snapshot \<Rightarrow> snapshot" where
  "Snapshot_ObserveOp what latency outcome sn =
     (let c = (counters_of sn what)\<lparr>oc_attempts := oc_attempts (counters_of sn what) + 1\<rparr>;
          (c', sn') = (case outcome of
             OpSuccess \<Rightarrow> (c\<lparr>oc_succeeded := oc_succeeded c + 1\<rparr>, reached_redis latency sn)
           | OpDegraded \<Rightarrow> (c\<lparr>oc_degraded := oc_degraded c + 1\<rparr>, reached_redis latency sn)
           | OpShortCircuited \<Rightarrow> (c\<lparr>oc_short_circuited := oc_short_circuited c + 1\<rparr>, sn))
      in sn'\<lparr>sn_ops := (sn_ops sn')(what \<mapsto> c')\<rparr>)"

definition Snapshot_BreakerOpened :: "snapshot \<Rightarrow> snapshot" where
  "Snapshot_BreakerOpened sn = sn\<lparr>sn_breaker_open := True, sn_opened := sn_opened sn + 1\<rparr>"

definition Snapshot_BreakerRecovered :: "snapshot \<Rightarrow> snapshot" where
  "Snapshot_BreakerRecovered sn = sn\<lparr>sn_breaker_open := False, sn_recovered := sn_recovered sn + 1\<rparr>"

section \<open>The store\<close>

text \<open>A pointer to an object: how the state is read and changed there.\<close>

record ('s, 'a) cell =
  cell_get :: "'s \<Rightarrow> 'a"
  cell_upd :: "('a \<Rightarrow> 'a) \<Rightarrow> 's \<Rightarrow> 's"

record 'm redis_client =
  rd_Set :: "go_context \<Rightarrow> string \<Rightarrow> duration \<Rightarrow> ('m world_scheme, unit) op"
  rd_Del :: "go_context \<Rightarrow> string \<Rightarrow> ('m world_scheme, int) op"
  rd_Exists :: "go_context \<Rightarrow> string \<Rightarrow> ('m world_scheme, int) op"

record 'm settings =
  set_failureThreshold :: int
  set_cooldown :: duration
  set_observer :: "'m world_scheme hold_observer option"

record 'm store =
  st_client :: "'m redis_client option"
  st_br :: "('m world_scheme, breaker) cell"
  st_obs :: "'m world_scheme hold_observer option"

definition WithBreaker :: "int \<Rightarrow> duration \<Rightarrow> 'm settings \<Rightarrow> 'm settings" where
  "WithBreaker failureThreshold cooldown s =
     s\<lparr>set_failureThreshold := (if 0 < failureThreshold then failureThreshold else set_failureThreshold s),
       set_cooldown := (if 0 < cooldown then cooldown else set_cooldown s)\<rparr>"

definition WithObserver :: "'m world_scheme hold_observer option \<Rightarrow> 'm settings \<Rightarrow> 'm settings" where
  "WithObserver obs s = s\<lparr>set_observer := obs\<rparr>"

text \<open>\<open>New\<close> allocates the breaker in the given cell; an empty address disables the store.\<close>

definition resolve :: "('m settings \<Rightarrow> 'm settings) list \<Rightarrow> 'm settings" where
  "resolve opts = fold (\<lambda>opt s. opt s) opts
     \<lparr>set_failureThreshold = defaultFailureThreshold, set_cooldown = defaultCooldown, set_observer = None\<rparr>"

definition holds_New ::
  "string \<Rightarrow> 'm redis_client \<Rightarrow> ('m world_scheme, breaker) cell \<Rightarrow> ('m settings \<Rightarrow> 'm settings) list \<Rightarrow>
     'm world_scheme \<Rightarrow> 'm store \<times> 'm world_scheme" where
  "holds_New addr client cell opts w =
     (if addr = '''' then (\<lparr>st_client = None, st_br = cell, st_obs = None\<rparr>, w)
      else (\<lparr>st_client = Some client, st_br = cell, st_obs = set_observer (resolve opts)\<rparr>,
            cell_upd cell (\<lambda>_. newBreaker (set_failureThreshold (resolve opts)) (set_cooldown (resolve opts))) w))"

definition observe :: "'m store \<Rightarrow> string \<Rightarrow> instant \<Rightarrow> op_outcome \<Rightarrow> 'm world_scheme \<Rightarrow> 'm world_scheme" where
  "observe st what start outcome w =
     (case st_obs st of
        None \<Rightarrow> w
      | Some obs \<Rightarrow> ob_ObserveOp obs what (time_sub (wall w) start) outcome w)"

definition degraded :: "'m store \<Rightarrow> 'm world_scheme \<Rightarrow> 'm world_scheme" where
  "degraded st w =
     (case failure (wall w) (cell_get (st_br st) w) of (opened, b) \<Rightarrow>
       let w1 = cell_upd (st_br st) (\<lambda>_. b) w in
       case st_obs st of Some obs \<Rightarrow> if opened then ob_BreakerOpened obs w1 else w1 | None \<Rightarrow> w1)"

definition recovered :: "'m store \<Rightarrow> 'm world_scheme \<Rightarrow> 'm world_scheme" where
  "recovered st w =
     (case success (cell_get (st_br st) w) of (wasOpen, b) \<Rightarrow>
       let w1 = cell_upd (st_br st) (\<lambda>_. b) w in
       case st_obs st of Some obs \<Rightarrow> if wasOpen then ob_BreakerRecovered obs w1 else w1 | None \<Rightarrow> w1)"

text \<open>\<open>context.WithTimeout\<close>.\<close>

definition with_timeout :: "go_context \<Rightarrow> duration \<Rightarrow> instant \<Rightarrow> go_context" where
  "with_timeout ctx d now = Some (case ctx of None \<Rightarrow> now + d | Some t \<Rightarrow> min t (now + d))"

text \<open>
  The body the three operations share, \<open>None\<close> when the breaker or Redis refuses: the breaker is asked
  before the round trip and told of its result after it, and in between the callers of a store overlap.
\<close>

definition hold_begin :: "'m store \<Rightarrow> 'm world_scheme \<Rightarrow> bool \<times> 'm world_scheme" where
  "hold_begin st w =
     (case allow (wall w) (cell_get (st_br st) w) of (allowed, b) \<Rightarrow> (allowed, cell_upd (st_br st) (\<lambda>_. b) w))"

definition hold_end :: "'m store \<Rightarrow> err + 'a \<Rightarrow> 'm world_scheme \<Rightarrow> 'a option \<times> 'm world_scheme" where
  "hold_end st r w = (case r of Inl e \<Rightarrow> (None, degraded st w) | Inr a \<Rightarrow> (Some a, recovered st w))"

definition hold_op ::
  "'m store \<Rightarrow> string \<Rightarrow> go_context \<Rightarrow> (go_context \<Rightarrow> ('m world_scheme, 'a) op) \<Rightarrow>
     'm world_scheme \<Rightarrow> 'a option \<times> 'm world_scheme" where
  "hold_op st what ctx call w =
     (case hold_begin st w of (allowed, w1) \<Rightarrow>
       if \<not> allowed then (None, observe st what (wall w) OpShortCircuited w1)
       else
         (case call (with_timeout ctx opTimeout (wall w)) w1 of (r, w2) \<Rightarrow>
           hold_end st r (observe st what (wall w) (outcomeOf r) w2)))"

definition Holds_Set :: "'m store \<Rightarrow> go_context \<Rightarrow> string \<Rightarrow> duration \<Rightarrow> ('m world_scheme, unit) op" where
  "Holds_Set st ctx i ttl w =
     (case st_client st of
        None \<Rightarrow> (Inr (), w)
      | Some c \<Rightarrow>
          if ttl \<le> 0 then (Inr (), w)
          else (Inr (), snd (hold_op st OpSet ctx (\<lambda>cctx. rd_Set c cctx (Key i) ttl) w)))"

definition Holds_Release :: "'m store \<Rightarrow> go_context \<Rightarrow> string \<Rightarrow> ('m world_scheme, unit) op" where
  "Holds_Release st ctx i w =
     (case st_client st of
        None \<Rightarrow> (Inr (), w)
      | Some c \<Rightarrow> (Inr (), snd (hold_op st OpRelease ctx (\<lambda>cctx. rd_Del c cctx (Key i)) w)))"

definition Holds_Exists :: "'m store \<Rightarrow> go_context \<Rightarrow> string \<Rightarrow> 'm world_scheme \<Rightarrow> bool \<times> 'm world_scheme" where
  "Holds_Exists st ctx i w =
     (case st_client st of
        None \<Rightarrow> (False, w)
      | Some c \<Rightarrow>
          (case hold_op st OpExists ctx (\<lambda>cctx. rd_Exists c cctx (Key i)) w of
             (None, w') \<Rightarrow> (False, w')
           | (Some n, w') \<Rightarrow> (0 < n, w')))"

text \<open>The store as the port of the core service.\<close>

definition hold_port :: "'m store \<Rightarrow> go_context \<Rightarrow> 'm hold_store" where
  "hold_port st ctx = \<lparr>hs_Set = Holds_Set st ctx, hs_Release = Holds_Release st ctx\<rparr>"

end
