(* ===== verification/Holds_System.thy ===== *)
theory Holds_System
  imports Holds
begin

text \<open>
  What the hold store promises.  Whatever Redis does, the operations never fail and touch nothing but
  their own cells (the locale \<open>accelerator\<close>), so the reservation flow does not depend on them; the
  breaker, under any interleaving of its callers, lets one probe per cooldown through while open and
  reports its openings and recoveries in step; and a Redis that is down is sent a bounded number of
  operations, however the callers that share the store interleave.
\<close>

section \<open>An accelerator and nothing else\<close>

locale accelerator =
  fixes client :: "'m redis_client"
    and cell :: "('m world_scheme, breaker) cell"
    and obs :: "'m world_scheme hold_observer option"
    and kept :: "'m world_scheme \<Rightarrow> 'k"
  assumes set_kept: "kept (snd (rd_Set client ctx k ttl s)) = kept s"
    and del_kept: "kept (snd (rd_Del client ctx k s)) = kept s"
    and exists_kept: "kept (snd (rd_Exists client ctx k s)) = kept s"
    and cell_kept: "kept (cell_upd cell f s) = kept s"
    and observe_kept: "obs = Some ob \<Longrightarrow> kept (ob_ObserveOp ob what d out s) = kept s"
    and opened_kept: "obs = Some ob \<Longrightarrow> kept (ob_BreakerOpened ob s) = kept s"
    and recovered_kept: "obs = Some ob \<Longrightarrow> kept (ob_BreakerRecovered ob s) = kept s"
begin

abbreviation the_store :: "'m store" where
  "the_store \<equiv> \<lparr>st_client = Some client, st_br = cell, st_obs = obs\<rparr>"

lemma hold_op_kept:
  assumes "\<And>cctx s. kept (snd (call cctx s)) = kept s"
  shows "kept (snd (hold_op the_store what ctx call w)) = kept w"
proof -
  have ob: "kept (observe the_store what t out s) = kept s" for t out s
    by (cases obs) (simp_all add: observe_def observe_kept)
  have dg: "kept (degraded the_store s) = kept s" for s
    by (cases obs) (simp_all add: degraded_def Let_def cell_kept opened_kept split: prod.split)
  have rc: "kept (recovered the_store s) = kept s" for s
    by (cases obs) (simp_all add: recovered_def Let_def cell_kept recovered_kept split: prod.split)
  obtain r s where r: "call (with_timeout ctx opTimeout (wall w))
      (cell_upd cell (\<lambda>_. snd (allow (wall w) (cell_get cell w))) w) = (r, s)" by fastforce
  with assms [of "with_timeout ctx opTimeout (wall w)" "cell_upd cell (\<lambda>_. snd (allow (wall w) (cell_get cell w))) w"]
  have "kept s = kept w" by (simp add: cell_kept)
  with r show ?thesis
    by (auto simp: hold_op_def hold_begin_def hold_end_def ob dg rc cell_kept split: prod.split sum.split)
qed

lemma Set_kept: "kept (snd (Holds_Set the_store ctx i ttl w)) = kept w"
  by (simp add: Holds_Set_def hold_op_kept set_kept)

lemma Release_kept: "kept (snd (Holds_Release the_store ctx i w)) = kept w"
  by (simp add: Holds_Release_def hold_op_kept del_kept)

lemma Exists_kept: "kept (snd (Holds_Exists the_store ctx i w)) = kept w"
  using hold_op_kept [of "\<lambda>cctx. rd_Exists client cctx (Key i)" OpExists ctx w]
  by (auto simp: Holds_Exists_def exists_kept split: prod.split option.split)

end

lemma Holds_ok: "fst (Holds_Set st ctx i ttl w) = Inr ()" "fst (Holds_Release st ctx i w) = Inr ()"
  by (simp_all add: Holds_Set_def Holds_Release_def split: option.split)

section \<open>A reference Redis\<close>

text \<open>Keys with their expiry; each entry of the script is the latency and the fate of one round trip.\<close>

record redis =
  rs_keys :: "string \<rightharpoonup> instant"
  rs_script :: "(duration \<times> bool) list"

record hold_state =
  hd_redis :: redis
  hd_breaker :: breaker
  hd_snapshot :: snapshot

definition redis_call ::
  "('m world_scheme, redis) cell \<Rightarrow> go_context \<Rightarrow> (instant \<Rightarrow> (string \<rightharpoonup> instant) \<Rightarrow> 'a \<times> (string \<rightharpoonup> instant)) \<Rightarrow>
     ('m world_scheme, 'a) op" where
  "redis_call cell ctx f w =
     (let (d, up) = (case rs_script (cell_get cell w) of [] \<Rightarrow> (0, True) | e # es \<Rightarrow> e);
          w1 = cell_upd cell (\<lambda>r. r\<lparr>rs_script := tl (rs_script r)\<rparr>) w in
      case await ctx d w1 of
        (Inl e, w2) \<Rightarrow> (Inl e, w2)
      | (Inr _, w2) \<Rightarrow>
          if \<not> up then (Inl (Plain ''dial tcp: connection refused''), w2)
          else (case f (wall w2) (rs_keys (cell_get cell w2)) of (a, ks) \<Rightarrow>
                 (Inr a, cell_upd cell (\<lambda>r. r\<lparr>rs_keys := ks\<rparr>) w2)))"

definition redis_live :: "instant \<Rightarrow> (string \<rightharpoonup> instant) \<Rightarrow> string \<Rightarrow> bool" where
  "redis_live now ks k = (case ks k of None \<Rightarrow> False | Some t \<Rightarrow> now < t)"

definition ref_redis :: "('m world_scheme, redis) cell \<Rightarrow> 'm redis_client" where
  "ref_redis cell =
     \<lparr>rd_Set = (\<lambda>ctx k ttl. redis_call cell ctx (\<lambda>now ks. ((), ks(k \<mapsto> now + ttl)))),
      rd_Del = (\<lambda>ctx k. redis_call cell ctx (\<lambda>now ks. (if redis_live now ks k then 1 else 0, ks(k := None)))),
      rd_Exists = (\<lambda>ctx k. redis_call cell ctx (\<lambda>now ks. (if redis_live now ks k then 1 else 0, ks)))\<rparr>"

text \<open>The cells of a hold store that lives beside a database, and the observer over its snapshot.\<close>

definition pg_redis_cell :: "((('db, hold_state) pg_world_ext) world_scheme, redis) cell" where
  "pg_redis_cell = \<lparr>cell_get = (\<lambda>w. hd_redis (pg_world.more w)),
     cell_upd = (\<lambda>f. pg_world.more_update (\<lambda>m. m\<lparr>hd_redis := f (hd_redis m)\<rparr>))\<rparr>"

definition pg_breaker_cell :: "((('db, hold_state) pg_world_ext) world_scheme, breaker) cell" where
  "pg_breaker_cell = \<lparr>cell_get = (\<lambda>w. hd_breaker (pg_world.more w)),
     cell_upd = (\<lambda>f. pg_world.more_update (\<lambda>m. m\<lparr>hd_breaker := f (hd_breaker m)\<rparr>))\<rparr>"

definition pg_snapshot_observer :: "(('db, hold_state) pg_world_ext) world_scheme hold_observer" where
  "pg_snapshot_observer =
     \<lparr>ob_ObserveOp = (\<lambda>what d out. pg_world.more_update (\<lambda>m. m\<lparr>hd_snapshot := Snapshot_ObserveOp what d out (hd_snapshot m)\<rparr>)),
      ob_BreakerOpened = pg_world.more_update (\<lambda>m. m\<lparr>hd_snapshot := Snapshot_BreakerOpened (hd_snapshot m)\<rparr>),
      ob_BreakerRecovered = pg_world.more_update (\<lambda>m. m\<lparr>hd_snapshot := Snapshot_BreakerRecovered (hd_snapshot m)\<rparr>)\<rparr>"

lemma await_pg: "await ctx d w = (r, w') \<Longrightarrow> db w' = db w \<and> tx w' = tx w \<and> pg_world.more w' = pg_world.more w"
  by (auto dest: await_frame)

lemma redis_call_pg:
  "db (snd (redis_call pg_redis_cell ctx f w)) = db w \<and> tx (snd (redis_call pg_redis_cell ctx f w)) = tx w"
  by (auto simp: redis_call_def Let_def pg_redis_cell_def dest!: await_pg split: prod.split sum.split)

interpretation pg_holds: accelerator "ref_redis pg_redis_cell" pg_breaker_cell "Some pg_snapshot_observer"
  "\<lambda>w. (db w, tx w)"
  by unfold_locales
    (auto simp: ref_redis_def pg_breaker_cell_def pg_snapshot_observer_def redis_call_pg)

text \<open>So the store is a port that the core may be given.\<close>

lemma accelerator_hold_safe:
  assumes "accelerator client cell obs (\<lambda>w. (db w, tx w))"
  shows "hold_safe (hold_port \<lparr>st_client = Some client, st_br = cell, st_obs = obs\<rparr> ctx)"
  using accelerator.Set_kept [OF assms] accelerator.Release_kept [OF assms]
  by (simp add: hold_safe_def hold_port_def)

section \<open>The breaker under concurrent callers\<close>

text \<open>
  \<open>bs_probes\<close> are the instants at which an operation was let through an open breaker since it last
  closed, newest first; the two counts are the reports to the observer.
\<close>

record breaker_sys =
  bs_breaker :: breaker
  bs_now :: instant
  bs_probes :: "instant list"
  bs_opened :: nat
  bs_recovered :: nat

definition open_breaker :: "breaker \<Rightarrow> bool" where
  "open_breaker b \<longleftrightarrow> b_threshold b \<le> b_failures b"

inductive breaker_step :: "breaker_sys \<Rightarrow> breaker_sys \<Rightarrow> bool" where
  tick: "0 \<le> d \<Longrightarrow> breaker_step s (s\<lparr>bs_now := bs_now s + d\<rparr>)"
| let_through: "allow (bs_now s) (bs_breaker s) = (True, b) \<Longrightarrow>
     breaker_step s (s\<lparr>bs_breaker := b,
       bs_probes := (if open_breaker (bs_breaker s) then bs_now s # bs_probes s else bs_probes s)\<rparr>)"
| short_circuited: "allow (bs_now s) (bs_breaker s) = (False, b) \<Longrightarrow> breaker_step s (s\<lparr>bs_breaker := b\<rparr>)"
| succeeded: "success (bs_breaker s) = (wasOpen, b) \<Longrightarrow>
     breaker_step s (s\<lparr>bs_breaker := b, bs_probes := [],
       bs_recovered := bs_recovered s + (if wasOpen then 1 else 0)\<rparr>)"
| failed: "failure (bs_now s) (bs_breaker s) = (opened, b) \<Longrightarrow>
     breaker_step s (s\<lparr>bs_breaker := b, bs_opened := bs_opened s + (if opened then 1 else 0)\<rparr>)"

inductive_cases breaker_stepE: "breaker_step s s'"

definition breaker_start :: "int \<Rightarrow> duration \<Rightarrow> instant \<Rightarrow> breaker_sys" where
  "breaker_start threshold cooldown now =
     \<lparr>bs_breaker = newBreaker threshold cooldown, bs_now = now, bs_probes = [], bs_opened = 0, bs_recovered = 0\<rparr>"

definition breaker_inv :: "int \<Rightarrow> duration \<Rightarrow> breaker_sys \<Rightarrow> bool" where
  "breaker_inv t c s \<longleftrightarrow> b_threshold (bs_breaker s) = t \<and> b_cooldown (bs_breaker s) = c
     \<and> 0 \<le> b_failures (bs_breaker s)
     \<and> bs_opened s = bs_recovered s + (if open_breaker (bs_breaker s) then 1 else 0)
     \<and> (open_breaker (bs_breaker s) \<longrightarrow> b_openedAt (bs_breaker s) \<le> bs_now s)
     \<and> (\<not> open_breaker (bs_breaker s) \<longrightarrow> bs_probes s = [])
     \<and> (\<forall>p\<in>set (bs_probes s). p \<le> b_openedAt (bs_breaker s))
     \<and> sorted_wrt (\<lambda>p q. q + c \<le> p) (bs_probes s)"

lemma time_sub_ge: "0 < c \<Longrightarrow> c \<le> time_sub t u \<Longrightarrow> u + c \<le> t"
  by (auto simp: time_sub_def max_def min_def split: if_splits)

lemma breaker_step_inv:
  assumes "breaker_step s s'" "breaker_inv t c s" "0 < t" "0 < c"
  shows "breaker_inv t c s'"
  using assms(1)
proof cases
  case (tick d)
  with assms(2) show ?thesis by (auto simp: breaker_inv_def)
next
  case (let_through b)
  show ?thesis
  proof (cases "open_breaker (bs_breaker s)")
    case False
    with let_through assms(2) show ?thesis
      by (auto simp: breaker_inv_def allow_def open_breaker_def split: if_splits)
  next
    case True
    with let_through have b: "b = (bs_breaker s)\<lparr>b_openedAt := bs_now s\<rparr>"
      and "b_cooldown (bs_breaker s) \<le> time_sub (bs_now s) (b_openedAt (bs_breaker s))"
      by (auto simp: allow_def open_breaker_def split: if_splits)
    with assms(2,4) time_sub_ge have "b_openedAt (bs_breaker s) + c \<le> bs_now s"
      by (auto simp: breaker_inv_def)
    with True b let_through assms(2,4) show ?thesis
      by (fastforce simp: breaker_inv_def open_breaker_def)
  qed
next
  case (short_circuited b)
  with assms(2) show ?thesis
    by (auto simp: breaker_inv_def allow_def open_breaker_def split: if_splits)
next
  case (succeeded wasOpen b)
  with assms(2,3) show ?thesis
    by (auto simp: breaker_inv_def success_def open_breaker_def)
next
  case (failed opened b)
  with assms(2,3) show ?thesis
    by (auto simp: breaker_inv_def failure_def Let_def open_breaker_def split: if_splits)
qed

lemma breaker_reachable_inv:
  assumes "breaker_step\<^sup>*\<^sup>* (breaker_start t c now) s" "0 < t" "0 < c"
  shows "breaker_inv t c s"
  using assms(1)
proof (induction rule: rtranclp_induct)
  case base
  with assms(2) show ?case
    by (simp add: breaker_inv_def breaker_start_def newBreaker_def open_breaker_def)
next
  case (step s s')
  with assms(2,3) breaker_step_inv show ?case by blast
qed


section \<open>Redis down\<close>

datatype hold_call = CallSet string duration | CallRelease string | CallExists string

fun run_call :: "'m store \<Rightarrow> go_context \<Rightarrow> hold_call \<Rightarrow> 'm world_scheme \<Rightarrow> 'm world_scheme" where
  "run_call st ctx (CallSet i ttl) w = snd (Holds_Set st ctx i ttl w)"
| "run_call st ctx (CallRelease i) w = snd (Holds_Release st ctx i w)"
| "run_call st ctx (CallExists i) w = snd (Holds_Exists st ctx i w)"

text \<open>A Redis that is down answers with errors, sooner or later, and changes nothing.\<close>

definition only_time :: "('m world_scheme, 'a) op \<Rightarrow> bool" where
  "only_time m \<longleftrightarrow> (\<forall>w. \<exists>e t. m w = (Inl e, w\<lparr>wall := t\<rparr>) \<and> wall w \<le> t)"

definition redis_down :: "'m redis_client \<Rightarrow> bool" where
  "redis_down c \<longleftrightarrow> (\<forall>ctx k ttl. only_time (rd_Set c ctx k ttl) \<and> only_time (rd_Del c ctx k)
     \<and> only_time (rd_Exists c ctx k))"

type_synonym hold_world = "hold_state world_ext"

definition breaker_cell :: "(hold_state world_scheme, breaker) cell" where
  "breaker_cell = \<lparr>cell_get = (\<lambda>w. hd_breaker (world.more w)),
     cell_upd = (\<lambda>f. world.more_update (\<lambda>m. m\<lparr>hd_breaker := f (hd_breaker m)\<rparr>))\<rparr>"

definition snapshot_observer :: "hold_state world_scheme hold_observer" where
  "snapshot_observer =
     \<lparr>ob_ObserveOp = (\<lambda>what d out. world.more_update (\<lambda>m. m\<lparr>hd_snapshot := Snapshot_ObserveOp what d out (hd_snapshot m)\<rparr>)),
      ob_BreakerOpened = world.more_update (\<lambda>m. m\<lparr>hd_snapshot := Snapshot_BreakerOpened (hd_snapshot m)\<rparr>),
      ob_BreakerRecovered = world.more_update (\<lambda>m. m\<lparr>hd_snapshot := Snapshot_BreakerRecovered (hd_snapshot m)\<rparr>)\<rparr>"

definition watched_store :: "hold_state redis_client \<Rightarrow> hold_state store" where
  "watched_store c = \<lparr>st_client = Some c, st_br = breaker_cell, st_obs = Some snapshot_observer\<rparr>"

abbreviation "the_breaker w \<equiv> hd_breaker (world.more w)"
abbreviation "round_trips w \<equiv> sn_latency_count (hd_snapshot (world.more w))"

lemma Snapshot_count [simp]:
  "sn_latency_count (Snapshot_ObserveOp what d out sn)
     = sn_latency_count sn + (if out = OpShortCircuited then 0 else 1)"
  by (cases out) (simp_all add: Snapshot_ObserveOp_def Let_def reached_redis_def)

lemma Snapshot_opened_count [simp]: "sn_latency_count (Snapshot_BreakerOpened sn) = sn_latency_count sn"
  by (simp add: Snapshot_BreakerOpened_def)

text \<open>
  Callers that share the store while Redis is down, at most \<open>k\<close> of them at a time: the core has one per
  consumer.  A call that the breaker lets through is on its way to Redis (\<open>Sent\<close>) until it has failed and
  its attempt has been observed; then the breaker is told of the failure.  Each of these is one step,
  under the mutex of the breaker or of the observer, so between any two of them the others move.
\<close>

datatype flight = Sent string instant | Failed string

record hold_sys =
  hs_world :: "hold_state world_scheme"
  hs_flights :: "flight list"

inductive hold_step :: "hold_state store \<Rightarrow> nat \<Rightarrow> hold_sys \<Rightarrow> hold_sys \<Rightarrow> bool" for st k where
  passes: "0 \<le> d \<Longrightarrow> hold_step st k s (s\<lparr>hs_world := (hs_world s)\<lparr>wall := wall (hs_world s) + d\<rparr>\<rparr>)"
| sends: "length (hs_flights s) < k \<Longrightarrow> hold_begin st (hs_world s) = (True, w) \<Longrightarrow>
     hold_step st k s \<lparr>hs_world = w, hs_flights = Sent what (wall (hs_world s)) # hs_flights s\<rparr>"
| shorts: "length (hs_flights s) < k \<Longrightarrow> hold_begin st (hs_world s) = (False, w) \<Longrightarrow>
     hold_step st k s (s\<lparr>hs_world := observe st what start OpShortCircuited w\<rparr>)"
| observes: "Sent what start \<in> set (hs_flights s) \<Longrightarrow>
     hold_step st k s \<lparr>hs_world = observe st what start OpDegraded (hs_world s),
       hs_flights = Failed what # remove1 (Sent what start) (hs_flights s)\<rparr>"
| degrades: "Failed what \<in> set (hs_flights s) \<Longrightarrow>
     hold_step st k s \<lparr>hs_world = degraded st (hs_world s), hs_flights = remove1 (Failed what) (hs_flights s)\<rparr>"

fun is_sent :: "flight \<Rightarrow> bool" where
  "is_sent (Sent what start) = True"
| "is_sent (Failed what) = False"

text \<open>The operations that were sent to Redis: those observed, and those under way.\<close>

definition sent_to_redis :: "hold_sys \<Rightarrow> int" where
  "sent_to_redis s = round_trips (hs_world s) + int (length (filter is_sent (hs_flights s)))"

text \<open>
  While the breaker is closed every operation sent is a failure it has counted or one in flight; once it
  is open, every further operation is paid for with a cooldown.
\<close>

definition outage :: "int \<Rightarrow> duration \<Rightarrow> instant \<Rightarrow> nat \<Rightarrow> hold_sys \<Rightarrow> bool" where
  "outage n c t0 k s \<longleftrightarrow> b_threshold (the_breaker (hs_world s)) = n \<and> b_cooldown (the_breaker (hs_world s)) = c
     \<and> t0 \<le> wall (hs_world s) \<and> length (hs_flights s) \<le> k
     \<and> (if open_breaker (the_breaker (hs_world s))
        then b_openedAt (the_breaker (hs_world s)) \<le> wall (hs_world s)
          \<and> (sent_to_redis s - n - (int k - 1)) * c \<le> b_openedAt (the_breaker (hs_world s)) - t0
        else sent_to_redis s \<le> b_failures (the_breaker (hs_world s)) + int (length (hs_flights s)))"

lemma outageI:
  assumes "b_threshold (the_breaker (hs_world s)) = n" "b_cooldown (the_breaker (hs_world s)) = c"
    and "t0 \<le> wall (hs_world s)" "length (hs_flights s) \<le> k"
    and "open_breaker (the_breaker (hs_world s)) \<Longrightarrow> b_openedAt (the_breaker (hs_world s)) \<le> wall (hs_world s)
      \<and> (sent_to_redis s - n - (int k - 1)) * c \<le> b_openedAt (the_breaker (hs_world s)) - t0"
    and "\<not> open_breaker (the_breaker (hs_world s)) \<Longrightarrow>
      sent_to_redis s \<le> b_failures (the_breaker (hs_world s)) + int (length (hs_flights s))"
  shows "outage n c t0 k s"
  using assms by (simp add: outage_def)

lemma watched_begin:
  "hold_begin (watched_store cl) w = (a, w') \<Longrightarrow>
     allow (wall w) (the_breaker w) = (a, the_breaker w') \<and> wall w' = wall w \<and> round_trips w' = round_trips w"
  by (auto simp: hold_begin_def watched_store_def breaker_cell_def split: prod.splits)

lemma watched_observe [simp]:
  "the_breaker (observe (watched_store cl) what start out w) = the_breaker w"
  "wall (observe (watched_store cl) what start out w) = wall w"
  "round_trips (observe (watched_store cl) what start out w)
     = round_trips w + (if out = OpShortCircuited then 0 else 1)"
  by (simp_all add: observe_def watched_store_def snapshot_observer_def)

lemma watched_degraded [simp]:
  "the_breaker (degraded (watched_store cl) w) = snd (failure (wall w) (the_breaker w))"
  "wall (degraded (watched_store cl) w) = wall w"
  "round_trips (degraded (watched_store cl) w) = round_trips w"
  by (simp_all add: degraded_def watched_store_def breaker_cell_def snapshot_observer_def Let_def split: prod.split)

lemma count_remove1:
  "x \<in> set xs \<Longrightarrow> length (filter P (remove1 x xs)) + (if P x then 1 else 0) = length (filter P xs)"
  by (induction xs) auto

lemma hold_step_outage:
  assumes "hold_step (watched_store cl) k s s'" "outage n c t0 k s" "0 < n" "0 < c"
  shows "outage n c t0 k s'"
  using assms(1)
proof cases
  case (passes d)
  with assms(2) show ?thesis by (auto simp: outage_def sent_to_redis_def)
next
  case (sends w what)
  note b = watched_begin [OF sends(3)]
  have one: "sent_to_redis s' = sent_to_redis s + 1" using sends(1) b by (simp add: sent_to_redis_def)
  show ?thesis
  proof (cases "open_breaker (the_breaker (hs_world s))")
    case False
    with b have "the_breaker w = the_breaker (hs_world s)"
      by (auto simp: allow_def open_breaker_def split: if_splits)
    with False assms(2) sends b one show ?thesis by (intro outageI) (auto simp: outage_def)
  next
    case True
    with b have al: "the_breaker w = (the_breaker (hs_world s))\<lparr>b_openedAt := wall (hs_world s)\<rparr>"
      and wait: "b_cooldown (the_breaker (hs_world s)) \<le> time_sub (wall (hs_world s)) (b_openedAt (the_breaker (hs_world s)))"
      by (auto simp: allow_def open_breaker_def split: if_splits)
    from wait assms(2,4) time_sub_ge have gap: "b_openedAt (the_breaker (hs_world s)) + c \<le> wall (hs_world s)"
      by (auto simp: outage_def)
    have "(sent_to_redis s' - n - (int k - 1)) * c = (sent_to_redis s - n - (int k - 1)) * c + c"
      by (simp add: one algebra_simps)
    also have "\<dots> \<le> wall (hs_world s) - t0" using assms(2) True gap by (simp add: outage_def)
    finally show ?thesis
      using assms(2) True sends(1,2) al b by (intro outageI) (auto simp: outage_def open_breaker_def)
  qed
next
  case (shorts w what start)
  note b = watched_begin [OF shorts(3)]
  then have "the_breaker w = the_breaker (hs_world s)"
    by (auto simp: allow_def split: if_splits)
  moreover have "sent_to_redis s' = sent_to_redis s" using shorts(1) b by (simp add: sent_to_redis_def)
  ultimately show ?thesis using assms(2) shorts(1) b by (simp add: outage_def)
next
  case (observes what start)
  from count_remove1 [OF observes(2), of is_sent] observes(2)
  have "sent_to_redis s' = sent_to_redis s" "length (hs_flights s') = length (hs_flights s)"
    unfolding observes(1) by (auto simp: sent_to_redis_def length_remove1 dest: length_pos_if_in_set)
  with assms(2) observes(1) show ?thesis by (simp add: outage_def)
next
  case (degrades what)
  from count_remove1 [OF degrades(2), of is_sent] degrades(2)
  have same: "sent_to_redis s' = sent_to_redis s" and less: "length (hs_flights s') + 1 = length (hs_flights s)"
    unfolding degrades(1) by (auto simp: sent_to_redis_def length_remove1 dest: length_pos_if_in_set)
  let ?b = "the_breaker (hs_world s)"
  have new: "the_breaker (hs_world s') = snd (failure (wall (hs_world s)) ?b)" "wall (hs_world s') = wall (hs_world s)"
    by (simp_all add: degrades(1))
  show ?thesis
  proof (cases "open_breaker ?b")
    case True
    with assms(2) new same less show ?thesis
      by (intro outageI) (auto simp: outage_def open_breaker_def failure_def Let_def)
  next
    case False
    then have sent: "sent_to_redis s \<le> b_failures ?b + int (length (hs_flights s))"
      and k: "length (hs_flights s) \<le> k" and n: "b_threshold ?b = n" and t: "t0 \<le> wall (hs_world s)"
      using assms(2) by (simp_all add: outage_def)
    have "(sent_to_redis s' - n - (int k - 1)) * c \<le> wall (hs_world s) - t0" if "n \<le> b_failures ?b + 1"
    proof -
      have "sent_to_redis s' - n - (int k - 1) \<le> 0"
        using False sent k n that same by (simp add: open_breaker_def)
      then have "(sent_to_redis s' - n - (int k - 1)) * c \<le> 0" using assms(4) by (simp add: mult_nonpos_nonneg)
      with t show ?thesis by simp
    qed
    with assms(2) False new same less n sent show ?thesis
      by (intro outageI) (auto simp: outage_def open_breaker_def failure_def Let_def split: if_splits)
  qed
qed

lemma hold_steps_outage:
  assumes "(hold_step (watched_store cl) k)\<^sup>*\<^sup>* s s'" "outage n c t0 k s" "0 < n" "0 < c"
  shows "outage n c t0 k s'"
  using assms(1,2) by (induction rule: rtranclp_induct) (auto intro: hold_step_outage [OF _ _ assms(3,4)])

lemma outage_bound:
  assumes "outage n c t0 k s" "0 < c" "0 < k"
  shows "sent_to_redis s \<le> n + (int k - 1) + (wall (hs_world s) - t0) div c"
proof (cases "open_breaker (the_breaker (hs_world s))")
  case False
  have "0 \<le> (wall (hs_world s) - t0) div c" using assms by (simp add: outage_def pos_imp_zdiv_nonneg_iff)
  with False assms(1) show ?thesis by (auto simp: outage_def open_breaker_def)
next
  case True
  let ?m = "sent_to_redis s - n - (int k - 1)"
  from True assms(1) have "?m * c \<le> wall (hs_world s) - t0" by (auto simp: outage_def)
  then have "?m \<le> (wall (hs_world s) - t0) div c"
    using assms(2) by (simp add: zdiv_mono1 [of "?m * c" "wall (hs_world s) - t0" c, simplified])
  then show ?thesis by simp
qed

text \<open>An operation of a caller on such a Redis is a run of these steps, whoever else is under way.\<close>

lemma hold_op_steps:
  assumes down: "only_time (call (with_timeout ctx opTimeout (wall w)))" and room: "length fl < k"
  shows "(hold_step st k)\<^sup>*\<^sup>* \<lparr>hs_world = w, hs_flights = fl\<rparr>
    \<lparr>hs_world = snd (hold_op st what ctx call w), hs_flights = fl\<rparr>"
proof -
  let ?s = "\<lparr>hs_world = w, hs_flights = fl\<rparr>"
  obtain a w1 where b: "hold_begin st w = (a, w1)" by fastforce
  show ?thesis
  proof (cases a)
    case False
    with b room hold_step.shorts [of ?s k st w1 what "wall w"] show ?thesis by (auto simp: hold_op_def)
  next
    case True
    from down obtain e t where c: "call (with_timeout ctx opTimeout (wall w)) w1 = (Inl e, w1\<lparr>wall := t\<rparr>)"
      and t: "wall w1 \<le> t" unfolding only_time_def by meson
    define s1 where "s1 = \<lparr>hs_world = w1, hs_flights = Sent what (wall w) # fl\<rparr>"
    define s2 where "s2 = s1\<lparr>hs_world := w1\<lparr>wall := t\<rparr>\<rparr>"
    define s3 where "s3 = \<lparr>hs_world = observe st what (wall w) OpDegraded (w1\<lparr>wall := t\<rparr>), hs_flights = Failed what # fl\<rparr>"
    have "hold_step st k ?s s1"
      using hold_step.sends [of ?s k st w1 what] b True room by (simp add: s1_def)
    moreover have "hold_step st k s1 s2"
      using hold_step.passes [of "t - wall w1" st k s1] t by (simp add: s1_def s2_def)
    moreover have "hold_step st k s2 s3"
      using hold_step.observes [of what "wall w" s2 st k] by (simp add: s1_def s2_def s3_def)
    moreover have "hold_step st k s3 \<lparr>hs_world = snd (hold_op st what ctx call w), hs_flights = fl\<rparr>"
      using hold_step.degrades [of what s3 st k] b True c
      by (simp add: s3_def hold_op_def hold_end_def outcomeOf_def)
    ultimately show ?thesis by (meson converse_rtranclp_into_rtranclp rtranclp.rtrancl_refl)
  qed
qed

lemma run_call_steps:
  assumes "redis_down cl" "st_client st = Some cl" "length fl < k"
  shows "(hold_step st k)\<^sup>*\<^sup>* \<lparr>hs_world = w, hs_flights = fl\<rparr> \<lparr>hs_world = run_call st ctx call w, hs_flights = fl\<rparr>"
proof -
  have d: "only_time (rd_Set cl x i ttl)" "only_time (rd_Del cl x i)" "only_time (rd_Exists cl x i)" for x i ttl
    using assms(1) by (auto simp: redis_down_def)
  show ?thesis
  proof (cases call)
    case (CallSet i ttl)
    with assms(2,3) d(1) show ?thesis by (simp add: Holds_Set_def hold_op_steps)
  next
    case (CallRelease i)
    with assms(2,3) d(2) show ?thesis by (simp add: Holds_Release_def hold_op_steps)
  next
    case (CallExists i)
    have "(hold_step st k)\<^sup>*\<^sup>* \<lparr>hs_world = w, hs_flights = fl\<rparr>
      \<lparr>hs_world = snd (hold_op st OpExists ctx (\<lambda>cctx. rd_Exists cl cctx (Key i)) w), hs_flights = fl\<rparr>"
      by (rule hold_op_steps [OF _ assms(3)]) (rule d(3))
    with CallExists assms(2) show ?thesis by (auto simp: Holds_Exists_def split: prod.split option.split)
  qed
qed

end
