(* ===== verification/Holds_Properties.thy ===== *)
theory Holds_Properties
  imports Holds_System Core_Example
begin

text \<open>
  The properties of the hold accelerator, applied to a reference Redis beside the sample database of
  the core and to a Redis that refuses every call.
\<close>

section \<open>Sample states\<close>

definition hx_store :: "((core_db, hold_state) pg_world_ext) store" where
  "hx_store = \<lparr>st_client = Some (ref_redis pg_redis_cell), st_br = pg_breaker_cell, st_obs = Some pg_snapshot_observer\<rparr>"

definition hx_world :: "core_db \<Rightarrow> hold_state core_world" where
  "hx_world d = \<lparr>wall = ex_now, rng = (\<lambda>_. 0), rng_pos = 0, meter = [], db = d, pg_clock = ex_now,
     tx = NoTx, faults = [], hd_redis = \<lparr>rs_keys = Map.empty, rs_script = [(0, False)]\<rparr>,
     hd_breaker = newBreaker 5 (30 * second), hd_snapshot = NewSnapshotObserver\<rparr>"

definition hx_refusing :: "hold_state redis_client" where
  "hx_refusing = \<lparr>rd_Set = (\<lambda>_ _ _. fail (Plain ''refused'')), rd_Del = (\<lambda>_ _. fail (Plain ''refused'')),
     rd_Exists = (\<lambda>_ _. fail (Plain ''refused''))\<rparr>"

definition hx_down :: "hold_state world_scheme" where
  "hx_down = \<lparr>wall = 0, rng = (\<lambda>_. 0), rng_pos = 0, meter = [],
     hd_redis = \<lparr>rs_keys = Map.empty, rs_script = []\<rparr>, hd_breaker = newBreaker 5 (30 * second),
     hd_snapshot = NewSnapshotObserver\<rparr>"

lemma hx_safe: "hold_safe (hold_port hx_store ctx)"
  unfolding hx_store_def by (rule accelerator_hold_safe [OF pg_holds.accelerator_axioms])

lemma only_time_fail: "only_time (fail e)"
  unfolding only_time_def
proof
  fix w :: "'m world_scheme"
  have "w\<lparr>wall := wall w\<rparr> = w" by simp
  then show "\<exists>e' t. fail e w = (Inl e', w\<lparr>wall := t\<rparr>) \<and> wall w \<le> t"
    by (metis fail_run order_refl)
qed

lemma hx_refusing_down: "redis_down hx_refusing"
  by (simp add: redis_down_def hx_refusing_def only_time_fail)

section \<open>Properties\<close>

text \<open>C26: The accelerator is only an accelerator.  With a hold store whose Redis and observer leave the
  database alone - up, slow, refusing or flapping - Reserve, Confirm and every release return the same
  result and leave the same tables as without any hold store.\<close>

theorem holds_transparent:
  fixes ctx :: go_context
  assumes "accelerator client cell obs (\<lambda>w :: 'm core_world. (db w, tx w))"
  defines "h \<equiv> hold_port \<lparr>st_client = Some client, st_br = cell, st_obs = obs\<rparr> ctx"
  shows "fst (Reserve (core_service ttl (Some h) v) cmd w) = fst (Reserve (core_service ttl None v) cmd w)
    \<and> db (snd (Reserve (core_service ttl (Some h) v) cmd w)) = db (snd (Reserve (core_service ttl None v) cmd w))
    \<and> fst (Service_Confirm (core_service ttl (Some h) v) i w) = fst (Service_Confirm (core_service ttl None v) i w)
    \<and> db (snd (Service_Confirm (core_service ttl (Some h) v) i w)) = db (snd (Service_Confirm (core_service ttl None v) i w))
    \<and> fst (release (core_service ttl (Some h) v) i reason w) = fst (release (core_service ttl None v) i reason w)
    \<and> db (snd (release (core_service ttl (Some h) v) i reason w)) = db (snd (release (core_service ttl None v) i reason w))"
proof -
  have "hold_safe h" unfolding h_def by (rule accelerator_hold_safe [OF assms(1)])
  then show ?thesis using with_port [of h] by simp
qed

theorem holds_transparent_witness:
  "fst (Service_Confirm (core_service (15 * minute) (Some (hold_port hx_store None)) ex_valid) ex_res_id (hx_world ex_held))
   = fst (Service_Confirm (core_service (15 * minute) None ex_valid) ex_res_id (hx_world ex_held))"
  using holds_transparent [OF pg_holds.accelerator_axioms, of "15 * minute" None ex_valid ex_command "hx_world ex_held"
      ex_res_id reasonFailed]
  by (simp add: hx_store_def)

text \<open>C27: The breaker keeps its books under concurrency.  However the calls of its users interleave and the
  clock advances, the openings it has reported exceed the recoveries by one while it is open and by
  none while it is closed, and the operations it lets through while open are at least a cooldown
  apart.\<close>

theorem breaker_books:
  assumes "breaker_step\<^sup>*\<^sup>* (breaker_start threshold cooldown now) s" "0 < threshold" "0 < cooldown"
  shows "bs_opened s = bs_recovered s + (if open_breaker (bs_breaker s) then 1 else 0)
    \<and> sorted_wrt (\<lambda>p q. q + cooldown \<le> p) (bs_probes s)"
  using breaker_reachable_inv [OF assms] by (simp add: breaker_inv_def)

theorem breaker_books_witness:
  "\<exists>s. bs_opened s = 1 \<and> bs_recovered s = 0 \<and> open_breaker (bs_breaker s)
    \<and> breaker_step\<^sup>*\<^sup>* (breaker_start 1 second 0) s"
proof -
  let ?s = "breaker_start 1 second 0"
  obtain b where f: "failure (bs_now ?s) (bs_breaker ?s) = (True, b)" "open_breaker b"
    by (simp add: failure_def breaker_start_def newBreaker_def open_breaker_def)
  let ?s' = "?s\<lparr>bs_breaker := b, bs_opened := bs_opened ?s + (if True then 1 else 0)\<rparr>"
  have "breaker_step\<^sup>*\<^sup>* ?s ?s'" using breaker_step.failed [OF f(1)] by (rule r_into_rtranclp)
  from breaker_books [OF this] this f(2) show ?thesis
    by (intro exI [of _ ?s']) (simp add: duration_defs breaker_start_def)
qed

text \<open>C28: An outage is cheap.  Let up to \<open>k\<close> callers share a store, as the consumers of the core do, and let
  Redis be down, from a moment at which the breaker is closed and no call is under way.  However their calls
  interleave, however many there are and however long each takes to fail, the operations that have been sent
  to Redis are at most the failure threshold, one for every further caller that was under way when the
  breaker opened, and one per cooldown of elapsed time.  Every operation of the store on such a Redis is a
  run of the steps this is about.\<close>

theorem outage_is_cheap:
  fixes ctx :: go_context
  assumes "redis_down client" "(hold_step (watched_store client) k)\<^sup>*\<^sup>* s s'" "hs_flights s = []"
    and "b_threshold (the_breaker (hs_world s)) = threshold" "b_cooldown (the_breaker (hs_world s)) = cooldown"
    and "0 \<le> b_failures (the_breaker (hs_world s))" "\<not> open_breaker (the_breaker (hs_world s))"
    and "round_trips (hs_world s) = 0" "0 < threshold" "0 < cooldown" "0 < k"
  shows "sent_to_redis s' \<le> threshold + (int k - 1) + (wall (hs_world s') - wall (hs_world s)) div cooldown
    \<and> (length fl < k \<longrightarrow> (hold_step (watched_store client) k)\<^sup>*\<^sup>* \<lparr>hs_world = w, hs_flights = fl\<rparr>
        \<lparr>hs_world = run_call (watched_store client) ctx call w, hs_flights = fl\<rparr>)"
proof -
  have "outage threshold cooldown (wall (hs_world s)) k s"
    using assms(3-8) by (simp add: outage_def sent_to_redis_def)
  from outage_bound [OF hold_steps_outage [OF assms(2) this assms(9,10)] assms(10,11)]
  show ?thesis using run_call_steps [OF assms(1)] by (simp add: watched_store_def)
qed

text \<open>
  The bound is attained: with four callers the breaker of the core (threshold 5) has seen four failures,
  and four operations are under way when it opens.
\<close>

definition hx_sys :: "hold_state world_scheme \<Rightarrow> flight list \<Rightarrow> hold_sys" where
  "hx_sys w fl = \<lparr>hs_world = w, hs_flights = fl\<rparr>"

lemma closed_sends:
  "\<not> open_breaker (the_breaker w) \<Longrightarrow> n \<le> k \<Longrightarrow>
     (hold_step (watched_store cl) k)\<^sup>*\<^sup>* (hx_sys w []) (hx_sys w (replicate n (Sent what (wall w))))"
proof (induction n)
  case (Suc n)
  let ?s = "hx_sys w (replicate n (Sent what (wall w)))"
  have "world.more_update (hd_breaker_update (\<lambda>_. the_breaker w)) w = w"
    by (intro world.equality hold_state.equality) simp_all
  with Suc.prems(1) have "hold_begin (watched_store cl) (hs_world ?s) = (True, w)"
    by (simp add: hold_begin_def hx_sys_def watched_store_def breaker_cell_def allow_def open_breaker_def)
  with Suc.prems(2) have "hold_step (watched_store cl) k ?s (hx_sys w (replicate (Suc n) (Sent what (wall w))))"
    using hold_step.sends [of ?s k "watched_store cl" w what] by (simp add: hx_sys_def)
  with Suc show ?case by (metis Suc_leD rtranclp.rtrancl_into_rtrancl)
qed (simp add: hx_sys_def)

definition hx_release :: "hold_state world_scheme \<Rightarrow> hold_state world_scheme" where
  "hx_release w = run_call (watched_store hx_refusing) None (CallRelease ''r'') w"

lemma hx_released: "0 < k \<Longrightarrow> (hold_step (watched_store hx_refusing) k)\<^sup>*\<^sup>* (hx_sys w []) (hx_sys (hx_release w) [])"
  using run_call_steps [OF hx_refusing_down, of "watched_store hx_refusing" "[]" k w None "CallRelease ''r''"]
  by (simp add: hx_sys_def hx_release_def watched_store_def)

lemma hx_release_counts:
  assumes "\<not> open_breaker (the_breaker w)" "b_failures (the_breaker w) + 1 < b_threshold (the_breaker w)"
  shows "the_breaker (hx_release w) = (the_breaker w)\<lparr>b_failures := b_failures (the_breaker w) + 1\<rparr>"
    "round_trips (hx_release w) = round_trips w + 1" "wall (hx_release w) = wall w"
  using assms by (simp_all add: hx_release_def Holds_Release_def hold_op_def hold_begin_def hold_end_def allow_def
      open_breaker_def failure_def Let_def hx_refusing_def fail_def outcomeOf_def watched_store_def breaker_cell_def
      snapshot_observer_def observe_def degraded_def)

lemma hx_down_counts: "the_breaker hx_down = \<lparr>b_threshold = 5, b_cooldown = 30 * second, b_failures = 0,
    b_openedAt = zero_time\<rparr>" "round_trips hx_down = 0"
  by (simp_all add: hx_down_def newBreaker_def NewSnapshotObserver_def)

theorem outage_is_cheap_witness:
  "\<exists>s. (hold_step (watched_store hx_refusing) 4)\<^sup>*\<^sup>* (hx_sys hx_down []) s \<and> wall (hs_world s) = wall hx_down
    \<and> sent_to_redis s = 8 \<and> sent_to_redis s \<le> 5 + (4 - 1) + (wall (hs_world s) - wall hx_down) div (30 * second)"
proof -
  let ?w = "hx_release (hx_release (hx_release (hx_release hx_down)))"
  let ?s = "hx_sys ?w (replicate 4 (Sent OpRelease (wall ?w)))"
  have four: "\<not> open_breaker (the_breaker ?w) \<and> round_trips ?w = 4 \<and> wall ?w = wall hx_down"
    by (simp add: hx_release_counts open_breaker_def hx_down_counts)
  have "(hold_step (watched_store hx_refusing) 4)\<^sup>*\<^sup>* (hx_sys hx_down []) (hx_sys ?w [])"
    by (rule rtranclp_trans [OF rtranclp_trans [OF rtranclp_trans [OF hx_released hx_released] hx_released] hx_released])
      simp_all
  also have "(hold_step (watched_store hx_refusing) 4)\<^sup>*\<^sup>* (hx_sys ?w []) ?s"
    using four by (intro closed_sends) simp_all
  finally have run: "(hold_step (watched_store hx_refusing) 4)\<^sup>*\<^sup>* (hx_sys hx_down []) ?s" .
  from outage_is_cheap [OF hx_refusing_down run, of 5 "30 * second"]
  have "sent_to_redis ?s \<le> 5 + (4 - 1) + (wall (hs_world ?s) - wall hx_down) div (30 * second)"
    by (simp add: hx_sys_def hx_down_def newBreaker_def open_breaker_def NewSnapshotObserver_def duration_defs)
  moreover have "sent_to_redis ?s = 8" using four by (simp add: hx_sys_def sent_to_redis_def)
  moreover have "wall (hs_world ?s) = wall hx_down" using four by (simp add: hx_sys_def)
  ultimately show ?thesis using run by (intro exI [of _ ?s]) (intro conjI; assumption)
qed

end
