(* ===== verification/Core_Subscribers.thy ===== *)
theory Core_Subscribers
  imports Core_Progress Broker
begin

text \<open>
  \<open>internal/core/subscribers.go\<close> and \<open>metrics.go\<close>: how the core decodes the commands and outcome events
  of the broker, which use case each of them drives, which rejections are final, and what it counts.
\<close>

section \<open>Counted outcomes\<close>

definition record_outcome :: "string \<Rightarrow> string \<Rightarrow> string list" where
  "record_outcome what outcome = [''pulsar_core_reservations_total'', what, outcome]"

definition recordReserveOutcome :: "err + 'a \<Rightarrow> string list" where
  "recordReserveOutcome r =
     record_outcome ''reserve''
       (case r of
          Inr _ \<Rightarrow> ''created''
        | Inl e \<Rightarrow>
            if errors_is e ErrSoldOut then ''sold_out''
            else if errors_is e ErrSaleNotOpen then ''sale_not_open''
            else if errors_is e ErrInvalidQuantity \<or> errors_is e ErrInvalidID then ''invalid''
            else ''error'')"

definition recordTerminalOutcome :: "string \<Rightarrow> err + 'a \<Rightarrow> string list" where
  "recordTerminalOutcome what r =
     record_outcome what
       (case r of
          Inr _ \<Rightarrow> ''applied''
        | Inl e \<Rightarrow> if errors_is e ErrInvalidTransition then ''rejected'' else ''error'')"

text \<open>A rejection that is acknowledged instead of retried, with its reason.\<close>

definition terminalReserveRejection :: "err \<Rightarrow> string option" where
  "terminalReserveRejection e = (if errors_is e ErrSoldOut then Some ''sold_out'' else None)"

section \<open>Decoding\<close>

definition decode_reserve :: "payload \<Rightarrow> err + reserve_command" where
  "decode_reserve p =
     thenE (unmarshal p) (\<lambda>kvs.
     thenE (str_field ''reservation_id'' kvs) (\<lambda>i.
     thenE (str_field ''event_id'' kvs) (\<lambda>ev.
     thenE (str_field ''user_id'' kvs) (\<lambda>u.
     thenE (int_field ''quantity'' kvs) (\<lambda>n.
       Inr \<lparr>rc_reservation_id = i, rc_event_id = ev, rc_user_id = u, rc_quantity = n\<rparr>)))))"

definition reservationRef :: "payload \<Rightarrow> err + string" where
  "reservationRef p = thenE (unmarshal p) (str_field ''reservation_id'')"

section \<open>Handlers\<close>

definition onReserve :: "'m service \<Rightarrow> 'm world_scheme handler" where
  "onReserve sv msg =
     (case decode_reserve (m_payload msg) of
        Inl e \<Rightarrow> fail (Wrapped ''decode reserve command: '' e '''')
      | Inr cmd \<Rightarrow>
          onResult (Reserve sv cmd) (\<lambda>r.
            counting (recordReserveOutcome r)
              (case r of
                 Inr _ \<Rightarrow> ok ()
               | Inl e \<Rightarrow>
                   if terminalReserveRejection e \<noteq> None then ok ()
                   else fail (Wrapped ''reserve: '' e ''''))))"

definition on_terminal ::
  "string \<Rightarrow> string \<Rightarrow> string \<Rightarrow> (string \<Rightarrow> ('m world_scheme, reservation) op) \<Rightarrow> 'm world_scheme handler" where
  "on_terminal subject_name what verb use_case msg =
     (case reservationRef (m_payload msg) of
        Inl e \<Rightarrow> fail (Wrapped (''decode '' @ subject_name @ '': '') e '''')
      | Inr i \<Rightarrow>
          onResult (use_case i) (\<lambda>r.
            counting (recordTerminalOutcome what r)
              (case r of
                 Inr _ \<Rightarrow> ok ()
               | Inl e \<Rightarrow> fail (Wrapped (verb @ '' reservation '' @ i @ '': '') e ''''))))"

definition onPaymentSucceeded :: "'m service \<Rightarrow> 'm world_scheme handler" where
  "onPaymentSucceeded sv = on_terminal ''payment.succeeded'' ''confirm'' ''confirm'' (Service_Confirm sv)"

definition onPaymentFailed :: "'m service \<Rightarrow> 'm world_scheme handler" where
  "onPaymentFailed sv = on_terminal ''payment.failed'' ''fail'' ''fail'' (Service_Fail sv)"

definition onReservationExpired :: "'m service \<Rightarrow> 'm world_scheme handler" where
  "onReservationExpired sv = on_terminal ''reservation.expired'' ''expire'' ''expire'' (Service_Expire sv)"

definition core_consumers :: "'m service \<Rightarrow> (string \<times> string \<times> 'm world_scheme handler) list" where
  "core_consumers sv =
     [(SubjectReservationReserve, ''core-reserve'', onReserve sv),
      (SubjectPaymentSucceeded, ''core-payment-succeeded'', onPaymentSucceeded sv),
      (SubjectPaymentFailed, ''core-payment-failed'', onPaymentFailed sv),
      (SubjectReservationExpired, ''core-reservation-expired'', onReservationExpired sv)]"

section \<open>What a handler can do\<close>

lemma on_terminal_run:
  assumes "on_terminal s what verb use_case msg w = (x, w')"
  shows "(w' = w \<and> (\<exists>e. x = Inl e)) \<or>
    (\<exists>i r w1. reservationRef (m_payload msg) = Inr i \<and> use_case i w = (r, w1)
       \<and> w' = count (recordTerminalOutcome what r) w1 \<and> (x = Inr () \<longleftrightarrow> (\<exists>a. r = Inr a)))"
proof (cases "reservationRef (m_payload msg)")
  case (Inl e)
  with assms show ?thesis by (auto simp: on_terminal_def)
next
  case (Inr i)
  obtain r w1 where r: "use_case i w = (r, w1)" by fastforce
  with assms Inr show ?thesis
    by (cases r) (auto simp: on_terminal_def onResult_def)
qed

lemma onReserve_run:
  assumes "onReserve sv msg w = (x, w')"
  shows "(w' = w \<and> (\<exists>e. x = Inl e)) \<or>
    (\<exists>cmd r w1. decode_reserve (m_payload msg) = Inr cmd \<and> Reserve sv cmd w = (r, w1)
       \<and> w' = count (recordReserveOutcome r) w1
       \<and> (x = Inr () \<longleftrightarrow> (\<exists>a. r = Inr a) \<or> (\<exists>e. r = Inl e \<and> errors_is e ErrSoldOut)))"
proof (cases "decode_reserve (m_payload msg)")
  case (Inl e)
  with assms show ?thesis by (auto simp: onReserve_def)
next
  case (Inr cmd)
  obtain r w1 where r: "Reserve sv cmd w = (r, w1)" by fastforce
  with assms Inr show ?thesis
    by (cases r) (auto simp: onReserve_def onResult_def terminalReserveRejection_def split: if_splits)
qed

text \<open>
  Every consumer, on any message at all and whatever fails, keeps the invariant of the core tables and
  every reservation that has left PENDING.
\<close>

definition keeps_books :: "core_db \<Rightarrow> core_db \<Rightarrow> bool" where
  "keeps_books d d' \<longleftrightarrow> core_inv d' \<and> (\<forall>r\<in>set (t_reservations d). r_status r \<noteq> PENDING \<longrightarrow> r \<in> set (t_reservations d'))"

lemma keeps_booksI:
  assumes "core_inv d" "d' = d \<or> (\<exists>e r b. books d e r b d') \<or> (\<exists>s e r b. settles d s e r b d')"
  shows "keeps_books d d'"
proof -
  have wf: "wf_core d" using assms(1) by (simp add: core_inv_def)
  from assms(2) consider "d' = d" | e r b where "books d e r b d'" | s e r b where "settles d s e r b d'" by blast
  then show ?thesis
  proof cases
    case 2
    with booking_inv [OF assms(1)] booking_keeps show ?thesis unfolding keeps_books_def by metis
  next
    case 3
    with settlement_inv [OF assms(1)] settlement_keeps [OF wf] show ?thesis unfolding keeps_books_def by metis
  qed (use assms(1) in \<open>simp add: keeps_books_def\<close>)
qed

lemma keeps_books_trans: "keeps_books d d' \<Longrightarrow> keeps_books d' d'' \<Longrightarrow> keeps_books d d''"
  by (auto simp: keeps_books_def)

lemma release_inv:
  assumes "release (core_service ttl h v) i reason w = (x, w')" "tx w = NoTx" "holds_safe h" "core_inv (db w)"
  shows "keeps_books (db w) (db w') \<and> tx w' = NoTx"
proof -
  have wf: "wf_core (db w)" using assms(4) by (simp add: core_inv_def)
  from release_effect [OF assms(1-3) wf] keeps_booksI [OF assms(4)] show ?thesis by metis
qed

lemma Confirm_inv:
  assumes "Service_Confirm (core_service ttl h v) i w = (x, w')" "tx w = NoTx" "holds_safe h" "core_inv (db w)"
  shows "keeps_books (db w) (db w') \<and> tx w' = NoTx"
proof -
  have wf: "wf_core (db w)" using assms(4) by (simp add: core_inv_def)
  from Confirm_effect [OF assms(1-3) wf] keeps_booksI [OF assms(4)] show ?thesis by metis
qed

lemma Reserve_inv:
  assumes "Reserve (core_service ttl h v) cmd w = (x, w')" "tx w = NoTx" "holds_safe h" "core_inv (db w)"
  shows "keeps_books (db w) (db w') \<and> tx w' = NoTx"
  using Reserve_effect [OF assms(1-3)] keeps_booksI [OF assms(4)] by metis

lemma count_db [simp]: "db (count c w) = db w" "tx (count c w) = tx w" "faults (count c w) = faults w"
  by (simp_all add: count_def)

lemma terminal_inv:
  assumes "on_terminal s what verb use_case msg w = (x, w')" "tx w = NoTx" "core_inv (db w)"
    and "\<And>i r w1. use_case i w = (r, w1) \<Longrightarrow> keeps_books (db w) (db w1) \<and> tx w1 = NoTx"
  shows "keeps_books (db w) (db w') \<and> tx w' = NoTx"
  using on_terminal_run [OF assms(1)] assms(2-4) keeps_booksI [OF assms(3)] by auto

lemma core_consumer_inv:
  assumes "(subject, durable, handler) \<in> set (core_consumers (core_service ttl h v))"
    and "handler msg w = (x, w')" and "tx w = NoTx" "core_inv (db w)" "holds_safe h"
  shows "keeps_books (db w) (db w') \<and> tx w' = NoTx"
proof -
  let ?sv = "core_service ttl h v"
  from assms(1) consider "handler = onReserve ?sv" | "handler = onPaymentSucceeded ?sv"
    | "handler = onPaymentFailed ?sv" | "handler = onReservationExpired ?sv"
    by (auto simp: core_consumers_def)
  then show ?thesis
  proof cases
    case 1
    with assms onReserve_run [of ?sv msg w x w'] Reserve_inv [of ttl h v _ w] keeps_booksI [OF assms(4)]
    show ?thesis by auto
  next
    case 2
    with assms(2) have "on_terminal ''payment.succeeded'' ''confirm'' ''confirm'' (Service_Confirm ?sv) msg w = (x, w')"
      by (simp add: onPaymentSucceeded_def)
    from terminal_inv [OF this assms(3,4)] Confirm_inv [OF _ assms(3,5,4)] show ?thesis by blast
  next
    case 3
    with assms(2) have "on_terminal ''payment.failed'' ''fail'' ''fail'' (Service_Fail ?sv) msg w = (x, w')"
      by (simp add: onPaymentFailed_def)
    from terminal_inv [OF this assms(3,4)] release_inv [OF _ assms(3,5,4)] show ?thesis
      unfolding Service_Fail_def by blast
  next
    case 4
    with assms(2) have "on_terminal ''reservation.expired'' ''expire'' ''expire'' (Service_Expire ?sv) msg w = (x, w')"
      by (simp add: onReservationExpired_def)
    from terminal_inv [OF this assms(3,4)] release_inv [OF _ assms(3,5,4)] show ?thesis
      unfolding Service_Expire_def by blast
  qed
qed

text \<open>The same for the deliveries of a consumer, one after the other.\<close>

lemma core_batch_inv:
  assumes "(subject, durable, handler) \<in> set (core_consumers (core_service ttl h v))" "holds_safe h"
    and "consume_batch handler ms w = (vs, w')" "tx w = NoTx" "core_inv (db w)"
  shows "keeps_books (db w) (db w') \<and> tx w' = NoTx"
  using assms(3-5)
proof (induction ms arbitrary: w vs)
  case Nil
  then show ?case by (simp add: keeps_books_def)
next
  case (Cons m ms)
  obtain y w1 where y: "handler (js_message m) w = (y, w1)" by fastforce
  then obtain u where u: "js_handle handler m w = (u, w1)"
    by (cases y) (auto simp: js_handle_def)
  from Cons.prems(1) u obtain us where us: "consume_batch handler ms w1 = (us, w')"
    by (auto split: prod.splits)
  note one = core_consumer_inv [OF assms(1) y Cons.prems(2,3) assms(2)]
  then have "core_inv (db w1)" "tx w1 = NoTx" by (simp_all add: keeps_books_def)
  from Cons.IH [OF us this(2,1)] one keeps_books_trans show ?case by metis
qed

section \<open>Round trips of the payloads the core consumes\<close>

lemma decode_reserve_object:
  "int64 n \<Longrightarrow> decode_reserve (Some (JObj [(''reservation_id'', JStr i), (''event_id'', JStr ev),
     (''user_id'', JStr u), (''quantity'', JInt n)]))
   = Inr \<lparr>rc_reservation_id = i, rc_event_id = ev, rc_user_id = u, rc_quantity = n\<rparr>"
  by (simp add: decode_reserve_def unmarshal_def field_defs equal_fold_def to_lower_def)

end
