(* ===== verification/Chrono.thy ===== *)
theory Chrono
  imports Core_Subscribers Broker "HOL-Library.Sublist"
begin

text \<open>
  \<open>internal/chrono\<close>: the sweeper that publishes \<open>reservation.expired\<close> for every PENDING reservation
  whose window has elapsed.  \<open>adapter/postgres/source.go\<close> reads the reservations table of the core,
  skipping the rows that other transactions have locked; the broker deduplicates by the stable id of
  the event; hold keys are cleaned up after the batch.
\<close>

section \<open>The source\<close>

record expired_reservation =
  x_reservation_id :: string
  x_event_id :: string
  x_user_id :: string
  x_quantity :: int

definition expired_of :: "reservation \<Rightarrow> expired_reservation" where
  "expired_of r = \<lparr>x_reservation_id = r_id r, x_event_id = r_event_id r, x_user_id = r_user_id r,
     x_quantity = r_quantity r\<rparr>"

text \<open>
  \<open>SKIP LOCKED\<close> passes over the rows another transaction holds (\<open>locked\<close>); \<open>now()\<close> has microseconds.
\<close>

definition overdue :: "instant \<Rightarrow> (reservation \<Rightarrow> bool) \<Rightarrow> core_db \<Rightarrow> reservation list" where
  "overdue now locked d =
     filter (\<lambda>r. r_status r = PENDING \<and> r_expires_at r < timestamptz now \<and> \<not> locked r) (t_reservations d)"

text \<open>\<open>ORDER BY expires_at LIMIT n\<close>; \<open>tie\<close> orders the rows of one deadline, which PostgreSQL leaves open.\<close>

type_synonym expiry_ties = "reservation list \<Rightarrow> reservation \<Rightarrow> nat"

definition expired_batch ::
  "instant \<Rightarrow> (reservation \<Rightarrow> bool) \<Rightarrow> expiry_ties \<Rightarrow> int \<Rightarrow> core_db \<Rightarrow> reservation list" where
  "expired_batch now locked tie limit d =
     take (nat limit) (sort_key r_expires_at (sort_key (tie (t_reservations d)) (overdue now locked d)))"

definition FindExpired ::
  "(reservation \<Rightarrow> bool) \<Rightarrow> expiry_ties \<Rightarrow> int \<Rightarrow> ('m core_world, expired_reservation list) op" where
  "FindExpired locked tie limit =
     WithinTx (stmt (\<lambda>now d.
       if limit < 0 then (Inl (PgError ''2201W''), d)
       else (Inr (map expired_of (expired_batch now locked tie limit d)), d)))"

text \<open>
  The age of the oldest PENDING reservation.  \<open>max(now() - created_at)\<close> is exact in microseconds;
  its way through \<open>float64\<close> seconds back to a duration is the parameter \<open>via_float\<close>.
\<close>

definition pending_ages :: "instant \<Rightarrow> core_db \<Rightarrow> duration list" where
  "pending_ages now d =
     map (\<lambda>r. timestamptz now - r_created_at r) (filter (\<lambda>r. r_status r = PENDING) (t_reservations d))"

definition MaxPendingAge :: "(duration \<Rightarrow> duration) \<Rightarrow> 'm core_world \<Rightarrow> (duration \<times> bool) \<times> 'm core_world" where
  "MaxPendingAge via_float w =
     (case stmt (\<lambda>now d. (Inr (if pending_ages now d = [] then 0 else Max (set (pending_ages now d))), d)) w of
        (Inl e, w') \<Rightarrow> ((0, False), w')
      | (Inr age, w') \<Rightarrow> ((via_float age, True), w'))"

section \<open>The sweeper\<close>

text \<open>The pending age is an optional capability of the source.\<close>

record 'm reservation_source =
  rsrc_FindExpired :: "int \<Rightarrow> ('m world_scheme, expired_reservation list) op"
  rsrc_MaxPendingAge :: "('m world_scheme \<Rightarrow> (duration \<times> bool) \<times> 'm world_scheme) option"

record 'm sweeper =
  sw_finder :: "'m reservation_source option"
  sw_bus :: "(message \<Rightarrow> ('m world_scheme, unit) op) option"
  sw_holds :: "(string \<Rightarrow> ('m world_scheme, unit) op) option"
  sw_interval :: duration
  sw_batch :: int

definition NewSweeper ::
  "'m reservation_source option \<Rightarrow> (message \<Rightarrow> ('m world_scheme, unit) op) option \<Rightarrow>
     (string \<Rightarrow> ('m world_scheme, unit) op) option \<Rightarrow> duration \<Rightarrow> int \<Rightarrow> 'm sweeper" where
  "NewSweeper finder bus holds interval batchSize =
     \<lparr>sw_finder = finder, sw_bus = bus, sw_holds = holds, sw_interval = interval, sw_batch = batchSize\<rparr>"

definition ReservationExpiredPayload :: "expired_reservation \<Rightarrow> instant \<Rightarrow> err + json" where
  "ReservationExpiredPayload e now =
     (case enc_time now of
        Inl err \<Rightarrow> Inl err
      | Inr t \<Rightarrow> Inr (JObj [(''reservation_id'', JStr (x_reservation_id e)), (''event_id'', JStr (x_event_id e)),
          (''user_id'', JStr (x_user_id e)), (''quantity'', JInt (x_quantity e)), (''expired_at'', t)]))"

definition expired_message :: "expired_reservation \<Rightarrow> json \<Rightarrow> message" where
  "expired_message e payload =
     \<lparr>m_id = x_reservation_id e @ ''-expired'', m_subject = SubjectReservationExpired,
      m_payload = Some payload, m_headers = [''Correlation-Id'' \<mapsto> x_reservation_id e]\<rparr>"

text \<open>The publishing loop: the number of events published, and the error that stopped it.\<close>

fun publish_expired ::
  "(message \<Rightarrow> ('s, unit) op) \<Rightarrow> instant \<Rightarrow> expired_reservation list \<Rightarrow> int \<Rightarrow> 's \<Rightarrow> (int \<times> err option) \<times> 's" where
  "publish_expired pub now [] published s = ((published, None), s)"
| "publish_expired pub now (e # es) published s =
     (case ReservationExpiredPayload e now of
        Inl err \<Rightarrow> ((0, Some err), s)
      | Inr payload \<Rightarrow>
          (case pub (expired_message e payload) s of
             (Inl err, s') \<Rightarrow> ((published, Some err), s')
           | (Inr _, s') \<Rightarrow> publish_expired pub now es (published + 1) s'))"

fun clean_holds :: "(string \<Rightarrow> ('s, unit) op) \<Rightarrow> expired_reservation list \<Rightarrow> 's \<Rightarrow> 's" where
  "clean_holds del [] s = s"
| "clean_holds del (e # es) s = clean_holds del es (snd (del (x_reservation_id e) s))"

definition chrono_sweep :: "'m sweeper \<Rightarrow> 'm world_scheme \<Rightarrow> (int \<times> err option) \<times> 'm world_scheme" where
  "chrono_sweep sw w =
     (case (sw_finder sw, sw_bus sw) of
        (Some finder, Some pub) \<Rightarrow>
          (case rsrc_FindExpired finder (sw_batch sw) w of
             (Inl e, w1) \<Rightarrow> ((0, Some e), w1)
           | (Inr expired, w1) \<Rightarrow>
               (case publish_expired pub (wall w1) expired 0 w1 of
                  ((published, Some e), w2) \<Rightarrow> ((published, Some e), w2)
                | ((published, None), w2) \<Rightarrow>
                    ((published, None),
                     case sw_holds sw of None \<Rightarrow> w2 | Some del \<Rightarrow> clean_holds del expired w2)))
      | _ \<Rightarrow> ((0, None), w))"

text \<open>The gauge is recorded in nanoseconds here.\<close>

definition recordPendingAge :: "'m sweeper \<Rightarrow> 'm world_scheme \<Rightarrow> 'm world_scheme" where
  "recordPendingAge sw w =
     (case sw_finder sw of
        None \<Rightarrow> w
      | Some finder \<Rightarrow>
          (case rsrc_MaxPendingAge finder of
             None \<Rightarrow> w
           | Some ages \<Rightarrow>
               (case ages w of ((age, found), w1) \<Rightarrow>
                  if found then count [''pulsar_chrono_pending_max_age_seconds'', itoa age] w1 else w1)))"

definition recordSweepOutcome :: "err option \<Rightarrow> int \<Rightarrow> 'm world_scheme \<Rightarrow> 'm world_scheme" where
  "recordSweepOutcome sweepErr expired w =
     (let w1 = count [''pulsar_chrono_sweeps_total'', if sweepErr = None then ''ok'' else ''error''] w in
      if 0 < expired then count [''pulsar_chrono_reservations_expired_total'', itoa expired] w1 else w1)"

definition chrono_tick :: "'m sweeper \<Rightarrow> 'm world_scheme \<Rightarrow> 'm world_scheme" where
  "chrono_tick sw w =
     (case chrono_sweep sw (recordPendingAge sw w) of ((expired, e), w') \<Rightarrow> recordSweepOutcome e expired w')"

text \<open>\<open>Run\<close> for a number of ticks; \<open>time.NewTicker\<close> panics for an interval that is not positive.\<close>

definition chrono_Run :: "'m sweeper \<Rightarrow> nat \<Rightarrow> 'm world_scheme \<Rightarrow> 'm world_scheme option" where
  "chrono_Run sw ticks w = (if sw_interval sw \<le> 0 then None else Some ((chrono_tick sw ^^ ticks) w))"

section \<open>What a sweep publishes\<close>

text \<open>A loop of publishes puts a subsequence of the batch's events on the log.\<close>

definition expired_sent :: "instant \<Rightarrow> expired_reservation \<Rightarrow> sent" where
  "expired_sent now e =
     (x_reservation_id e @ ''-expired'', SubjectReservationExpired,
      case ReservationExpiredPayload e now of Inl _ \<Rightarrow> None | Inr p \<Rightarrow> Some p)"

context publisher
begin

lemma publish_expired_effect:
  assumes "publish_expired pub now es published s = ((n, e), s')"
  shows "kept s' = kept s \<and> (\<exists>new. accepted s' = accepted s @ new \<and> subseq new (map (expired_sent now) es))
    \<and> (e = None \<longrightarrow> n = published + int (length es)
        \<and> (\<lambda>x. x_reservation_id x @ ''-expired'') ` set es \<subseteq> fst ` set (accepted s'))"
  using assms
proof (induction es arbitrary: published s)
  case Nil
  then show ?case by auto
next
  case (Cons x es)
  show ?case
  proof (cases "ReservationExpiredPayload x now")
    case (Inl err)
    with Cons.prems show ?thesis by auto
  next
    case (Inr p)
    obtain y s1 where y: "pub (expired_message x p) s = (y, s1)" by fastforce
    have m: "sent_of (expired_message x p) = expired_sent now x" "m_id (expired_message x p) = x_reservation_id x @ ''-expired''"
      using Inr by (simp_all add: sent_of_def expired_message_def expired_sent_def)
    from pub_grows [OF y] obtain new1 where n1: "accepted s1 = accepted s @ new1" by auto
    have sub1: "subseq new1 [expired_sent now x]"
      using y pub_ok [of "expired_message x p" s _ s1] pub_err [of "expired_message x p" s _ s1] n1 m(1)
      by (cases y) auto
    show ?thesis
    proof (cases y)
      case (Inl err)
      with Cons.prems Inr y have s': "s' = s1" "e \<noteq> None" by auto
      have "subseq new1 (map (expired_sent now) (x # es))"
        using list_emb_append_mono [OF sub1, of "[]" "map (expired_sent now) es"] by simp
      with n1 pub_kept [OF y] s' show ?thesis by auto
    next
      case (Inr u)
      with Cons.prems \<open>ReservationExpiredPayload x now = Inr p\<close> y
      have "publish_expired pub now es (published + 1) s1 = ((n, e), s')" by simp
      note ih = Cons.IH [OF this]
      then have k: "kept s' = kept s" using pub_kept [OF y] by simp
      from ih obtain new where nn: "accepted s' = accepted s1 @ new" "subseq new (map (expired_sent now) es)" by blast
      have "accepted s' = accepted s @ (new1 @ new)" using n1 nn by simp
      moreover have "subseq (new1 @ new) (map (expired_sent now) (x # es))"
        using list_emb_append_mono [OF sub1 nn(2)] by simp
      moreover have "x_reservation_id x @ ''-expired'' \<in> fst ` set (accepted s')"
        using pub_accepted [of "expired_message x p" s u s1] y Inr m(2) nn(1) by auto
      ultimately show ?thesis using ih k by auto
    qed
  qed
qed

end

end
