(* ===== verification/Chrono_System.thy ===== *)
theory Chrono_System
  imports Chrono Horizon
begin

text \<open>
  The sweeper over PostgreSQL and JetStream, and what follows for the seats: a sweep under any failure,
  a sweep on working connections, and the core's consumer of \<open>reservation.expired\<close> taking the stream
  the sweep has filled.  Together they give every overdue seat back.
\<close>

section \<open>The wiring of the service\<close>

definition pg_source ::
  "(reservation \<Rightarrow> bool) \<Rightarrow> expiry_ties \<Rightarrow> (duration \<Rightarrow> duration) \<Rightarrow> (core_db, 'm) pg_world_ext reservation_source" where
  "pg_source locked tie via_float =
     \<lparr>rsrc_FindExpired = FindExpired locked tie, rsrc_MaxPendingAge = Some (MaxPendingAge via_float)\<rparr>"

definition pg_sweeper ::
  "(headers \<Rightarrow> headers) \<Rightarrow> (reservation \<Rightarrow> bool) \<Rightarrow> expiry_ties \<Rightarrow> (duration \<Rightarrow> duration) \<Rightarrow>
     (string \<Rightarrow> (broker core_world, unit) op) option \<Rightarrow> duration \<Rightarrow> int \<Rightarrow> (core_db, broker) pg_world_ext sweeper" where
  "pg_sweeper inject locked tie via_float holds interval n =
     NewSweeper (Some (pg_source locked tie via_float)) (Some (br_pub inject)) holds interval n"

text \<open>The publisher of the sweeper leaves everything but the broker alone.\<close>

interpretation chr: nats_server "br_send pg_world.more pg_world.more_update" "\<lambda>s. br_log (pg_world.more s)"
  "\<lambda>s :: broker core_world. (db s, tx s)"
proof unfold_locales
  show "br_send pg_world.more pg_world.more_update nm s = (Inr u, s') \<Longrightarrow>
      br_log (pg_world.more s') = br_log (pg_world.more s) @ [nm] \<or> (br_log (pg_world.more s') = br_log (pg_world.more s)
      \<and> (\<exists>old\<in>set (br_log (pg_world.more s)). hdr (n_header old) NatsMsgId = hdr (n_header nm) NatsMsgId))"
    for nm u and s s' :: "broker core_world" by (rule nats.send_ok)
  show "br_send pg_world.more pg_world.more_update nm s = (Inl e, s') \<Longrightarrow>
      br_log (pg_world.more s') = br_log (pg_world.more s) \<or> br_log (pg_world.more s') = br_log (pg_world.more s) @ [nm]"
    for nm e and s s' :: "broker core_world" by (rule nats.send_err)
  show "br_send pg_world.more pg_world.more_update nm s = (x, s') \<Longrightarrow> (db s', tx s') = (db s, tx s)"
    for nm x and s s' :: "broker core_world"
    by (rule br_send_frame [where kept = "\<lambda>s. (db s, tx s)" and get = pg_world.more
        and upd = pg_world.more_update and nm = nm and x = x]) simp_all
qed

section \<open>A sweep, whatever fails\<close>

lemma FindExpired_effect:
  assumes "FindExpired locked tie n w = (x, w')" "tx w = NoTx"
  shows "db w' = db w \<and> tx w' = NoTx \<and> wall w' = wall w \<and> pg_world.more w' = pg_world.more w
    \<and> (\<forall>es. x = Inr es \<longrightarrow> es = map expired_of (expired_batch (pg_clock w) locked tie n (db w)))"
proof -
  let ?f = "\<lambda>now d. if n < 0 then (Inl (PgError ''2201W''), d)
       else (Inr (map expired_of (expired_batch now locked tie n d)), d)"
  have run: "WithinTx (stmt ?f) w = (x, w')" using assms(1) by (simp add: FindExpired_def)
  have body: "d' = d \<and> (\<forall>es. y = Inr es \<longrightarrow> es = map expired_of (expired_batch now locked tie n d))"
    if "?f now d = (y, d')" for now d y d' using that by (auto split: if_splits)
  have read: "w2 = w1\<lparr>faults := tl (faults w1)\<rparr> \<and> a = map expired_of (expired_batch (pg_clock w1) locked tie n (db w1))"
    if "stmt ?f w1 = (Inr a, w2)" for w1 w2 :: "'a core_world" and a
  proof -
    from that obtain d where d: "?f (pg_clock w1) (db w1) = (Inr a, d)"
      "w2 = w1\<lparr>faults := tl (faults w1), db := d\<rparr>" by (rule stmt_Inr)
    from body [OF d(1)] d(2) show ?thesis by (cases w1) auto
  qed
  note out = WithinTx_outcomes [OF run assms(2) stmt_tx_body]
  from out(2) have "db w' = db w \<and> (\<forall>es. x = Inr es \<longrightarrow>
      es = map expired_of (expired_batch (pg_clock w) locked tie n (db w)))"
    by (elim disjE exE conjE) (auto dest!: read)
  moreover have "wall w' = wall w"
    by (rule WithinTx_keeps [where g = wall, OF run]) (simp_all add: stmt_frame)
  moreover have "pg_world.more w' = pg_world.more w"
    by (rule WithinTx_more [OF run]) (rule stmt_frame(6))
  ultimately show ?thesis using out(1) by simp
qed

text \<open>A hold cleaner that leaves the tables and the broker alone.\<close>

definition cleaner_safe :: "(string \<Rightarrow> (broker core_world, unit) op) option \<Rightarrow> bool" where
  "cleaner_safe holds \<longleftrightarrow> (\<forall>del i w x w'. holds = Some del \<longrightarrow> del i w = (x, w') \<longrightarrow>
     db w' = db w \<and> tx w' = tx w \<and> pg_world.more w' = pg_world.more w)"

lemma clean_holds_safe:
  assumes "cleaner_safe (Some del)"
  shows "db (clean_holds del es w) = db w \<and> tx (clean_holds del es w) = tx w
    \<and> pg_world.more (clean_holds del es w) = pg_world.more w"
proof (induction es arbitrary: w)
  case (Cons e es)
  obtain x w1 where "del (x_reservation_id e) w = (x, w1)" by fastforce
  with assms Cons.IH [of w1] show ?case by (auto simp: cleaner_safe_def)
qed simp

lemma chrono_sweep_effect:
  assumes run: "chrono_sweep (pg_sweeper inject locked tie via_float holds i n) w = ((k, e), w')"
    and "tx w = NoTx" "cleaner_safe holds"
  defines "B \<equiv> map expired_of (expired_batch (pg_clock w) locked tie n (db w))"
  shows "db w' = db w \<and> tx w' = NoTx \<and> (\<exists>new. br_sent w' = br_sent w @ new
    \<and> subseq new (map (expired_sent (wall w)) B)
    \<and> (e = None \<longrightarrow> k = int (length B)
        \<and> (\<lambda>x. x_reservation_id x @ ''-expired'') ` set B \<subseteq> fst ` set (br_sent w')))"
proof -
  obtain x w1 where f: "FindExpired locked tie n w = (x, w1)" by fastforce
  note eff = FindExpired_effect [OF f assms(2)]
  show ?thesis
  proof (cases x)
    case (Inl er)
    with run f have "w' = w1" "e \<noteq> None"
      by (auto simp: chrono_sweep_def pg_sweeper_def NewSweeper_def pg_source_def)
    with eff show ?thesis by auto
  next
    case (Inr es)
    with eff have es: "es = B" by (simp add: B_def)
    obtain m e2 w2 where p: "publish_expired (br_pub inject) (wall w1) B 0 w1 = ((m, e2), w2)"
      by (metis surj_pair)
    let ?w3 = "case holds of None \<Rightarrow> w2 | Some del \<Rightarrow> clean_holds del B w2"
    have "k = m \<and> e = e2 \<and> w' = (case e of None \<Rightarrow> ?w3 | Some _ \<Rightarrow> w2)"
      using run f Inr es p
      by (cases e2) (auto simp: chrono_sweep_def pg_sweeper_def NewSweeper_def pg_source_def)
    moreover have "db ?w3 = db w2 \<and> tx ?w3 = tx w2 \<and> pg_world.more ?w3 = pg_world.more w2"
      using assms(3) clean_holds_safe by (auto split: option.splits)
    ultimately have ke: "k = m" "e = e2" and w': "db w' = db w2" "tx w' = tx w2" "pg_world.more w' = pg_world.more w2"
      by (auto split: option.splits)
    from chr.js.publish_expired_effect [OF p] eff show ?thesis
      unfolding ke w' by (auto simp: assms(2))
  qed
qed

section \<open>A sweep on working connections\<close>

lemma publish_expired_run:
  assumes "br_script (pg_world.more w) = []" "enc_time now = Inr t"
  shows "\<exists>f. publish_expired (br_pub inject) now es k w = ((k + int (length es), None), pg_world.more_update f w)
    \<and> br_script (f (pg_world.more w)) = []"
  using assms(1)
proof (induction es arbitrary: k w)
  case Nil
  have "pg_world.more_update (\<lambda>b. b) w = w" by (cases w) simp
  with Nil show ?case by (intro exI [of _ "\<lambda>b. b"]) simp
next
  case (Cons e es)
  obtain p where p: "ReservationExpiredPayload e now = Inr p"
    using assms(2) by (simp add: ReservationExpiredPayload_def)
  let ?w1 = "pg_world.more_update (br_store (js_wire inject (expired_message e p))) w"
  from Cons.prems have "br_script (pg_world.more ?w1) = []" by simp
  from Cons.IH [OF this, of "k + 1"] obtain f where
    "publish_expired (br_pub inject) now es (k + 1) ?w1 = ((k + 1 + int (length es), None), pg_world.more_update f ?w1)"
    "br_script (f (pg_world.more ?w1)) = []" by blast
  with Cons.prems p show ?case
    by (intro exI [of _ "f \<circ> br_store (js_wire inject (expired_message e p))"]) (simp add: br_pub_run comp_def add_ac)
qed

lemma chrono_sweep_run:
  assumes "faults w = []" "tx w = NoTx" "br_script (pg_world.more w) = []" "enc_time (wall w) = Inr t" "0 \<le> n"
  shows "\<exists>f. chrono_sweep (pg_sweeper inject locked tie via_float None i n) w
    = ((int (length (expired_batch (pg_clock w) locked tie n (db w))), None), pg_world.more_update f w)"
proof -
  have f: "FindExpired locked tie n w = (Inr (map expired_of (expired_batch (pg_clock w) locked tie n (db w))), w)"
    unfolding FindExpired_def
    by (rule in_tx_same [OF assms(1,2)], rule stmt_read) (use assms in \<open>simp_all add: healthy_def not_less\<close>)
  from publish_expired_run [OF assms(3,4)] obtain g where
    "publish_expired (br_pub inject) (wall w) (map expired_of (expired_batch (pg_clock w) locked tie n (db w))) 0 w
      = ((0 + int (length (map expired_of (expired_batch (pg_clock w) locked tie n (db w)))), None), pg_world.more_update g w)"
    by blast
  with f show ?thesis
    by (auto simp: chrono_sweep_def pg_sweeper_def NewSweeper_def pg_source_def)
qed

section \<open>The stream of expirations\<close>

text \<open>
  What the stream holds about expirations: under the id of one is the event of that reservation, and
  every event of the subject names a reservation.
\<close>

definition expired_log :: "sent list \<Rightarrow> bool" where
  "expired_log log \<longleftrightarrow> (\<forall>(k, s, p)\<in>set log.
     (\<forall>i. k = i @ ''-expired'' \<longrightarrow> s = SubjectReservationExpired \<and> reservationRef p = Inr i)
     \<and> (s = SubjectReservationExpired \<longrightarrow> (\<exists>i. uuid_in i = Some i \<and> reservationRef p = Inr i)))"

lemma reservationRef_expired:
  "ReservationExpiredPayload e now = Inr p \<Longrightarrow> reservationRef (Some p) = Inr (x_reservation_id e)"
  by (auto simp: ReservationExpiredPayload_def reservationRef_def field_defs equal_fold_def to_lower_def
      split: sum.splits)

lemma expired_log_grows:
  assumes "expired_log log" "enc_time now = Inr t" "set new \<subseteq> expired_sent now ` set es"
    and "\<And>e. e \<in> set es \<Longrightarrow> uuid_in (x_reservation_id e) = Some (x_reservation_id e)"
  shows "expired_log (log @ new)"
proof -
  have "expired_log [expired_sent now e]" if "e \<in> set es" for e
  proof -
    obtain p where p: "ReservationExpiredPayload e now = Inr p"
      using assms(2) by (simp add: ReservationExpiredPayload_def)
    with reservationRef_expired [OF p] assms(4) [OF that] show ?thesis
      by (simp add: expired_log_def expired_sent_def)
  qed
  with assms(3) have "expired_log new" by (fastforce simp: expired_log_def)
  with assms(1) show ?thesis by (simp add: expired_log_def ball_Un)
qed

text \<open>The overdue reservations of the tables, as the clock of the core sees them.\<close>

definition due :: "instant \<Rightarrow> core_db \<Rightarrow> reservation set" where
  "due now d = {r \<in> set (t_reservations d). r_status r = PENDING \<and> r_expires_at r < now}"

definition young :: "core_db \<Rightarrow> bool" where
  "young d \<longleftrightarrow> (\<forall>r\<in>set (t_reservations d). r_status r = PENDING \<longrightarrow> r_version r < 2147483647)"

text \<open>The next identifiers of the process are new and differ.\<close>

definition uid_at :: "'m world_scheme \<Rightarrow> nat \<Rightarrow> string" where
  "uid_at w k = fst (uid_New (w\<lparr>rng_pos := rng_pos w + 16 * k\<rparr>))"

definition id_supply :: "'m core_world \<Rightarrow> nat \<Rightarrow> bool" where
  "id_supply w n \<longleftrightarrow> distinct (map (uid_at w) [0..<n]) \<and> (\<forall>k<n. uid_at w k \<notin> o_id ` set (t_outbox (db w)))"

lemma supply_fresh: "id_supply w (Suc n) \<Longrightarrow> fresh_id (db w) w"
  by (auto simp: id_supply_def fresh_id_def uid_at_def uid_New_def)

lemma supply_mono: "id_supply w n \<Longrightarrow> m \<le> n \<Longrightarrow> id_supply w m"
  by (auto simp: id_supply_def distinct_map intro: inj_on_subset)

lemma supply_next:
  assumes "id_supply w (Suc n)" "gains w d"
  shows "id_supply (w\<lparr>rng_pos := rng_pos w + 16, db := d\<rparr>) n"
proof -
  have at: "uid_at (w\<lparr>rng_pos := rng_pos w + 16, db := d\<rparr>) = (\<lambda>k. uid_at w (Suc k))"
    by (simp add: fun_eq_iff uid_at_def uid_New_def add_ac)
  have new: "fst (uid_New w) = uid_at w 0" by (simp add: uid_at_def uid_New_def)
  have inj: "inj_on (uid_at w) {0..<Suc n}"
    using assms(1) unfolding id_supply_def distinct_map by (simp only: set_upt)
  have "distinct (map (\<lambda>k. uid_at w (Suc k)) [0..<n])"
    using inj by (auto simp: distinct_map intro!: inj_onI dest!: inj_onD [OF inj])
  moreover have "uid_at w (Suc k) \<noteq> uid_at w 0" if "k < n" for k
    using that by (auto dest!: inj_onD [OF inj])
  ultimately show ?thesis
    using assms by (auto simp: id_supply_def at gains_def new)
qed

text \<open>What follows does not depend on the counters.\<close>

lemma supply_count [simp]: "id_supply (count c w) n = id_supply w n"
proof -
  have "uid_at (count c w) = uid_at w" by (simp add: fun_eq_iff uid_at_def uid_New_def count_def)
  then show ?thesis by (simp add: id_supply_def)
qed

lemma supply_broker [simp]: "id_supply (pg_world.more_update f w) n = id_supply w n"
proof -
  have "uid_at (pg_world.more_update f w) = uid_at w" by (simp add: fun_eq_iff uid_at_def uid_New_def)
  then show ?thesis by (simp add: id_supply_def)
qed

text \<open>
  What expirations do to the tables: in every place of the table the reservation is as it was, or it was
  overdue and is its copy with status EXPIRED; the events keep their ids, capacities and sales.
\<close>

definition expired_copy :: "reservation \<Rightarrow> reservation \<Rightarrow> bool" where
  "expired_copy r r' \<longleftrightarrow> r_status r' = EXPIRED \<and> r_id r' = r_id r \<and> r_event_id r' = r_event_id r
     \<and> r_user_id r' = r_user_id r \<and> r_quantity r' = r_quantity r \<and> r_expires_at r' = r_expires_at r"

definition past_due :: "instant \<Rightarrow> reservation \<Rightarrow> bool" where
  "past_due now r \<longleftrightarrow> r_status r = PENDING \<and> r_expires_at r < now"

definition expires :: "instant \<Rightarrow> core_db \<Rightarrow> core_db \<Rightarrow> bool" where
  "expires now d d' \<longleftrightarrow>
     list_all2 (\<lambda>r r'. r' = r \<or> past_due now r \<and> expired_copy r r') (t_reservations d) (t_reservations d')
   \<and> map e_id (t_events d') = map e_id (t_events d)"

lemma expires_refl: "expires now d d"
  by (simp add: expires_def list_all2_same)

lemma expires_trans:
  assumes "expires now d1 d2" "expires now d2 d3" shows "expires now d1 d3"
proof -
  let ?P = "\<lambda>r r'. r' = r \<or> past_due now r \<and> expired_copy r r'"
  have "list_all2 ?P (t_reservations d1) (t_reservations d3)"
    by (rule list_all2_trans [where ?P1.0 = ?P and ?P2.0 = ?P and bs = "t_reservations d2"])
      (use assms in \<open>auto simp: expires_def expired_copy_def past_due_def\<close>)
  with assms show ?thesis by (simp add: expires_def)
qed

lemma settlement_expires:
  assumes "wf_core d" "settles d EXPIRED e r b d'" "r_expires_at r < now"
  shows "expires now d d'"
proof -
  from assms(2) obtain t c u where
    d': "d' = settled ((moved_counts EXPIRED (r_quantity r) e)\<lparr>e_updated_at := t\<rparr>)
          (r\<lparr>r_status := EXPIRED, r_confirmed_at := c, r_version := r_version r + 1, r_updated_at := u\<rparr>) b d"
    and r: "r \<in> set (t_reservations d)" "r_status r = PENDING" and e: "find_event d (r_event_id r) = Some e"
    by (auto simp: settles_def)
  have "x = r" if "x \<in> set (t_reservations d)" "r_id x = r_id r" for x
    using assms(1) that r(1) by (auto simp: wf_core_def dest: distinct_key_eq)
  then have "list_all2 (\<lambda>r r'. r' = r \<or> past_due now r \<and> expired_copy r r') (t_reservations d) (t_reservations d')"
    using r(2) assms(3) unfolding d'
    by (auto simp: settled_def write_reservation_def list_all2_map2 list_all2_same past_due_def expired_copy_def)
  moreover have "map e_id (t_events d') = map e_id (t_events d)"
    unfolding d' by (simp add: settled_def write_reservation_def write_event_def moved_counts_def)
  ultimately show ?thesis by (simp add: expires_def)
qed

section \<open>The core takes the stream\<close>

text \<open>One delivery: the reservation it names is no longer overdue, and no other becomes so.\<close>

lemma expire_delivery:
  assumes w: "faults w = []" "tx w = NoTx" "core_inv (db w)" and new: "fresh_id (db w) w"
    and y: "young (db w)" and i: "uuid_in i = Some i"
  obtains x n d where "Service_Expire (core_service ttl None v) i w = (x, w\<lparr>rng_pos := rng_pos w + n, db := d\<rparr>)"
    "(n = 0 \<and> d = db w) \<or> (n = 16 \<and> gains w d)"
    "core_inv d" "young d" "due (wall w) d \<subseteq> {r \<in> due (wall w) (db w). r_id r \<noteq> i}" "expires (wall w) (db w) d"
proof -
  let ?sv = "core_service ttl None v"
  have same: "w\<lparr>rng_pos := rng_pos w + 0, db := db w\<rparr> = w" by (cases w) simp
  show thesis
  proof (cases "i \<in> r_id ` due (wall w) (db w)")
    case False
    have "\<exists>x. Service_Expire ?sv i w = (x, w)"
    proof (cases "find_reservation (db w) i")
      case None
      then have "releaseInTx ?sv i reasonExpired (w\<lparr>tx := InTx (db w)\<rparr>)
          = (Inl (Sentinel ErrNotFound), w\<lparr>tx := InTx (db w)\<rparr>)"
        using Get_run [of "w\<lparr>tx := InTx (db w)\<rparr>" i i] w i uuid_in_Nil
        by (auto simp: releaseInTx_def andThen_def load_def)
      from in_tx_fail [where fn = "releaseInTx ?sv i reasonExpired", OF w(1,2) this] show ?thesis
        by (simp add: Service_Expire_def release_def inTx_def andThen_def)
    next
      case (Some r)
      from find_reservation_Some [OF this] have r: "r \<in> set (t_reservations (db w))" "r_id r = i" by simp_all
      have ld: "load ?sv (r_id r) (w\<lparr>tx := InTx (db w)\<rparr>) = (Inr r, w\<lparr>tx := InTx (db w)\<rparr>)"
        using load_run [of "w\<lparr>tx := InTx (db w)\<rparr>" r ttl None v] w r(1) by simp
      have late: "wall w \<le> r_expires_at r" if "r_status r = PENDING"
        using False r that by (force simp: due_def)
      let ?w = "w\<lparr>tx := InTx (db w)\<rparr>"
      have "releaseInTx ?sv i reasonExpired ?w = release_loaded ?sv reasonExpired r ?w"
        using ld r(2) by (simp add: releaseInTx_def andThen_def)
      moreover have "\<exists>x. release_loaded ?sv reasonExpired r ?w = (x, ?w)"
      proof (cases "r_status r = PENDING")
        case True
        from late [OF True] True show ?thesis
          by (simp add: release_loaded_def reading_def SystemClock_Now_def Expire_def time_after_def)
      next
        case False
        then show ?thesis
          by (simp add: release_loaded_def reading_def Expire_def)
      qed
      ultimately have "\<exists>x. releaseInTx ?sv i reasonExpired ?w = (x, ?w)" by simp
      then obtain x where "releaseInTx ?sv i reasonExpired (w\<lparr>tx := InTx (db w)\<rparr>) = (x, w\<lparr>tx := InTx (db w)\<rparr>)" ..
      then have "WithinTx (releaseInTx ?sv i reasonExpired) w = (x, w)"
        by (cases x) (simp_all add: in_tx_fail [OF w(1,2)] in_tx_same [OF w(1,2)])
      then show ?thesis
        by (auto simp: Service_Expire_def release_def inTx_def andThen_def releaseHold_def split: sum.splits)
    qed
    then obtain x where "Service_Expire ?sv i w = (x, w)" ..
    with that [of x "db w" 0] same w(3) y False expires_refl show thesis by auto
  next
    case True
    then obtain r where r: "r \<in> set (t_reservations (db w))" "r_id r = i" "r_status r = PENDING" "r_expires_at r < wall w"
      by (auto simp: due_def)
    then have "r_version r < 2147483647" using y by (simp add: young_def)
    from release_progress [OF w new r(1,3) this, of reasonExpired ttl v] r(2,4) obtain res d where
      run: "Service_Expire ?sv i w = (Inr res, w\<lparr>rng_pos := rng_pos w + 16, db := d\<rparr>)" and g: "gains w d"
      by (auto simp: Service_Expire_def)
    have "d \<noteq> db w" using g new by (auto simp: gains_def fresh_id_def)
    moreover have wf: "wf_core (db w)" using w(3) by (simp add: core_inv_def)
    ultimately obtain e q b where st: "settles (db w) EXPIRED e q b d" and q: "uuid_in i = Some (r_id q)"
      using release_effect(2) [OF run [unfolded Service_Expire_def] w(2) _ wf] by (auto simp: holds_safe_def)
    then obtain t u c where d: "d = settled ((moved_counts EXPIRED (r_quantity q) e)\<lparr>e_updated_at := t\<rparr>)
          (q\<lparr>r_status := EXPIRED, r_confirmed_at := c, r_version := r_version q + 1, r_updated_at := u\<rparr>) b (db w)"
      and inq: "q \<in> set (t_reservations (db w))"
      by (auto simp: settles_def)
    from i q have qi: "r_id q = i" by simp
    have set': "set (t_reservations d) = insert (q\<lparr>r_status := EXPIRED, r_confirmed_at := c,
        r_version := r_version q + 1, r_updated_at := u\<rparr>) {x \<in> set (t_reservations (db w)). r_id x \<noteq> i}"
      unfolding d settled_def using set_write_reservation [of q "write_event _ (db w)"] inq qi by simp
    have "q = r" using qi r(1,2) inq wf by (auto simp: wf_core_def dest: distinct_key_eq)
    with settlement_expires [OF wf st] r(4) have ex: "expires (wall w) (db w) d" by simp
    have "young d" using y unfolding young_def set' by auto
    moreover have "due (wall w) d \<subseteq> {r \<in> due (wall w) (db w). r_id r \<noteq> i}"
      unfolding due_def set' by auto
    ultimately show thesis using that [OF run] g settlement_inv [OF w(3) st] ex by simp
  qed
qed


lemma consume_expirations:
  assumes "faults w = []" "tx w = NoTx" "core_inv (db w)" "young (db w)" "id_supply w (length ms)"
    and "\<And>m. m \<in> set ms \<Longrightarrow> \<exists>i. reservationRef (n_data m) = Inr i \<and> uuid_in i = Some i"
    and "consume_batch (onReservationExpired (core_service ttl None v)) ms w = (vs, w')"
  shows "core_inv (db w') \<and> expires (wall w) (db w) (db w') \<and> due (wall w) (db w')
    \<subseteq> {r \<in> due (wall w) (db w). \<forall>m\<in>set ms. reservationRef (n_data m) \<noteq> Inr (r_id r)}"
  using assms
proof (induction ms arbitrary: w vs)
  case Nil
  then show ?case by (simp add: expires_refl)
next
  case (Cons m ms)
  let ?sv = "core_service ttl None v"
  from Cons.prems(6) [of m] obtain i where i: "reservationRef (n_data m) = Inr i" "uuid_in i = Some i" by auto
  have sup: "id_supply w (Suc (length ms))" using Cons.prems(5) by simp
  obtain x n d where run: "Service_Expire ?sv i w = (x, w\<lparr>rng_pos := rng_pos w + n, db := d\<rparr>)"
    and n: "(n = 0 \<and> d = db w) \<or> (n = 16 \<and> gains w d)"
    and d: "core_inv d" "young d" "due (wall w) d \<subseteq> {r \<in> due (wall w) (db w). r_id r \<noteq> i}" "expires (wall w) (db w) d"
    by (rule expire_delivery [OF Cons.prems(1-3) supply_fresh [OF sup] Cons.prems(4) i(2), of ttl v])
  define w1 where "w1 = count (recordTerminalOutcome ''expire'' x) (w\<lparr>rng_pos := rng_pos w + n, db := d\<rparr>)"
  obtain y where y: "js_handle (onReservationExpired ?sv) m w = (y, w1)"
    using i(1) run
    by (cases x) (auto simp: js_handle_def js_message_def onReservationExpired_def on_terminal_def onResult_def w1_def)
  have "id_supply (w\<lparr>rng_pos := rng_pos w + n, db := d\<rparr>) (length ms)"
    using n supply_next [OF sup] supply_mono [OF sup] by auto
  then have w1: "faults w1 = []" "tx w1 = NoTx" "core_inv (db w1)" "young (db w1)" "id_supply w1 (length ms)"
    "wall w1 = wall w" "db w1 = d"
    using Cons.prems(1,2) d by (simp_all add: w1_def)
  obtain us where us: "consume_batch (onReservationExpired ?sv) ms w1 = (us, w')"
    using Cons.prems(7) y by (auto split: prod.splits)
  have "core_inv (db w') \<and> expires (wall w) d (db w') \<and> due (wall w) (db w')
      \<subseteq> {r \<in> due (wall w) d. \<forall>m\<in>set ms. reservationRef (n_data m) \<noteq> Inr (r_id r)}"
    using Cons.IH [OF w1(1-5) _ us] Cons.prems(6) unfolding w1(6,7) by (meson list.set_intros(2))
  then show ?case using d(3) i(1) expires_trans [OF d(4)] by auto
qed

text \<open>The messages the durable consumer \<open>core-reservation-expired\<close> is handed.\<close>

definition expirations :: "broker core_world \<Rightarrow> nats_msg list" where
  "expirations w = filter (\<lambda>m. n_subject m = SubjectReservationExpired) (br_log (pg_world.more w))"

lemma expirations_name:
  assumes "expired_log (br_sent w)" "m \<in> set (expirations w)"
  shows "\<exists>i. reservationRef (n_data m) = Inr i \<and> uuid_in i = Some i"
proof -
  from assms(2) have "wire_sent m \<in> set (br_sent w)" "n_subject m = SubjectReservationExpired"
    by (auto simp: expirations_def)
  with assms(1) show ?thesis unfolding expired_log_def by (fastforce simp: wire_sent_def)
qed

lemma expirations_find:
  assumes "expired_log (br_sent w)" "i @ ''-expired'' \<in> fst ` set (br_sent w)"
  shows "\<exists>m\<in>set (expirations w). reservationRef (n_data m) = Inr i"
proof -
  from assms(2) obtain m where m: "m \<in> set (br_log (pg_world.more w))" "fst (wire_sent m) = i @ ''-expired''"
    by auto
  then have "wire_sent m \<in> set (br_sent w)" by simp
  from bspec [OF assms(1) [unfolded expired_log_def] this] m(2)
  have "n_subject m = SubjectReservationExpired" "reservationRef (n_data m) = Inr i"
    by (simp_all add: wire_sent_def)
  with m(1) show ?thesis by (auto simp: expirations_def)
qed

text \<open>The batch of a sweep that is not cut short by its limit.\<close>

lemma expired_batch_all:
  "length (overdue now locked d) \<le> nat n \<Longrightarrow> set (expired_batch now locked tie n d) = set (overdue now locked d)"
  by (simp add: expired_batch_def)

lemma timestamptz_le: "timestamptz t \<le> t"
  unfolding timestamptz_def using div_mult_mod_eq [of t 1000] pos_mod_sign [of 1000 t] by linarith

text \<open>A sweep followed by the core's consumer.\<close>

lemma sweep_then_consume:
  assumes w: "faults w = []" "tx w = NoTx" "core_inv (db w)" "young (db w)"
    and br: "br_script (pg_world.more w) = []" "expired_log (br_sent w)"
    and t: "enc_time (wall w) = Inr t" "pg_clock w \<le> wall w"
    and n: "length (overdue (pg_clock w) (\<lambda>_. False) (db w)) \<le> nat n" "0 \<le> n"
    and run: "chrono_sweep (pg_sweeper inject (\<lambda>_. False) tie via_float None i n) w = (x, w1)"
    and ids: "id_supply w (length (expirations w1))"
    and consume: "consume_batch (onReservationExpired (core_service ttl None v)) (expirations w1) w1 = (vs, w2)"
  shows "overdue (pg_clock w) (\<lambda>_. False) (db w2) = [] \<and> core_inv (db w2) \<and> expired_log (br_sent w1)
    \<and> expires (wall w) (db w) (db w2)"
proof -
  let ?B = "expired_batch (pg_clock w) (\<lambda>_. False) tie n (db w)"
  from chrono_sweep_run [OF w(1,2) br(1) t(1) n(2), of inject "\<lambda>_. False" tie via_float i] run obtain f where
    x: "x = (int (length ?B), None)" and w1: "w1 = pg_world.more_update f w" by auto
  have "cleaner_safe None" by (simp add: cleaner_safe_def)
  note eff = chrono_sweep_effect [OF run [unfolded x] w(2) this, unfolded simp_thms]
  from eff obtain new where
    new: "br_sent w1 = br_sent w @ new" "subseq new (map (expired_sent (wall w)) (map expired_of ?B))"
    and log: "(\<lambda>x. x_reservation_id x @ ''-expired'') ` set (map expired_of ?B) \<subseteq> fst ` set (br_sent w1)"
    by blast
  have can: "uuid_in (x_reservation_id e) = Some (x_reservation_id e)" if "e \<in> set (map expired_of ?B)" for e
    using that w(3) expired_batch_all [OF n(1)]
    by (auto simp: expired_of_def overdue_def core_inv_def wf_core_def wf_reservation_def)
  have sub: "set new \<subseteq> expired_sent (wall w) ` set (map expired_of ?B)"
    using subseq_set [OF new(2)] by (simp only: set_map)
  have el: "expired_log (br_sent w1)"
    unfolding new(1) by (rule expired_log_grows [OF br(2) t(1) sub can])
  have w1': "faults w1 = []" "tx w1 = NoTx" "core_inv (db w1)" "young (db w1)" "wall w1 = wall w" "db w1 = db w"
    "id_supply w1 (length (expirations w1))"
    using w ids unfolding w1 by simp_all
  from consume_expirations [OF w1'(1-4,7) expirations_name [OF el] consume]
  have inv: "core_inv (db w2)" "expires (wall w) (db w) (db w2)" and left: "due (wall w) (db w2)
      \<subseteq> {r \<in> due (wall w) (db w). \<forall>m\<in>set (expirations w1). reservationRef (n_data m) \<noteq> Inr (r_id r)}"
    by (simp_all add: w1'(5,6))
  have "set (overdue (pg_clock w) (\<lambda>_. False) (db w2)) = {}"
  proof (rule equals0I)
    fix r
    assume r: "r \<in> set (overdue (pg_clock w) (\<lambda>_. False) (db w2))"
    have now: "timestamptz (pg_clock w) \<le> wall w" using timestamptz_le [of "pg_clock w"] t(2) by simp
    with r have "r \<in> due (wall w) (db w2)" by (auto simp: overdue_def due_def)
    with left have old: "r \<in> set (t_reservations (db w))" and un: "\<forall>m\<in>set (expirations w1). reservationRef (n_data m) \<noteq> Inr (r_id r)"
      by (auto simp: due_def)
    from r old have "r \<in> set ?B" unfolding expired_batch_all [OF n(1)] by (simp add: overdue_def)
    with log have "r_id r @ ''-expired'' \<in> fst ` set (br_sent w1)" by (force simp: expired_of_def)
    from expirations_find [OF el this] un show False by blast
  qed
  with inv el show ?thesis by simp
qed

section \<open>Which rows a sweep takes, and what comes back\<close>

lemma overdue_past_due:
  "overdue now locked d = filter (\<lambda>r. past_due (timestamptz now) r \<and> \<not> locked r) (t_reservations d)"
  by (simp add: overdue_def past_due_def conj_ac)

text \<open>The batch: as many rows as there are and the limit allows, the longest overdue first.\<close>

lemma sort_key_take_least:
  assumes "x \<in> set (take k (sort_key f xs))" "y \<in> set xs" "y \<notin> set (take k (sort_key f xs))"
  shows "f x \<le> f y"
proof -
  let ?s = "sort_key f xs"
  have "set ?s = set (take k ?s) \<union> set (drop k ?s)" by (metis append_take_drop_id set_append)
  with assms(2,3) have "y \<in> set (drop k ?s)" by auto
  moreover have "sorted (map f (take k ?s) @ map f (drop k ?s))"
    by (metis append_take_drop_id map_append sorted_sort_key)
  ultimately show ?thesis using assms(1) by (auto simp: sorted_append)
qed

lemma expired_batch_spec:
  shows "length (expired_batch now locked tie n d) = min (nat n) (length (overdue now locked d))"
    and "r \<in> set (expired_batch now locked tie n d) \<Longrightarrow> r \<in> set (overdue now locked d)"
    and "r \<in> set (expired_batch now locked tie n d) \<Longrightarrow> r' \<in> set (overdue now locked d) \<Longrightarrow>
      r' \<notin> set (expired_batch now locked tie n d) \<Longrightarrow> r_expires_at r \<le> r_expires_at r'"
  by (auto simp: expired_batch_def dest: in_set_takeD)
    (metis set_sort sort_key_take_least)

text \<open>Seats: pointwise sums over the table before and after.\<close>

lemma sum_list_all2:
  fixes f g h :: "'a \<Rightarrow> int"
  assumes "list_all2 P xs ys" "\<And>x y. x \<in> set xs \<Longrightarrow> P x y \<Longrightarrow> f y + g x \<le> h x"
  shows "sum_list (map f ys) + sum_list (map g xs) \<le> sum_list (map h xs)"
  using assms
proof (induction rule: list_all2_induct)
  case (Cons x xs y ys)
  have "f y + g x \<le> h x" using Cons.hyps(1) Cons.prems by simp
  moreover have "sum_list (map f ys) + sum_list (map g xs) \<le> sum_list (map h xs)"
    by (rule Cons.IH) (simp add: Cons.prems)
  ultimately show ?case by simp
qed simp

definition due_units :: "instant \<Rightarrow> core_db \<Rightarrow> string \<Rightarrow> int" where
  "due_units t d k = sum_list (map (\<lambda>r. if r_event_id r = k \<and> past_due t r then r_quantity r else 0) (t_reservations d))"

definition overdue_expired :: "instant \<Rightarrow> instant \<Rightarrow> core_db \<Rightarrow> core_db \<Rightarrow> bool" where
  "overdue_expired t now d d' \<longleftrightarrow>
     list_all2 (\<lambda>r r'. if past_due t r then expired_copy r r' else r' = r \<or> past_due now r \<and> expired_copy r r')
       (t_reservations d) (t_reservations d')"

lemma expires_overdue:
  assumes "expires now d d'" "\<forall>r\<in>set (t_reservations d'). \<not> past_due t r"
  shows "overdue_expired t now d d'"
  unfolding overdue_expired_def
  by (rule list.rel_mono_strong [where R = "\<lambda>r r'. r' = r \<or> past_due now r \<and> expired_copy r r'"])
    (use assms in \<open>auto simp: expires_def\<close>)

lemma overdue_expired_units:
  assumes "overdue_expired t now d d'" "\<forall>r\<in>set (t_reservations d). 0 \<le> r_quantity r"
  shows "units d' PENDING k + due_units t d k \<le> units d PENDING k" "units d' CONFIRMED k \<le> units d CONFIRMED k"
    "units d CONFIRMED k \<le> units d' CONFIRMED k"
proof -
  let ?P = "\<lambda>r r'. if past_due t r then expired_copy r r' else r' = r \<or> past_due now r \<and> expired_copy r r'"
  have rel: "list_all2 ?P (t_reservations d) (t_reservations d')" using assms(1) by (simp add: overdue_expired_def)
  have kinds: "(\<not> past_due t r \<and> r' = r) \<or> (r_status r = PENDING \<and> expired_copy r r')" if "?P r r'" for r r'
    using that by (auto simp: past_due_def split: if_splits)
  show "units d' PENDING k + due_units t d k \<le> units d PENDING k"
    unfolding units_def due_units_def
  proof (rule sum_list_all2 [OF rel])
    fix r r' assume "r \<in> set (t_reservations d)" "?P r r'"
    with kinds [OF this(2)] assms(2) show "(if r_event_id r' = k \<and> r_status r' = PENDING then r_quantity r' else 0)
        + (if r_event_id r = k \<and> past_due t r then r_quantity r else 0)
      \<le> (if r_event_id r = k \<and> r_status r = PENDING then r_quantity r else 0)"
      by (elim disjE conjE) (simp_all add: expired_copy_def)
  qed
  have same: "(if r_event_id r' = k \<and> r_status r' = CONFIRMED then r_quantity r' else 0)
      = (if r_event_id r = k \<and> r_status r = CONFIRMED then r_quantity r else 0)" if "?P r r'" for r r'
    using kinds [OF that] by (elim disjE conjE) (simp_all add: expired_copy_def)
  have "map (\<lambda>r. if r_event_id r = k \<and> r_status r = CONFIRMED then r_quantity r else 0) (t_reservations d')
      = map (\<lambda>r. if r_event_id r = k \<and> r_status r = CONFIRMED then r_quantity r else 0) (t_reservations d)"
    using rel by (induction rule: list_all2_induct) (simp_all only: list.map same)
  then show "units d' CONFIRMED k \<le> units d CONFIRMED k" "units d CONFIRMED k \<le> units d' CONFIRMED k"
    unfolding units_def by simp_all
qed

lemma seats_return:
  assumes "core_inv d" "core_inv d'" "map e_id (t_events d') = map e_id (t_events d)" "overdue_expired t now d d'"
    and e: "e \<in> set (t_events d)"
  shows "\<exists>e'\<in>set (t_events d'). e_id e' = e_id e \<and> e_sold_count e' = e_sold_count e
    \<and> e_reserved_count e' + due_units t d (e_id e) \<le> e_reserved_count e"
proof -
  have "e_id e \<in> e_id ` set (t_events d')" using e assms(3) by (metis image_eqI list.set_map)
  then obtain e' where e': "e' \<in> set (t_events d')" "e_id e' = e_id e" by auto
  have "\<forall>r\<in>set (t_reservations d). 0 \<le> r_quantity r"
    using assms(1) by (auto simp: core_inv_def wf_core_def wf_reservation_def row_valid_def)
  from overdue_expired_units [OF assms(4) this, of "e_id e"] assms(1,2) e e' show ?thesis
    by (auto simp: core_inv_def ledger_def balanced_def)
qed

text \<open>On working connections a sweep reports success, whatever its hold cleaner does.\<close>

lemma chrono_sweep_succeeds:
  assumes "faults w = []" "tx w = NoTx" "br_script (pg_world.more w) = []" "enc_time (wall w) = Inr t" "0 \<le> n"
    and "chrono_sweep (pg_sweeper inject locked tie via_float holds i n) w = ((k, e), w')"
  shows "e = None"
proof -
  let ?B = "map expired_of (expired_batch (pg_clock w) locked tie n (db w))"
  have f: "FindExpired locked tie n w = (Inr ?B, w)"
    unfolding FindExpired_def
    by (rule in_tx_same [OF assms(1,2)], rule stmt_read) (use assms in \<open>simp_all add: healthy_def not_less\<close>)
  from publish_expired_run [OF assms(3,4), of inject ?B 0] f assms(6) show ?thesis
    by (auto simp: chrono_sweep_def pg_sweeper_def NewSweeper_def pg_source_def)
qed

end
