(* ===== verification/Chrono_Properties.thy ===== *)
theory Chrono_Properties
  imports Chrono_System Core_Example
begin

text \<open>
  The properties of the expiry pipeline: what the sweeper announces, that the seats of overdue
  reservations come back, and that no message whatever makes the core lose its books.
\<close>

section \<open>A concrete state\<close>

text \<open>The window of the reservation of \<open>Core_Example\<close> elapsed a second ago; its broker is empty.\<close>

definition ox_now :: instant where "ox_now = ex_now + 901000000000"

definition ox_world :: "broker core_world" where
  "ox_world = \<lparr>wall = ox_now, rng = (\<lambda>_. 0), rng_pos = 0, meter = [], db = ex_held, pg_clock = ox_now,
     tx = NoTx, faults = [], \<dots> = \<lparr>br_log = [], br_old = 0, br_script = []\<rparr>\<rparr>"

lemma ox_world_simps [simp]:
  "db ox_world = ex_held" "tx ox_world = NoTx" "faults ox_world = []" "wall ox_world = ox_now"
  "pg_clock ox_world = ox_now" "pg_world.more ox_world = \<lparr>br_log = [], br_old = 0, br_script = []\<rparr>"
  by (simp_all add: ox_world_def)

lemma ox_overdue [simp]: "overdue ox_now (\<lambda>_. False) ex_held = [ex_reservation]"
  by (simp add: overdue_def ex_held_def) (simp add: ex_reservation_def timestamptz_def ox_now_def ex_now_def)

lemma ox_encodes: "\<exists>t. enc_time ox_now = Inr t"
proof -
  have "enc_time ox_now = Inr (JStr ''2025-06-15T15:21:41Z'')" by code_simp
  then show ?thesis by blast
qed

text \<open>C29: The sweeper announces the overdue reservations and nothing else.  Its batch is what the tables make
  it: as many of the reservations that are PENDING, past their window on the database's clock and not
  locked by another transaction as there are and the limit allows, the longest overdue first.  Whatever
  fails, a sweep leaves the tables alone and adds to the broker at most one message for each reservation of
  the batch, in order, under its stable id; a sweep that reports success has all of the batch there and
  counts it, and on working connections it does report success.\<close>

theorem sweep_announces_overdue:
  assumes "chrono_sweep (pg_sweeper inject locked tie via_float holds i n) w = ((k, e), w')"
    and "tx w = NoTx" "cleaner_safe holds"
  defines "late \<equiv> filter (\<lambda>r. r_status r = PENDING \<and> r_expires_at r < timestamptz (pg_clock w) \<and> \<not> locked r)
      (t_reservations (db w))"
    and "B \<equiv> expired_batch (pg_clock w) locked tie n (db w)"
  shows "set B \<subseteq> set late \<and> length B = min (nat n) (length late)
    \<and> (\<forall>r\<in>set B. \<forall>r'\<in>set late - set B. r_expires_at r \<le> r_expires_at r')
    \<and> db w' = db w \<and> (\<exists>new. br_sent w' = br_sent w @ new
        \<and> subseq new (map (\<lambda>r. expired_sent (wall w) (expired_of r)) B))
    \<and> (e = None \<longrightarrow> k = int (length B) \<and> (\<forall>r\<in>set B. r_id r @ ''-expired'' \<in> fst ` set (br_sent w')))
    \<and> (faults w = [] \<and> br_script (pg_world.more w) = [] \<and> 0 \<le> n \<and> enc_time (wall w) = Inr t \<longrightarrow> e = None)"
proof -
  have late: "late = overdue (pg_clock w) locked (db w)" by (simp add: late_def overdue_def)
  have comp: "map (expired_sent t) (map expired_of bs) = map (\<lambda>r. expired_sent t (expired_of r)) bs" for t bs
    by simp
  have ids: "(\<lambda>x. x_reservation_id x @ ''-expired'') ` set (map expired_of bs) = (\<lambda>r. r_id r @ ''-expired'') ` set bs" for bs
    by (simp add: image_image expired_of_def)
  note eff = chrono_sweep_effect [OF assms(1-3), unfolded comp ids length_map, folded B_def]
  have "set B \<subseteq> set late" "length B = min (nat n) (length late)"
      "\<forall>r\<in>set B. \<forall>r'\<in>set late - set B. r_expires_at r \<le> r_expires_at r'"
    using expired_batch_spec unfolding late B_def by blast+
  moreover have "e = None \<longrightarrow> (\<forall>r\<in>set B. r_id r @ ''-expired'' \<in> fst ` set (br_sent w'))" using eff by blast
  moreover have "faults w = [] \<and> br_script (pg_world.more w) = [] \<and> 0 \<le> n \<and> enc_time (wall w) = Inr t \<longrightarrow> e = None"
    using chrono_sweep_succeeds [OF _ assms(2) _ _ _ assms(1)] by blast
  ultimately show ?thesis using eff by blast
qed

theorem sweep_announces_overdue_witness:
  "\<exists>w'. chrono_sweep (pg_sweeper (\<lambda>h. h) (\<lambda>_. False) (\<lambda>_ _. 0) (\<lambda>d. d) None second 10) ox_world = ((1, None), w')
    \<and> db w' = ex_held \<and> ex_res_id @ ''-expired'' \<in> fst ` set (br_sent w')"
proof -
  obtain k e w' where run: "chrono_sweep (pg_sweeper (\<lambda>h. h) (\<lambda>_. False) (\<lambda>_ _. 0) (\<lambda>d. d) None second 10) ox_world
    = ((k, e), w')" by (metis surj_pair)
  have "cleaner_safe None" by (simp add: cleaner_safe_def)
  obtain t where "enc_time ox_now = Inr t" using ox_encodes by blast
  have batch: "expired_batch ox_now (\<lambda>_. False) (\<lambda>_ _. 0) 10 ex_held = [ex_reservation]"
    by (simp add: expired_batch_def)
  from sweep_announces_overdue [OF run _ \<open>cleaner_safe None\<close>, of t] \<open>enc_time ox_now = Inr t\<close>
  have "db w' = ex_held" "e = None" "k = 1" "r_id ex_reservation @ ''-expired'' \<in> fst ` set (br_sent w')"
    by (simp_all add: batch)
  with run show ?thesis by (auto simp: ex_reservation_def)
qed

text \<open>C30: No seat leaks.  On working connections, when the clock of the core is not behind the database's, take
  a sweep whose batch has room for the overdue reservations, and the core's consumer taking the stream.
  Then every reservation that was PENDING past its window on the database's clock has become EXPIRED; the
  others are as they were, or expired because the core's clock is past their window; and every event has
  at least the seats of the overdue reservations back, with its sales unchanged and its counters exact.\<close>

theorem overdue_seats_return:
  assumes "faults w = []" "tx w = NoTx" "core_inv (db w)" "young (db w)"
    and "br_script (pg_world.more w) = []" "expired_log (br_sent w)"
    and "enc_time (wall w) = Inr t" "pg_clock w \<le> wall w"
    and "length (overdue (pg_clock w) (\<lambda>_. False) (db w)) \<le> nat n" "0 \<le> n"
    and "chrono_sweep (pg_sweeper inject (\<lambda>_. False) tie via_float None i n) w = (x, w1)"
    and "id_supply w (length (expirations w1))"
    and "consume_batch (onReservationExpired (core_service ttl None v)) (expirations w1) w1 = (vs, w2)"
  shows "list_all2 (\<lambda>r r'.
        if r_status r = PENDING \<and> r_expires_at r < timestamptz (pg_clock w) then expired_copy r r'
        else r' = r \<or> (r_status r = PENDING \<and> r_expires_at r < wall w \<and> expired_copy r r'))
      (t_reservations (db w)) (t_reservations (db w2))
    \<and> (\<forall>e\<in>set (t_events (db w)). \<exists>e'\<in>set (t_events (db w2)). e_id e' = e_id e \<and> e_sold_count e' = e_sold_count e
        \<and> e_reserved_count e' + due_units (timestamptz (pg_clock w)) (db w) (e_id e) \<le> e_reserved_count e)
    \<and> (\<forall>e\<in>set (t_events (db w2)). e_reserved_count e = units (db w2) PENDING (e_id e)
         \<and> e_sold_count e = units (db w2) CONFIRMED (e_id e))"
proof -
  note out = sweep_then_consume [OF assms]
  then have inv: "core_inv (db w2)" and ex: "expires (wall w) (db w) (db w2)" by simp_all
  have "\<forall>r\<in>set (t_reservations (db w2)). \<not> past_due (timestamptz (pg_clock w)) r"
    using out by (auto simp: overdue_past_due filter_empty_conv)
  from expires_overdue [OF ex this] have od: "overdue_expired (timestamptz (pg_clock w)) (wall w) (db w) (db w2)" .
  have "map e_id (t_events (db w2)) = map e_id (t_events (db w))" using ex by (simp add: expires_def)
  from seats_return [OF assms(3) inv this od] have seats: "\<forall>e\<in>set (t_events (db w)). \<exists>e'\<in>set (t_events (db w2)).
      e_id e' = e_id e \<and> e_sold_count e' = e_sold_count e
      \<and> e_reserved_count e' + due_units (timestamptz (pg_clock w)) (db w) (e_id e) \<le> e_reserved_count e" by (intro ballI)
  have "\<forall>e\<in>set (t_events (db w2)). e_reserved_count e = units (db w2) PENDING (e_id e)
      \<and> e_sold_count e = units (db w2) CONFIRMED (e_id e)"
    using inv by (simp add: core_inv_def ledger_def balanced_def)
  with seats show ?thesis using od unfolding overdue_expired_def past_due_def conj_assoc by blast
qed

lemma ox_log: "expired_log []"
  by (simp add: expired_log_def)

lemma ox_young: "young ex_held"
  by (simp add: young_def ex_held_def ex_reservation_def)

lemma ox_supply: "n \<le> 1 \<Longrightarrow> id_supply ox_world n"
proof -
  have "uid_at ox_world 0 = ''00000000-0000-4000-8000-000000000000''"
    by (simp add: uid_at_def uid_New_def ox_world_def del: upt.simps) code_simp
  then have "id_supply ox_world (Suc 0)"
    by (simp add: id_supply_def ex_held_def ex_row_def ex_row_id_def)
  then show "n \<le> 1 \<Longrightarrow> id_supply ox_world n" by (rule supply_mono) simp
qed

theorem overdue_seats_return_witness:
  "\<exists>x w1 vs w2. chrono_sweep (pg_sweeper (\<lambda>h. h) (\<lambda>_. False) (\<lambda>_ _. 0) (\<lambda>d. d) None second 10) ox_world = (x, w1)
    \<and> consume_batch (onReservationExpired (core_service (15 * minute) None ex_valid)) (expirations w1) w1 = (vs, w2)
    \<and> (\<exists>r. t_reservations (db w2) = [r] \<and> r_id r = ex_res_id \<and> r_status r = EXPIRED)"
proof -
  obtain x w1 where sw: "chrono_sweep (pg_sweeper (\<lambda>h. h) (\<lambda>_. False) (\<lambda>_ _. 0) (\<lambda>d. d) None second 10) ox_world = (x, w1)"
    by fastforce
  obtain vs w2 where co: "consume_batch (onReservationExpired (core_service (15 * minute) None ex_valid)) (expirations w1) w1
    = (vs, w2)" by fastforce
  obtain k e where x: "x = (k, e)" by fastforce
  have "cleaner_safe None" by (simp add: cleaner_safe_def)
  from chrono_sweep_effect [OF sw [unfolded x] _ this] obtain new where
    "br_sent w1 = new"
    "subseq new (map (expired_sent ox_now) (map expired_of (expired_batch ox_now (\<lambda>_. False) (\<lambda>_ _. 0) 10 ex_held)))"
    by auto
  then have "length (br_sent w1) \<le> length (expired_batch ox_now (\<lambda>_. False) (\<lambda>_ _. 0) 10 ex_held)"
    by (metis list_emb_length length_map)
  then have "length (expirations w1) \<le> 1"
    using le_trans [OF length_filter_le [of "\<lambda>m. n_subject m = SubjectReservationExpired" "br_log (pg_world.more w1)"]]
    by (simp add: expirations_def expired_batch_def)
  note out = overdue_seats_return [OF _ _ _ _ _ _ _ _ _ _ sw ox_supply [OF this] co]
  obtain t where t: "enc_time ox_now = Inr t" using ox_encodes by blast
  have late: "r_status ex_reservation = PENDING" "r_expires_at ex_reservation < timestamptz ox_now"
    "r_id ex_reservation = ex_res_id" "t_reservations ex_held = [ex_reservation]"
    by (simp_all add: ex_reservation_def timestamptz_def ox_now_def ex_now_def ex_held_def)
  have "list_all2 (\<lambda>r r'. if r_status r = PENDING \<and> r_expires_at r < timestamptz ox_now then expired_copy r r'
      else r' = r \<or> (r_status r = PENDING \<and> r_expires_at r < wall ox_world \<and> expired_copy r r')) [ex_reservation] (t_reservations (db w2))"
    using conjunct1 [OF out [of t]] t ox_log ox_young ex_held_inv late(4) by (simp split del: if_split)
  then obtain r where "t_reservations (db w2) = [r]" "expired_copy ex_reservation r"
    using late(1,2) by (auto simp: list_all2_Cons1)
  with sw co late(3) show ?thesis by (auto simp: expired_copy_def)
qed

text \<open>C31: No message makes the core lose its books.  Whatever messages a consumer of the core is handed -
  well formed or not, repeated, out of order - and whatever fails, the tables keep the invariant, and
  a reservation that is CONFIRMED, EXPIRED, FAILED or CANCELLED stays exactly as it is.\<close>

theorem consumers_keep_books:
  assumes "(subject, durable, handler) \<in> set (core_consumers (core_service ttl h v))" "holds_safe h"
    and "consume_batch handler ms w = (vs, w')" "tx w = NoTx" "core_inv (db w)"
  shows "core_inv (db w')
    \<and> (\<forall>r\<in>set (t_reservations (db w)). r_status r \<noteq> PENDING \<longrightarrow> r \<in> set (t_reservations (db w')))"
  using core_batch_inv [OF assms] by (simp add: keeps_books_def)

text \<open>A payment failure for a reservation that is CONFIRMED, delivered twice.\<close>

definition ox_failed :: "nat \<Rightarrow> nats_msg" where
  "ox_failed n = \<lparr>n_subject = SubjectPaymentFailed, n_data = Some (JObj [(''reservation_id'', JStr ex_res_id)]),
     n_header = Map.empty, n_delivered = Some n\<rparr>"

theorem consumers_keep_books_witness:
  "\<exists>vs w'. consume_batch (onPaymentFailed (core_service (15 * minute) None ex_valid))
      [ox_failed 1, ox_failed 2] (ex_world ex_confirmed ex_now) = (vs, w') \<and> core_inv (db w') \<and> ex_sold \<in> set (t_reservations (db w'))"
proof -
  let ?sv = "core_service (15 * minute) None ex_valid :: (core_db, unit) pg_world_ext service"
  obtain vs w' where run: "consume_batch (onPaymentFailed ?sv) [ox_failed 1, ox_failed 2] (ex_world ex_confirmed ex_now) = (vs, w')"
    by fastforce
  have "(SubjectPaymentFailed, ''core-payment-failed'', onPaymentFailed ?sv) \<in> set (core_consumers ?sv)"
    by (simp add: core_consumers_def)
  from consumers_keep_books [OF this _ run] ex_confirmed_inv run show ?thesis
    by (auto simp: holds_safe_def ex_confirmed_def ex_sold_def)
qed

end
