(* ===== verification/Http.thy ===== *)
theory Http
  imports EventBus
begin

text \<open>
  What the services use of \<open>net/http\<close>: requests, the response writer, handlers and the pattern
  router.  A handler acts on its response and on the world; a panic is an error that \<open>recover()\<close> may
  catch, so a handler is an operation.  The target of a redirect and the text that links to it are
  not modelled.
\<close>

section \<open>Requests and responses\<close>

text \<open>
  \<open>rq_segments\<close> are the segments of the escaped path, as they were sent; the body is its first JSON
  value.  The last two fields are the values the middleware puts on the request context.
\<close>

record request =
  rq_method :: string
  rq_segments :: "string list"
  rq_header :: headers
  rq_body :: payload
  rq_request_id :: "string option"
  rq_user_id :: "string option"

datatype body_part = JsonBody json | TextBody string

text \<open>
  A response writer: the header map, the codes of the calls to \<open>WriteHeader\<close>, what was sent as status
  line and headers (by the first of them), and the body.
\<close>

record response =
  rp_header :: headers
  rp_calls :: "int list"
  rp_sent :: "(int \<times> headers) option"
  rp_body :: "body_part list"

definition new_response :: response where
  "new_response = \<lparr>rp_header = Map.empty, rp_calls = [], rp_sent = None, rp_body = []\<rparr>"

definition set_header :: "string \<Rightarrow> string \<Rightarrow> response \<Rightarrow> response" where
  "set_header k v rw = rw\<lparr>rp_header := (rp_header rw)(k \<mapsto> v)\<rparr>"

definition send_header :: "int \<Rightarrow> response \<Rightarrow> response" where
  "send_header code rw =
     (case rp_sent rw of None \<Rightarrow> rw\<lparr>rp_sent := Some (code, rp_header rw)\<rparr> | Some _ \<Rightarrow> rw)"

definition WriteHeader :: "int \<Rightarrow> response \<Rightarrow> response" where
  "WriteHeader code rw = (send_header code rw)\<lparr>rp_calls := rp_calls rw @ [code]\<rparr>"

text \<open>Writing a body sends status 200 when no status was sent before.\<close>

definition Write :: "body_part \<Rightarrow> response \<Rightarrow> response" where
  "Write b rw = (send_header 200 rw)\<lparr>rp_body := rp_body rw @ [b]\<rparr>"

text \<open>What the client gets when the handler has returned.\<close>

definition client_status :: "response \<Rightarrow> int" where
  "client_status rw = (case rp_sent rw of None \<Rightarrow> 200 | Some (code, h) \<Rightarrow> code)"

type_synonym 'm http_handler = "request \<Rightarrow> (response \<times> 'm world_scheme, unit) op"

text \<open>A handler that only answers, one that only acts on the world, and an operation of the world.\<close>

definition answer :: "(response \<Rightarrow> response) \<Rightarrow> (response \<times> 'm world_scheme, unit) op" where
  "answer f s = (Inr (), (f (fst s), snd s))"

definition on_world :: "('m world_scheme \<Rightarrow> 'a \<times> 'm world_scheme) \<Rightarrow> response \<times> 'm world_scheme \<Rightarrow>
     'a \<times> response \<times> 'm world_scheme" where
  "on_world f s = (case f (snd s) of (a, w) \<Rightarrow> (a, (fst s, w)))"

definition http_Error :: "string \<Rightarrow> int \<Rightarrow> response \<Rightarrow> response" where
  "http_Error message code rw =
     Write (TextBody message) (WriteHeader code
       (set_header ''X-Content-Type-Options'' ''nosniff''
         (set_header ''Content-Type'' ''text/plain; charset=utf-8'' rw)))"

section \<open>Paths\<close>

definition hex_val :: "char \<Rightarrow> nat option" where
  "hex_val c =
     (let n = of_char c in
      if 48 \<le> n \<and> n \<le> 57 then Some (n - 48)
      else if 97 \<le> n \<and> n \<le> 102 then Some (n - 87)
      else if 65 \<le> n \<and> n \<le> 70 then Some (n - 55) else None)"

fun unescape :: "string \<Rightarrow> string" where
  "unescape [] = []"
| "unescape [c] = [c]"
| "unescape [c, a] = [c, a]"
| "unescape (c # a # b # s) =
     (if c = CHR ''%''
      then (case (hex_val a, hex_val b) of
              (Some i, Some j) \<Rightarrow> char_of (16 * i + j) # unescape s
            | _ \<Rightarrow> c # unescape (a # b # s))
      else c # unescape (a # b # s))"

text \<open>\<open>r.URL.Path\<close>.\<close>

definition url_path :: "request \<Rightarrow> string" where
  "url_path r = concat (map (\<lambda>s. ''/'' @ unescape s) (rq_segments r))"

text \<open>\<open>cleanPath\<close> leaves a path alone that has no empty, dot or dot-dot segment; a trailing slash stays.\<close>

definition clean_path :: "string list \<Rightarrow> bool" where
  "clean_path segs \<longleftrightarrow> segs \<noteq> [] \<and> (\<forall>s\<in>set (butlast segs). s \<notin> {'''', ''.'', ''..''}) \<and> last segs \<notin> {''.'', ''..''}"

section \<open>The router\<close>

datatype pattern_segment = Lit string | Wild

type_synonym 'm pattern = "string \<times> pattern_segment list \<times> (string list \<Rightarrow> 'm http_handler)"

text \<open>
  Segments are matched unescaped; a wildcard takes one segment, but neither the end of a path with a
  trailing slash nor an escaped slash alone.
\<close>

fun match_segments :: "pattern_segment list \<Rightarrow> string list \<Rightarrow> string list option" where
  "match_segments [] [] = Some []"
| "match_segments (Lit l # ps) (s # ss) = (if unescape s = l then match_segments ps ss else None)"
| "match_segments (Wild # ps) (s # ss) =
     (if s = '''' \<or> unescape s = ''/'' then None
      else (case match_segments ps ss of None \<Rightarrow> None | Some vs \<Rightarrow> Some (unescape s # vs)))"
| "match_segments _ _ = None"

text \<open>A pattern for GET also serves HEAD, one without a method serves all of them.\<close>

definition method_matches :: "string \<Rightarrow> string \<Rightarrow> bool" where
  "method_matches pm m \<longleftrightarrow> pm = '''' \<or> pm = m \<or> (pm = ''GET'' \<and> m = ''HEAD'')"

fun join :: "string \<Rightarrow> string list \<Rightarrow> string" where
  "join sep [] = []"
| "join sep [s] = s"
| "join sep (s # ss) = s @ sep @ join sep ss"

definition allowed_methods :: "'m pattern list \<Rightarrow> string list \<Rightarrow> string list" where
  "allowed_methods ps segs =
     concat (map (\<lambda>(m, p, h). if match_segments p segs = None then []
        else if m = ''GET'' then [''GET'', ''HEAD''] else [m]) ps)"

fun find_pattern :: "'m pattern list \<Rightarrow> string \<Rightarrow> string list \<Rightarrow> 'm http_handler option" where
  "find_pattern [] m segs = None"
| "find_pattern ((pm, p, h) # ps) m segs =
     (case match_segments p segs of
        Some vs \<Rightarrow> if method_matches pm m then Some (h vs) else find_pattern ps m segs
      | None \<Rightarrow> find_pattern ps m segs)"

text \<open>The patterns of a mux do not overlap here, so the first match is the match.\<close>

definition ServeMux :: "'m pattern list \<Rightarrow> 'm http_handler" where
  "ServeMux ps r =
     (if rq_method r \<noteq> ''CONNECT'' \<and> \<not> clean_path (rq_segments r)
      then answer (\<lambda>rw. WriteHeader 301
        (if rq_method r \<in> {''GET'', ''HEAD''} then set_header ''Content-Type'' ''text/html; charset=utf-8'' rw else rw))
      else
        (case find_pattern ps (rq_method r) (rq_segments r) of
           Some h \<Rightarrow> h r
         | None \<Rightarrow>
             if allowed_methods ps (rq_segments r) \<noteq> []
             then answer (\<lambda>rw. http_Error ''Method Not Allowed'' 405
                    (set_header ''Allow'' (join '', '' (allowed_methods ps (rq_segments r))) rw))
             else answer (http_Error ''404 page not found'' 404)))"

end
