(* ===== verification/Gateway.thy ===== *)
theory Gateway
  imports Http
begin

text \<open>
  \<open>internal/gateway\<close>: the token table and the identity of a caller, the middleware chain, the three
  handlers and the routes.  The publisher is a parameter, as in the code.  The spans and the
  log lines of the middleware are entries of the same record of observations as the counters; a duration
  is its last label, in nanoseconds.  The error lines of \<open>Recover\<close> and of a failed publish are left out.
\<close>

section \<open>The token table\<close>

definition AuthTokensEnv :: string where "AuthTokensEnv = ''AUTH_TOKENS''"

definition devAuthTokens :: string where
  "devAuthTokens = ''pp-token-user-1=user-1,pp-token-user-2=user-2''"

fun parse_pairs :: "string list \<Rightarrow> (string \<rightharpoonup> string) \<Rightarrow> err + (string \<rightharpoonup> string)" where
  "parse_pairs [] tokens = Inr tokens"
| "parse_pairs (pair # pairs) tokens =
     (case cut (CHR ''='') (trim_space pair) of (t, u, found) \<Rightarrow>
        let token = trim_space t; user = trim_space u in
        if \<not> found \<or> token = '''' \<or> user = ''''
        then Inl (Plain (''invalid '' @ AuthTokensEnv @ '' pair '' @ go_quote pair @ '': expected token=user_id''))
        else if tokens token \<noteq> None
        then Inl (Plain (''invalid '' @ AuthTokensEnv @ '': duplicate token '' @ go_quote token))
        else parse_pairs pairs (tokens(token \<mapsto> user)))"

definition ParseAuthTokens :: "string \<Rightarrow> err + (string \<rightharpoonup> string)" where
  "ParseAuthTokens spec =
     (if trim_space spec = ''''
      then Inl (Plain (''invalid '' @ AuthTokensEnv @ '': at least one token=user_id pair is required''))
      else parse_pairs (split (CHR '','') spec) Map.empty)"

section \<open>Responses\<close>

definition writeJSON :: "int \<Rightarrow> json \<Rightarrow> response \<Rightarrow> response" where
  "writeJSON status body rw =
     Write (JsonBody body) (WriteHeader status (set_header ''Content-Type'' ''application/json'' rw))"

definition writeError :: "int \<Rightarrow> string \<Rightarrow> response \<Rightarrow> response" where
  "writeError status message rw = writeJSON status (JObj [(''error'', JStr message)]) rw"

section \<open>Identity\<close>

definition resolveIdentity :: "string \<Rightarrow> (string \<rightharpoonup> string) \<Rightarrow> string \<times> bool" where
  "resolveIdentity h tokens =
     (case cut (CHR '' '') h of (scheme, token, found) \<Rightarrow>
        if \<not> found \<or> \<not> equal_fold scheme ''Bearer'' then ('''', False)
        else (case tokens (trim_space token) of
                None \<Rightarrow> ('''', False)
              | Some userID \<Rightarrow> (userID, userID \<noteq> '''')))"

definition UserIDFrom :: "request \<Rightarrow> string" where
  "UserIDFrom r = (case rq_user_id r of None \<Rightarrow> [] | Some v \<Rightarrow> v)"

definition RequestIDFrom :: "request \<Rightarrow> string" where
  "RequestIDFrom r = (case rq_request_id r of None \<Rightarrow> [] | Some v \<Rightarrow> v)"

definition Auth :: "(string \<rightharpoonup> string) \<Rightarrow> 'm http_handler \<Rightarrow> 'm http_handler" where
  "Auth tokens nxt r =
     (case resolveIdentity (hdr (rq_header r) ''Authorization'') tokens of (userID, valid) \<Rightarrow>
        if \<not> valid
        then answer (\<lambda>rw. writeError 401 ''a valid bearer token is required''
               (set_header ''WWW-Authenticate'' (''Bearer realm='' @ go_quote ''pulsar-gateway'') rw))
        else nxt (r\<lparr>rq_user_id := Some userID\<rparr>))"

section \<open>Middleware\<close>

definition RequestID :: "'m http_handler \<Rightarrow> 'm http_handler" where
  "RequestID nxt r =
     reading (if hdr (rq_header r) ''X-Request-Id'' = '''' then on_world uid_New
              else (\<lambda>s. (hdr (rq_header r) ''X-Request-Id'', s))) (\<lambda>i.
     andThen (answer (set_header ''X-Request-Id'' i)) (\<lambda>_.
       nxt (r\<lparr>rq_request_id := Some i\<rparr>)))"

definition routeTemplate :: "request \<Rightarrow> string" where
  "routeTemplate r =
     (let path = url_path r in
      if has_prefix path ''/v1/reservations/'' \<and> has_suffix path ''/payment''
      then ''/v1/reservations/{id}/payment''
      else if has_prefix path ''/v1/reservations/'' then ''/v1/reservations/{id}''
      else if path = ''/v1/reservations'' then ''/v1/reservations''
      else ''unmatched'')"

text \<open>
  \<open>statusRecorder\<close>: it sees the calls to \<open>WriteHeader\<close> of the handlers inside it and keeps the last
  code; 200 is its initial value.
\<close>

definition recorded_status :: "response \<Rightarrow> response \<Rightarrow> int" where
  "recorded_status before after =
     last (200 # drop (length (rp_calls before)) (rp_calls after))"

text \<open>What the three recording middlewares share: run the inner handler, then observe its status.\<close>

definition recording ::
  "'m http_handler \<Rightarrow> request \<Rightarrow> (int \<Rightarrow> duration \<Rightarrow> 'm world_scheme \<Rightarrow> 'm world_scheme) \<Rightarrow>
     (response \<times> 'm world_scheme, unit) op" where
  "recording nxt r obs s =
     andThen (nxt r) (\<lambda>_ s'.
       (Inr (), (fst s', obs (recorded_status (fst s) (fst s')) (time_sub (wall (snd s')) (wall (snd s))) (snd s')))) s"

definition Tracing :: "'m http_handler \<Rightarrow> 'm http_handler" where
  "Tracing nxt r =
     recording nxt r (\<lambda>status took. count
       [''span'', ''HTTP '' @ rq_method r @ '' '' @ routeTemplate r, routeTemplate r, rq_method r,
        RequestIDFrom r, itoa status])"

definition Metrics :: "'m http_handler \<Rightarrow> 'm http_handler" where
  "Metrics nxt r =
     recording nxt r (\<lambda>status took w.
       count [''pulsar_gateway_http_request_duration_seconds'', routeTemplate r, rq_method r, itoa status, itoa took]
         (count [''pulsar_gateway_http_requests_total'', routeTemplate r, rq_method r, itoa status] w))"

definition Logging :: "'m http_handler \<Rightarrow> 'm http_handler" where
  "Logging nxt r =
     recording nxt r (\<lambda>status took. count
       [''log'', ''http request'', RequestIDFrom r, rq_method r, url_path r, itoa status, itoa took])"

text \<open>A panic of an inner handler becomes an answer.\<close>

definition Recover :: "'m http_handler \<Rightarrow> 'm http_handler" where
  "Recover nxt r =
     onResult (nxt r) (\<lambda>x. case x of
       Inr _ \<Rightarrow> ok ()
     | Inl panic \<Rightarrow> answer (writeError 500 ''internal error''))"

section \<open>Handlers\<close>

record 'm reservation_handler =
  h_bus :: "(message \<Rightarrow> ('m world_scheme, unit) op) option"
  h_maxQuantity :: int

definition NewReservationHandler ::
  "(message \<Rightarrow> ('m world_scheme, unit) op) option \<Rightarrow> int \<Rightarrow> 'm reservation_handler" where
  "NewReservationHandler bus maxQuantity = \<lparr>h_bus = bus, h_maxQuantity = maxQuantity\<rparr>"

definition createReservationRequest :: "payload \<Rightarrow> err + string \<times> int" where
  "createReservationRequest p =
     thenE (unmarshal p) (\<lambda>kvs.
     thenE (str_field ''event_id'' kvs) (\<lambda>ev.
     thenE (int_field ''quantity'' kvs) (\<lambda>n. Inr (ev, n))))"

definition confirmPaymentRequest :: "payload \<Rightarrow> err + string" where
  "confirmPaymentRequest p = thenE (unmarshal p) (str_field ''payment_method_token'')"

definition reservationAcceptedResponse :: "string \<Rightarrow> json" where
  "reservationAcceptedResponse i = JObj [(''status'', JStr ''accepted''), (''reservation_id'', JStr i)]"

text \<open>A map is marshalled with its keys in order.\<close>

definition reserve_body :: "string \<Rightarrow> string \<Rightarrow> string \<Rightarrow> int \<Rightarrow> json" where
  "reserve_body i ev user n =
     JObj [(''event_id'', JStr ev), (''quantity'', JInt n), (''reservation_id'', JStr i), (''user_id'', JStr user)]"

definition payment_body :: "string \<Rightarrow> string \<Rightarrow> string \<Rightarrow> json" where
  "payment_body i user token =
     JObj [(''payment_method_token'', JStr token), (''reservation_id'', JStr i), (''user_id'', JStr user)]"

definition command_message :: "request \<Rightarrow> string \<Rightarrow> string \<Rightarrow> string \<Rightarrow> json \<Rightarrow> message" where
  "command_message r i subject key body =
     \<lparr>m_id = i, m_subject = subject, m_payload = Some body,
      m_headers = [''X-Request-Id'' \<mapsto> RequestIDFrom r, ''Idempotency-Key'' \<mapsto> key]\<rparr>"

text \<open>The end both mutations share: a fresh message id, the publish, and the answer.\<close>

definition publish_command ::
  "(message \<Rightarrow> ('m world_scheme, unit) op) \<Rightarrow> request \<Rightarrow> string \<Rightarrow> string \<Rightarrow> json \<Rightarrow> string \<Rightarrow>
     (response \<times> 'm world_scheme, unit) op" where
  "publish_command pub r subject key body reservationID =
     reading (on_world uid_New) (\<lambda>i.
     reading (on_world (pub (command_message r i subject key body))) (\<lambda>x. case x of
       Inl e \<Rightarrow> answer (writeError 503 ''booking temporarily unavailable'')
     | Inr _ \<Rightarrow> answer (writeJSON 202 (reservationAcceptedResponse reservationID))))"

definition Create :: "'m reservation_handler \<Rightarrow> 'm http_handler" where
  "Create h r =
     (let key = hdr (rq_header r) ''Idempotency-Key''; userID = UserIDFrom r in
      if key = '''' then answer (writeError 400 ''Idempotency-Key header is required'')
      else if userID = '''' then answer (writeError 500 ''identity not resolved'')
      else case createReservationRequest (rq_body r) of
             Inl e \<Rightarrow> answer (writeError 400 ''invalid JSON body'')
           | Inr (ev, n) \<Rightarrow>
               if ev = '''' \<or> n \<le> 0 \<or> h_maxQuantity h < n
               then answer (writeError 422 (''event_id is required and quantity must be between 1 and ''
                      @ itoa (h_maxQuantity h)))
               else (case h_bus h of
                       None \<Rightarrow> answer (writeError 503 ''booking temporarily unavailable'')
                     | Some pub \<Rightarrow>
                         reading (on_world uid_New) (\<lambda>i.
                           publish_command pub r SubjectReservationReserve key (reserve_body i ev userID n) i)))"

definition Gateway_Get :: "'m http_handler" where
  "Gateway_Get r = answer (writeError 501 ''query flow is wired in the next cycle'')"

definition ConfirmPayment :: "'m reservation_handler \<Rightarrow> string \<Rightarrow> 'm http_handler" where
  "ConfirmPayment h i r =
     (let key = hdr (rq_header r) ''Idempotency-Key''; userID = UserIDFrom r in
      if key = '''' then answer (writeError 400 ''Idempotency-Key header is required'')
      else if userID = '''' then answer (writeError 500 ''identity not resolved'')
      else case confirmPaymentRequest (rq_body r) of
             Inl e \<Rightarrow> answer (writeError 400 ''invalid JSON body'')
           | Inr token \<Rightarrow>
               if token = '''' then answer (writeError 422 ''payment_method_token is required'')
               else (case h_bus h of
                       None \<Rightarrow> answer (writeError 503 ''booking temporarily unavailable'')
                     | Some pub \<Rightarrow> publish_command pub r SubjectPaymentProcess key (payment_body i userID token) i))"

section \<open>Routes\<close>

definition gateway_patterns :: "'m reservation_handler \<Rightarrow> 'm pattern list" where
  "gateway_patterns h =
     [(''POST'', [Lit ''v1'', Lit ''reservations''], \<lambda>vs. Create h),
      (''GET'', [Lit ''v1'', Lit ''reservations'', Wild], \<lambda>vs. Gateway_Get),
      (''POST'', [Lit ''v1'', Lit ''reservations'', Wild, Lit ''payment''], \<lambda>vs. ConfirmPayment h (hd vs))]"

definition Routes :: "'m reservation_handler \<Rightarrow> (string \<rightharpoonup> string) \<Rightarrow> 'm http_handler" where
  "Routes h tokens =
     Metrics (RequestID (Tracing (Logging (Recover (Auth tokens (ServeMux (gateway_patterns h)))))))"

text \<open>One request to the server: what the client gets, and the world after it.\<close>

definition serve :: "'m http_handler \<Rightarrow> request \<Rightarrow> 'm world_scheme \<Rightarrow> response \<times> 'm world_scheme" where
  "serve h r w = snd (h (r\<lparr>rq_request_id := None, rq_user_id := None\<rparr>) (new_response, w))"

end
