(* ===== verification/Gateway_System.thy ===== *)
theory Gateway_System
  imports Gateway Broker
begin

text \<open>
  The gateway as a whole: a flat description of what a request asks for, and the proof that the layers
  - routes, identity, middleware, handlers, publisher - do exactly that.  What the gateway relies on
  from its broker is the locale \<open>command_bus\<close>, met by JetStream over the reference server.
\<close>

section \<open>What a request asks for\<close>

datatype asked = AskReserve string int | AskPay string string

definition asked_create :: "int \<Rightarrow> request \<Rightarrow> int + asked" where
  "asked_create q r =
     (if hdr (rq_header r) ''Idempotency-Key'' = '''' then Inl 400
      else case createReservationRequest (rq_body r) of
             Inl e \<Rightarrow> Inl 400
           | Inr (ev, n) \<Rightarrow> if ev = '''' \<or> n \<le> 0 \<or> q < n then Inl 422 else Inr (AskReserve ev n))"

definition asked_pay :: "string \<Rightarrow> request \<Rightarrow> int + asked" where
  "asked_pay i r =
     (if hdr (rq_header r) ''Idempotency-Key'' = '''' then Inl 400
      else case confirmPaymentRequest (rq_body r) of
             Inl e \<Rightarrow> Inl 400
           | Inr token \<Rightarrow> if token = '''' then Inl 422 else Inr (AskPay i token))"

text \<open>An error status, or the command.\<close>

definition asked_of :: "int \<Rightarrow> request \<Rightarrow> int + asked" where
  "asked_of q r =
     (if rq_method r \<noteq> ''CONNECT'' \<and> \<not> clean_path (rq_segments r) then Inl 301
      else case match_segments [Lit ''v1'', Lit ''reservations''] (rq_segments r) of
        Some vs \<Rightarrow> if rq_method r = ''POST'' then asked_create q r else Inl 405
      | None \<Rightarrow>
          (case match_segments [Lit ''v1'', Lit ''reservations'', Wild] (rq_segments r) of
             Some vs \<Rightarrow> if rq_method r = ''GET'' \<or> rq_method r = ''HEAD'' then Inl 501 else Inl 405
           | None \<Rightarrow>
               (case match_segments [Lit ''v1'', Lit ''reservations'', Wild, Lit ''payment''] (rq_segments r) of
                  Some vs \<Rightarrow> if rq_method r = ''POST'' then asked_pay (hd vs) r else Inl 405
                | None \<Rightarrow> Inl 404)))"

fun command_body :: "string \<Rightarrow> string \<Rightarrow> asked \<Rightarrow> json" where
  "command_body user i (AskReserve ev n) = reserve_body i ev user n"
| "command_body user i (AskPay j token) = payment_body j user token"

fun command_subject :: "asked \<Rightarrow> string" where
  "command_subject (AskReserve ev n) = SubjectReservationReserve"
| "command_subject (AskPay j token) = SubjectPaymentProcess"

text \<open>The reservation id of the answer: a new one, or the one that is paid.\<close>

fun issue_id :: "asked \<Rightarrow> 'm world_scheme \<Rightarrow> string \<times> 'm world_scheme" where
  "issue_id (AskReserve ev n) w = uid_New w"
| "issue_id (AskPay j token) w = (j, w)"

definition issue ::
  "(message \<Rightarrow> ('m world_scheme, unit) op) \<Rightarrow> request \<Rightarrow> string \<Rightarrow> asked \<Rightarrow> 'm world_scheme \<Rightarrow>
     (string \<times> (err + unit)) \<times> 'm world_scheme" where
  "issue pub r user a w =
     (case issue_id a w of (i, w1) \<Rightarrow>
      case uid_New w1 of (k, w2) \<Rightarrow>
      case pub (command_message r k (command_subject a) (hdr (rq_header r) ''Idempotency-Key'') (command_body user i a)) w2 of
        (x, w3) \<Rightarrow> ((i, x), w3))"

section \<open>One answer\<close>

definition answered :: "int \<Rightarrow> response \<Rightarrow> response \<Rightarrow> bool" where
  "answered c rw rw' \<longleftrightarrow> rp_calls rw' = rp_calls rw @ [c] \<and> (rp_sent rw = None \<longrightarrow> (\<exists>h. rp_sent rw' = Some (c, h)))"

lemma answered_simps [simp]:
  "answered c rw (writeError c m rw)" "answered c rw (writeJSON c b rw)"
  "answered c rw (http_Error m c rw)" "answered c rw (WriteHeader c rw)"
  "answered c (set_header k v rw) rw' = answered c rw rw'"
  by (auto simp: answered_def writeError_def writeJSON_def http_Error_def Write_def WriteHeader_def
      send_header_def set_header_def split: option.splits)

lemma answered_after [simp]:
  "answered c rw (writeError c m (set_header k v rw))" "answered c rw (http_Error m c (set_header k v rw))"
  "answered c rw (WriteHeader c (set_header k v rw))"
  using answered_simps(1,3,4) [of c "set_header k v rw"] by (simp_all only: answered_simps(5))

lemma writeJSON_body [simp]: "rp_body (writeJSON c b rw) = rp_body rw @ [JsonBody b]"
  by (simp add: writeJSON_def Write_def WriteHeader_def send_header_def set_header_def split: option.splits)

lemma answered_recorded: "answered c rw rw' \<Longrightarrow> recorded_status rw rw' = c"
  by (simp add: answered_def recorded_status_def)

lemma answer_run [simp]: "answer f (rw, w) = (Inr (), (f rw, w))"
  by (simp add: answer_def)

lemma on_world_run [simp]: "on_world f (rw, w) = (case f w of (a, w') \<Rightarrow> (a, (rw, w')))"
  by (simp add: on_world_def)

section \<open>The handlers\<close>

abbreviation "the_handler pub q \<equiv> NewReservationHandler (Some pub) q"

text \<open>The end of both mutations.\<close>

lemma publish_command_run:
  assumes "uid_New w = (k, w1)" "pub (command_message r k subject key body) w1 = (x, w2)"
  shows "\<exists>rw'. publish_command pub r subject key body i (rw, w) = (Inr (), (rw', w2))
    \<and> answered (case x of Inl _ \<Rightarrow> 503 | Inr _ \<Rightarrow> 202) rw rw'
    \<and> (x = Inr () \<longrightarrow> rp_body rw' = rp_body rw @ [JsonBody (reservationAcceptedResponse i)])"
  using assms by (cases x) (simp_all add: publish_command_def reading_def)

text \<open>What a handler behind \<open>Auth\<close> does with a request, given what it asks for.\<close>

definition serves ::
  "(message \<Rightarrow> ('m world_scheme, unit) op) \<Rightarrow> request \<Rightarrow> string \<Rightarrow> int + asked \<Rightarrow> response \<times> 'm world_scheme \<Rightarrow>
     (err + unit) \<times> response \<times> 'm world_scheme \<Rightarrow> bool" where
  "serves pub r user d s res \<longleftrightarrow>
     (case d of
        Inl c \<Rightarrow> \<exists>rw'. res = (Inr (), (rw', snd s)) \<and> answered c (fst s) rw'
      | Inr a \<Rightarrow>
          (case issue pub r user a (snd s) of ((i, x), w') \<Rightarrow>
             \<exists>rw'. res = (Inr (), (rw', w')) \<and> answered (case x of Inl _ \<Rightarrow> 503 | Inr _ \<Rightarrow> 202) (fst s) rw'
               \<and> (x = Inr () \<longrightarrow> rp_body rw' = rp_body (fst s) @ [JsonBody (reservationAcceptedResponse i)])))"

lemma Create_serves:
  assumes "rq_user_id r = Some user" "user \<noteq> ''''"
  shows "serves pub r user (asked_create q r) s (Create (the_handler pub q) r s)"
proof (cases "asked_create q r")
  case (Inl c)
  with assms show ?thesis
    by (cases s) (auto simp: serves_def asked_create_def Create_def UserIDFrom_def Let_def NewReservationHandler_def
        split: if_splits sum.splits)
next
  case (Inr a)
  then obtain ev n where req: "createReservationRequest (rq_body r) = Inr (ev, n)" and a: "a = AskReserve ev n"
    and ok: "hdr (rq_header r) ''Idempotency-Key'' \<noteq> ''''" "\<not> (ev = '''' \<or> n \<le> 0 \<or> q < n)"
    by (auto simp: asked_create_def split: if_splits sum.splits)
  obtain rw w where s: "s = (rw, w)" by fastforce
  obtain i w1 where i: "uid_New w = (i, w1)" by fastforce
  obtain k w2 where k: "uid_New w1 = (k, w2)" by fastforce
  obtain x w3 where x: "pub (command_message r k SubjectReservationReserve
      (hdr (rq_header r) ''Idempotency-Key'') (reserve_body i ev user n)) w2 = (x, w3)" by fastforce
  have "Create (the_handler pub q) r s
      = publish_command pub r SubjectReservationReserve (hdr (rq_header r) ''Idempotency-Key'')
          (reserve_body i ev user n) i (rw, w1)"
    using assms req ok i by (simp add: Create_def UserIDFrom_def Let_def NewReservationHandler_def s reading_def)
  with publish_command_run [where pub = pub, OF k x, of i rw] show ?thesis
    using Inr by (simp add: serves_def a issue_def s i k x)
qed

lemma ConfirmPayment_serves:
  assumes "rq_user_id r = Some user" "user \<noteq> ''''"
  shows "serves pub r user (asked_pay j r) s (ConfirmPayment (the_handler pub q) j r s)"
proof (cases "asked_pay j r")
  case (Inl c)
  with assms show ?thesis
    by (cases s) (auto simp: serves_def asked_pay_def ConfirmPayment_def UserIDFrom_def Let_def NewReservationHandler_def
        split: if_splits sum.splits)
next
  case (Inr a)
  then obtain token where req: "confirmPaymentRequest (rq_body r) = Inr token" and a: "a = AskPay j token"
    and ok: "hdr (rq_header r) ''Idempotency-Key'' \<noteq> ''''" "token \<noteq> ''''"
    by (auto simp: asked_pay_def split: if_splits sum.splits)
  obtain rw w where s: "s = (rw, w)" by fastforce
  obtain k w2 where k: "uid_New w = (k, w2)" by fastforce
  obtain x w3 where x: "pub (command_message r k SubjectPaymentProcess
      (hdr (rq_header r) ''Idempotency-Key'') (payment_body j user token)) w2 = (x, w3)" by fastforce
  have "ConfirmPayment (the_handler pub q) j r s
      = publish_command pub r SubjectPaymentProcess (hdr (rq_header r) ''Idempotency-Key'')
          (payment_body j user token) j (rw, w)"
    using assms req ok by (simp add: ConfirmPayment_def UserIDFrom_def Let_def NewReservationHandler_def s)
  with publish_command_run [where pub = pub, OF k x, of j rw] show ?thesis
    using Inr by (simp add: serves_def a issue_def s k x)
qed

section \<open>The routes\<close>

lemma match_segments_length: "match_segments ps ss = Some vs \<Longrightarrow> length ss = length ps"
  by (induction ps ss arbitrary: vs rule: match_segments.induct) (auto split: if_splits option.splits)

lemma match_one:
  assumes "match_segments ps ss = Some vs" "length ps' \<noteq> length ps"
  shows "match_segments ps' ss = None"
  using assms match_segments_length by (metis option.exhaust)

lemma mux_serves:
  assumes "rq_user_id r = Some user" "user \<noteq> ''''"
  shows "serves pub r user (asked_of q r) s (ServeMux (gateway_patterns (the_handler pub q)) r s)"
proof (cases "rq_method r \<noteq> ''CONNECT'' \<and> \<not> clean_path (rq_segments r)")
  case True
  then show ?thesis by (cases s) (auto simp: serves_def asked_of_def ServeMux_def)
next
  case False
  note here = if_not_P [OF False]
  let ?segs = "rq_segments r" and ?m = "rq_method r" and ?ps = "gateway_patterns (the_handler pub q)"
  let ?create = "[Lit ''v1'', Lit ''reservations'']"
  let ?get = "[Lit ''v1'', Lit ''reservations'', Wild]"
  let ?pay = "[Lit ''v1'', Lit ''reservations'', Wild, Lit ''payment'']"
  note ask = asked_of_def [of q r, unfolded here]
  have hit: "ServeMux ?ps r = h r" if "find_pattern ?ps ?m ?segs = Some h" for h
    by (simp add: ServeMux_def here that)
  have other: "serves pub r user (Inl 405) s (ServeMux ?ps r s)"
    if "find_pattern ?ps ?m ?segs = None" "allowed_methods ?ps ?segs \<noteq> []"
    by (cases s) (simp add: ServeMux_def here that serves_def)
  note sel = gateway_patterns_def method_matches_def allowed_methods_def
  consider vs where "match_segments ?create ?segs = Some vs"
    | vs where "match_segments ?create ?segs = None" "match_segments ?get ?segs = Some vs"
    | vs where "match_segments ?create ?segs = None" "match_segments ?get ?segs = None" "match_segments ?pay ?segs = Some vs"
    | "match_segments ?create ?segs = None" "match_segments ?get ?segs = None" "match_segments ?pay ?segs = None"
    by blast
  then show ?thesis
  proof cases
    case 1
    then have no: "match_segments ?get ?segs = None" "match_segments ?pay ?segs = None"
      by (auto intro: match_one)
    show ?thesis
    proof (cases "?m = ''POST''")
      case True
      then have "find_pattern ?ps ?m ?segs = Some (Create (the_handler pub q))"
        using 1 by (simp add: sel)
      moreover have "asked_of q r = asked_create q r" using 1 True by (simp add: ask)
      ultimately show ?thesis using Create_serves [OF assms, of pub q s] by (simp only: hit)
    next
      case False
      then have "find_pattern ?ps ?m ?segs = None" "allowed_methods ?ps ?segs \<noteq> []"
        using 1 no by (simp_all add: sel)
      moreover have "asked_of q r = Inl 405" using 1 False by (simp add: ask)
      ultimately show ?thesis using other by simp
    qed
  next
    case 2
    then have no: "match_segments ?pay ?segs = None" by (auto intro: match_one)
    show ?thesis
    proof (cases "?m = ''GET'' \<or> ?m = ''HEAD''")
      case True
      then have "find_pattern ?ps ?m ?segs = Some Gateway_Get"
        using 2 by (auto simp: sel)
      moreover have "asked_of q r = Inl 501" using 2 True by (simp add: ask)
      ultimately show ?thesis by (cases s) (simp add: hit serves_def Gateway_Get_def)
    next
      case False
      then have "find_pattern ?ps ?m ?segs = None" "allowed_methods ?ps ?segs \<noteq> []"
        using 2 no by (auto simp: sel)
      moreover have "asked_of q r = Inl 405" using 2 False by (simp add: ask)
      ultimately show ?thesis using other by simp
    qed
  next
    case 3
    show ?thesis
    proof (cases "?m = ''POST''")
      case True
      then have "find_pattern ?ps ?m ?segs = Some (ConfirmPayment (the_handler pub q) (hd vs))"
        using 3 by (simp add: sel)
      moreover have "asked_of q r = asked_pay (hd vs) r" using 3 True by (simp add: ask)
      ultimately show ?thesis using ConfirmPayment_serves [OF assms, where pub = pub and j = "hd vs" and s = s and q = q] by (simp only: hit)
    next
      case False
      then have "find_pattern ?ps ?m ?segs = None" "allowed_methods ?ps ?segs \<noteq> []"
        using 3 by (simp_all add: sel)
      moreover have "asked_of q r = Inl 405" using 3 False by (simp add: ask)
      ultimately show ?thesis using other by simp
    qed
  next
    case 4
    then have "find_pattern ?ps ?m ?segs = None" "allowed_methods ?ps ?segs = []"
      by (simp_all add: sel)
    moreover have "asked_of q r = Inl 404" using 4 by (simp add: ask)
    ultimately show ?thesis by (cases s) (simp add: ServeMux_def here serves_def)
  qed
qed

section \<open>The chain\<close>

text \<open>The observations of one request, by the status all of the layers see.\<close>

definition observe_request :: "request \<Rightarrow> string \<Rightarrow> int \<Rightarrow> duration \<Rightarrow> duration \<Rightarrow> 'm world_scheme \<Rightarrow> 'm world_scheme" where
  "observe_request r rid c t u w =
     count [''pulsar_gateway_http_request_duration_seconds'', routeTemplate r, rq_method r, itoa c, itoa u]
     (count [''pulsar_gateway_http_requests_total'', routeTemplate r, rq_method r, itoa c]
     (count [''span'', ''HTTP '' @ rq_method r @ '' '' @ routeTemplate r, routeTemplate r, rq_method r, rid, itoa c]
     (count [''log'', ''http request'', rid, rq_method r, url_path r, itoa c, itoa t] w)))"

definition request_id :: "request \<Rightarrow> 'm world_scheme \<Rightarrow> string \<times> 'm world_scheme" where
  "request_id r w =
     (if hdr (rq_header r) ''X-Request-Id'' = '''' then uid_New w else (hdr (rq_header r) ''X-Request-Id'', w))"

abbreviation "with_id rid rw \<equiv> set_header ''X-Request-Id'' rid rw"

lemma layers_run:
  assumes "request_id r w = (rid, w1)"
    and "h (r\<lparr>rq_request_id := Some rid\<rparr>) (with_id rid new_response, w1) = (Inr (), (rw, w2))"
    and "answered c (with_id rid new_response) rw"
  shows "\<exists>t u. Metrics (RequestID (Tracing (Logging h))) r (new_response, w)
    = (Inr (), (rw, observe_request r rid c t u w2))"
proof -
  let ?r = "r\<lparr>rq_request_id := Some rid\<rparr>" and ?rw = "with_id rid new_response"
  have rec: "recorded_status ?rw rw = c" "recorded_status new_response rw = c"
    using assms(3) by (auto intro!: answered_recorded)
  obtain t where "Logging h ?r (?rw, w1)
      = (Inr (), (rw, count [''log'', ''http request'', rid, rq_method r, url_path r, itoa c, itoa t] w2))"
    using assms(2) rec by (auto simp: Logging_def recording_def andThen_def RequestIDFrom_def url_path_def)
  then have "Tracing (Logging h) ?r (?rw, w1) = (Inr (), (rw,
      count [''span'', ''HTTP '' @ rq_method r @ '' '' @ routeTemplate r, routeTemplate r, rq_method r, rid, itoa c]
        (count [''log'', ''http request'', rid, rq_method r, url_path r, itoa c, itoa t] w2)))"
    using rec by (simp add: Tracing_def recording_def andThen_def RequestIDFrom_def routeTemplate_def url_path_def)
  then have "RequestID (Tracing (Logging h)) r (new_response, w) = (Inr (), (rw,
      count [''span'', ''HTTP '' @ rq_method r @ '' '' @ routeTemplate r, routeTemplate r, rq_method r, rid, itoa c]
        (count [''log'', ''http request'', rid, rq_method r, url_path r, itoa c, itoa t] w2)))"
    using assms(1) by (auto simp: RequestID_def request_id_def reading_def andThen_def split: if_splits)
  then show ?thesis
    using rec by (auto simp: Metrics_def recording_def andThen_def observe_request_def)
qed

text \<open>What is asked for does not depend on the context values.\<close>

lemma asked_of_context [simp]:
  "asked_of q (r\<lparr>rq_request_id := a\<rparr>) = asked_of q r" "asked_of q (r\<lparr>rq_user_id := b\<rparr>) = asked_of q r"
  by (simp_all add: asked_of_def asked_create_def asked_pay_def cong: option.case_cong)

lemma request_id_context [simp]:
  "request_id (r\<lparr>rq_request_id := a\<rparr>) = request_id r" "request_id (r\<lparr>rq_user_id := b\<rparr>) = request_id r"
  by (simp_all add: request_id_def fun_eq_iff)

lemma routes_context [simp]:
  "routeTemplate (r\<lparr>rq_request_id := a\<rparr>) = routeTemplate r" "routeTemplate (r\<lparr>rq_user_id := b\<rparr>) = routeTemplate r"
  "url_path (r\<lparr>rq_request_id := a\<rparr>) = url_path r" "url_path (r\<lparr>rq_user_id := b\<rparr>) = url_path r"
  by (simp_all add: routeTemplate_def url_path_def)

text \<open>The identity a request proves.\<close>

definition caller :: "(string \<rightharpoonup> string) \<Rightarrow> request \<Rightarrow> string option" where
  "caller tokens r =
     (case resolveIdentity (hdr (rq_header r) ''Authorization'') tokens of (u, valid) \<Rightarrow> if valid then Some u else None)"

lemma caller_known: "caller tokens r = Some u \<Longrightarrow> u \<noteq> '''' \<and> u \<in> ran tokens"
  by (auto simp: caller_def resolveIdentity_def ran_def split: prod.splits if_splits option.splits)

abbreviation "gateway pub q tokens \<equiv> Routes (the_handler pub q) tokens"

abbreviation "in_context r rid u \<equiv> r\<lparr>rq_request_id := Some rid, rq_user_id := Some u\<rparr>"

lemma serve_anonymous:
  assumes "caller tokens r = None" "request_id r w = (rid, w1)"
  shows "\<exists>rw t u. serve (gateway pub q tokens) r w = (rw, observe_request r rid 401 t u w1)
    \<and> rp_calls rw = [401] \<and> client_status rw = 401"
proof -
  let ?r = "r\<lparr>rq_request_id := None, rq_user_id := None\<rparr>" and ?rw = "with_id rid new_response"
  define rw where "rw = writeError 401 ''a valid bearer token is required''
    (set_header ''WWW-Authenticate'' (''Bearer realm='' @ go_quote ''pulsar-gateway'') ?rw)"
  have ans: "answered 401 ?rw rw" by (simp add: rw_def)
  have "Recover (Auth tokens h) (?r\<lparr>rq_request_id := Some rid\<rparr>) (?rw, w1) = (Inr (), (rw, w1))" for h
    using assms(1) by (auto simp: Recover_def onResult_def Auth_def caller_def rw_def split: prod.splits if_splits)
  moreover have "request_id ?r w = (rid, w1)" using assms(2) by simp
  ultimately obtain t u where "gateway pub q tokens ?r (new_response, w)
      = (Inr (), (rw, observe_request ?r rid 401 t u w1))"
    using layers_run [OF _ _ ans, of ?r w w1] unfolding Routes_def by blast
  with ans show ?thesis
    by (auto simp: serve_def answered_def client_status_def new_response_def set_header_def observe_request_def)
qed

lemma serve_caller:
  assumes "caller tokens r = Some user" "request_id r w = (rid, w1)"
  obtains rw t u c w2 where "serve (gateway pub q tokens) r w = (rw, observe_request r rid c t u w2)"
    "rp_calls rw = [c]" "client_status rw = c"
    "case asked_of q r of
       Inl d \<Rightarrow> c = d \<and> w2 = w1
     | Inr a \<Rightarrow> (case issue pub (in_context r rid user) user a w1 of ((i, x), w3) \<Rightarrow> w2 = w3
         \<and> c = (case x of Inl _ \<Rightarrow> 503 | Inr _ \<Rightarrow> 202)
         \<and> (x = Inr () \<longrightarrow> rp_body rw = [JsonBody (reservationAcceptedResponse i)]))"
proof -
  let ?r = "r\<lparr>rq_request_id := None, rq_user_id := None\<rparr>" and ?rw = "with_id rid new_response"
  let ?r2 = "in_context r rid user"
  have user: "user \<noteq> ''''" using caller_known [OF assms(1)] by simp
  obtain x rw w2 where run: "ServeMux (gateway_patterns (the_handler pub q)) ?r2 (?rw, w1) = (x, (rw, w2))"
    by (metis surj_pair)
  have "serves pub ?r2 user (asked_of q ?r2) (?rw, w1) (x, (rw, w2))"
    using mux_serves [of ?r2 user pub q "(?rw, w1)"] user run by simp
  then obtain c where x: "x = Inr ()" and ans: "answered c ?rw rw" and what: "case asked_of q r of
       Inl d \<Rightarrow> c = d \<and> w2 = w1
     | Inr a \<Rightarrow> (case issue pub ?r2 user a w1 of ((i, x), w3) \<Rightarrow> w2 = w3
         \<and> c = (case x of Inl _ \<Rightarrow> 503 | Inr _ \<Rightarrow> 202)
         \<and> (x = Inr () \<longrightarrow> rp_body rw = [JsonBody (reservationAcceptedResponse i)]))"
    by (auto simp: serves_def new_response_def set_header_def split: sum.splits prod.splits)
  have "Recover (Auth tokens (ServeMux (gateway_patterns (the_handler pub q)))) (?r\<lparr>rq_request_id := Some rid\<rparr>) (?rw, w1)
      = (Inr (), (rw, w2))"
    using assms(1) run x by (auto simp: Recover_def onResult_def Auth_def caller_def split: prod.splits if_splits)
  moreover have "request_id ?r w = (rid, w1)" using assms(2) by simp
  ultimately obtain t u where "gateway pub q tokens ?r (new_response, w)
      = (Inr (), (rw, observe_request ?r rid c t u w2))"
    using layers_run [OF _ _ ans, of ?r w w1] unfolding Routes_def by blast
  with ans what show thesis
    by (intro that [where rw = rw and t = t and u = u and c = c and ?w2.0 = w2])
      (auto simp: serve_def answered_def client_status_def new_response_def set_header_def observe_request_def)
qed


section \<open>The bus\<close>

text \<open>
  What the gateway relies on: its bus is a publisher that does not touch the gateway's observations, and
  neither a counter nor a new identifier touches the bus.
\<close>

locale command_bus = publisher pub accepted meter
  for pub :: "message \<Rightarrow> ('m world_scheme, unit) op" and accepted :: "'m world_scheme \<Rightarrow> sent list" +
  assumes accepted_count: "accepted (count c w) = accepted w"
    and accepted_uid: "accepted (w\<lparr>rng_pos := n\<rparr>) = accepted w"
begin

lemma accepted_observe: "accepted (observe_request r rid c t u w) = accepted w"
  by (simp add: observe_request_def accepted_count)

lemma uid_accepted: "uid_New w = (i, w') \<Longrightarrow> accepted w' = accepted w"
  by (auto simp: uid_New_def accepted_uid)

lemma request_id_accepted: "request_id r w = (rid, w') \<Longrightarrow> accepted w' = accepted w"
  by (auto simp: request_id_def split: if_splits dest: uid_accepted)

text \<open>Issuing a command: the message the bus was given, and what it did with it.\<close>

lemma issue_effect:
  assumes "issue pub r user a w = ((i, x), w')"
  obtains m new where "m_subject m = command_subject a" "m_payload m = Some (command_body user i a)"
    "accepted w' = accepted w @ new" "new = [] \<or> new = [sent_of m]" "x = Inr () \<Longrightarrow> m_id m \<in> fst ` set (accepted w')"
proof -
  obtain i1 w1 where i: "issue_id a w = (i1, w1)" by fastforce
  obtain k w2 where k: "uid_New w1 = (k, w2)" by fastforce
  let ?m = "command_message r k (command_subject a) (hdr (rq_header r) ''Idempotency-Key'') (command_body user i1 a)"
  from assms i k have i1: "i1 = i" and p: "pub ?m w2 = (x, w')"
    by (auto simp: issue_def split: prod.splits)
  have "accepted w1 = accepted w" using i uid_accepted by (cases a) auto
  with uid_accepted [OF k] have w2: "accepted w2 = accepted w" by simp
  from pub_once [OF p] w2 obtain new where "accepted w' = accepted w @ new" "new = [] \<or> new = [sent_of ?m]" by auto
  then show thesis
    using pub_accepted [of ?m w2 "()" w'] p i1
    by (intro that [of ?m new]) (auto simp: command_message_def)
qed

text \<open>A request leaves at most one message, only for a caller it knows, and only one that was asked for.\<close>

lemma serve_effect:
  assumes "serve (gateway pub q tokens) r w = (rw, w')"
  obtains (refused) c where "rp_calls rw = [c]" "client_status rw = c" "c \<noteq> 202" "c \<noteq> 503" "accepted w' = accepted w"
      "(caller tokens r = None \<and> c = 401) \<or> (\<exists>user. caller tokens r = Some user \<and> asked_of q r = Inl c)"
    | (issued) user a i m new c where "caller tokens r = Some user" "asked_of q r = Inr a"
      "m_subject m = command_subject a" "m_payload m = Some (command_body user i a)"
      "accepted w' = accepted w @ new" "new = [] \<or> new = [sent_of m]" "rp_calls rw = [c]" "client_status rw = c"
      "(c = 202 \<and> m_id m \<in> fst ` set (accepted w') \<and> rp_body rw = [JsonBody (reservationAcceptedResponse i)]) \<or> c = 503"
proof -
  obtain rid w1 where rid: "request_id r w = (rid, w1)" by fastforce
  note w1 = request_id_accepted [OF rid]
  show thesis
  proof (cases "caller tokens r")
    case None
    from serve_anonymous [OF None rid, of pub q] assms obtain t u where
      "w' = observe_request r rid 401 t u w1" "rp_calls rw = [401]" "client_status rw = 401" by auto
    with None w1 show thesis by (intro refused [of 401]) (simp_all add: accepted_observe)
  next
    case (Some user)
    obtain rw2 t u c w2 where s: "serve (gateway pub q tokens) r w = (rw2, observe_request r rid c t u w2)"
      "rp_calls rw2 = [c]" "client_status rw2 = c"
      and what: "case asked_of q r of
         Inl d \<Rightarrow> c = d \<and> w2 = w1
       | Inr a \<Rightarrow> (case issue pub (in_context r rid user) user a w1 of ((i, x), w3) \<Rightarrow> w2 = w3
           \<and> c = (case x of Inl _ \<Rightarrow> 503 | Inr _ \<Rightarrow> 202)
           \<and> (x = Inr () \<longrightarrow> rp_body rw2 = [JsonBody (reservationAcceptedResponse i)]))"
      by (rule serve_caller [OF Some rid, of pub q])
    have eq: "rw = rw2" "accepted w' = accepted w2" using s(1) assms by (simp_all add: accepted_observe)
    show thesis
    proof (cases "asked_of q r")
      case (Inl d)
      then have "d \<noteq> 202 \<and> d \<noteq> 503"
        by (auto simp: asked_of_def asked_create_def asked_pay_def split: if_splits option.splits sum.splits)
      with Inl what s eq w1 Some show thesis by (intro refused [of d]) auto
    next
      case (Inr a)
      obtain i x w3 where iss: "issue pub (in_context r rid user) user a w1 = ((i, x), w3)" by (metis surj_pair)
      obtain m new where m: "m_subject m = command_subject a" "m_payload m = Some (command_body user i a)"
        "accepted w3 = accepted w1 @ new" "new = [] \<or> new = [sent_of m]" "x = Inr () \<Longrightarrow> m_id m \<in> fst ` set (accepted w3)"
        using issue_effect [OF iss] by blast
      from what Inr iss have c: "w2 = w3" "c = (case x of Inl _ \<Rightarrow> 503 | Inr _ \<Rightarrow> 202)"
        "x = Inr () \<longrightarrow> rp_body rw2 = [JsonBody (reservationAcceptedResponse i)]" by auto
      show thesis
        by (rule issued [OF Some Inr m(1,2)])
          (use m c s(2,3) eq w1 in \<open>auto split: sum.splits\<close>)
    qed
  qed
qed

end

text \<open>JetStream over the reference server is such a bus.\<close>

interpretation gwb: command_bus "js_publish inject (br_send world.more world.more_update)"
  "\<lambda>w :: broker world_scheme. map wire_sent (br_log (world.more w))"
proof unfold_locales
  fix msg s u s'
  assume "js_publish inject (br_send world.more world.more_update) msg s = (Inr u, s' :: broker world_scheme)"
  then show "map wire_sent (br_log (world.more s')) = map wire_sent (br_log (world.more s)) @ [sent_of msg]
      \<or> (map wire_sent (br_log (world.more s')) = map wire_sent (br_log (world.more s))
         \<and> m_id msg \<in> fst ` set (map wire_sent (br_log (world.more s))))"
    by (rule gw.js.pub_ok)
next
  fix msg s e s'
  assume "js_publish inject (br_send world.more world.more_update) msg s = (Inl e, s' :: broker world_scheme)"
  then show "map wire_sent (br_log (world.more s')) = map wire_sent (br_log (world.more s))
      \<or> map wire_sent (br_log (world.more s')) = map wire_sent (br_log (world.more s)) @ [sent_of msg]"
    by (rule gw.js.pub_err)
next
  fix msg s x s'
  assume "js_publish inject (br_send world.more world.more_update) msg s = (x, s' :: broker world_scheme)"
  then show "meter s' = meter s" using gw.js.pub_kept by fastforce
qed (simp_all add: count_def)


text \<open>The statuses of the gateway, and the observations of a request.\<close>

definition gateway_statuses :: "int set" where
  "gateway_statuses = {202, 301, 400, 401, 404, 405, 422, 501, 503}"

context command_bus
begin

lemma uid_meter: "uid_New w = (i, w') \<Longrightarrow> meter w' = meter w"
  by (auto simp: uid_New_def)

lemma issue_meter: "issue pub r user a w = (ix, w') \<Longrightarrow> meter w' = meter w"
  by (cases a) (auto simp: issue_def split: prod.splits dest!: uid_meter pub_kept)

lemma serve_observed:
  assumes "serve (gateway pub q tokens) r w = (rw, w')"
  shows "\<exists>c rid t u w2. w' = observe_request r rid c t u w2 \<and> meter w2 = meter w
    \<and> c \<in> gateway_statuses \<and> rp_calls rw = [c] \<and> client_status rw = c"
proof -
  obtain rid w1 where rid: "request_id r w = (rid, w1)" by fastforce
  have w1: "meter w1 = meter w" using rid by (auto simp: request_id_def split: if_splits dest: uid_meter)
  show ?thesis
  proof (cases "caller tokens r")
    case None
    from serve_anonymous [OF None rid, of pub q] assms obtain t u where
      "w' = observe_request r rid 401 t u w1" "rp_calls rw = [401]" "client_status rw = 401" by auto
    with w1 show ?thesis
      by (intro exI [of _ 401] exI [of _ rid] exI [of _ t] exI [of _ u] exI [of _ w1]) (simp add: gateway_statuses_def)
  next
    case (Some user)
    obtain rw2 t u c w2 where s: "serve (gateway pub q tokens) r w = (rw2, observe_request r rid c t u w2)"
      "rp_calls rw2 = [c]" "client_status rw2 = c"
      and what: "case asked_of q r of
         Inl d \<Rightarrow> c = d \<and> w2 = w1
       | Inr a \<Rightarrow> (case issue pub (in_context r rid user) user a w1 of ((i, x), w3) \<Rightarrow> w2 = w3
           \<and> c = (case x of Inl _ \<Rightarrow> 503 | Inr _ \<Rightarrow> 202)
           \<and> (x = Inr () \<longrightarrow> rp_body rw2 = [JsonBody (reservationAcceptedResponse i)]))"
      by (rule serve_caller [OF Some rid, of pub q])
    have "c \<in> gateway_statuses \<and> meter w2 = meter w"
    proof (cases "asked_of q r")
      case (Inl d)
      then have "d \<in> gateway_statuses"
        by (auto simp: asked_of_def asked_create_def asked_pay_def gateway_statuses_def
            split: if_splits option.splits sum.splits)
      with Inl what w1 show ?thesis by simp
    next
      case (Inr a)
      with what w1 issue_meter [of "in_context r rid user" user a w1] show ?thesis
        by (auto simp: gateway_statuses_def split: prod.splits sum.splits)
    qed
    with s assms show ?thesis by auto
  qed
qed

end


end
