(* ===== verification/Wire.thy ===== *)
theory Wire
  imports Gateway_System Core_Subscribers Payment Chrono
begin

text \<open>
  The messages between the services: what each consumer decodes from the payload its producer encodes,
  and whose commands a request to the gateway can leave on the bus.
\<close>

section \<open>Decoding what was encoded\<close>

lemma decode_reserve_body:
  "int64 n \<Longrightarrow> decode_reserve (Some (reserve_body i ev u n))
     = Inr \<lparr>rc_reservation_id = i, rc_event_id = ev, rc_user_id = u, rc_quantity = n\<rparr>"
  by (simp add: decode_reserve_def reserve_body_def field_defs equal_fold_def to_lower_def)

lemma decode_payment_body:
  "decode_payment_process (Some (payment_body i u t))
     = Inr \<lparr>q_reservation_id = i, q_user_id = u, q_token = t\<rparr>"
  by (simp add: decode_payment_process_def payment_body_def field_defs equal_fold_def to_lower_def)

lemma dec_field_invariant:
  "dec_field rd cur name kvs = Inr x \<Longrightarrow> P cur \<Longrightarrow> (\<And>v y. rd v = Inr y \<Longrightarrow> P y) \<Longrightarrow> P x"
  by (induction rd cur name kvs rule: dec_field.induct) (auto split: if_splits sum.splits)

lemma rd_int_int64: "rd_int v = Inr n \<Longrightarrow> int64 n"
  by (cases v) (auto split: if_splits)

lemma int_field_int64: "int_field name kvs = Inr n \<Longrightarrow> int64 n"
  unfolding int_field_def by (rule dec_field_invariant [where P = int64]) (auto simp: int64_def dest: rd_int_int64)

lemma asked_create_reserve:
  assumes "asked_create q r = Inr (AskReserve ev n)"
  shows "int64 n \<and> 1 \<le> n \<and> n \<le> q"
  using assms by (auto simp: asked_create_def createReservationRequest_def thenE_Inr split: if_splits sum.splits
      dest: int_field_int64)

lemma asked_of_reserve: "asked_of q r = Inr (AskReserve ev n) \<Longrightarrow> int64 n \<and> 1 \<le> n \<and> n \<le> q"
  by (rule asked_create_reserve [where r = r])
    (auto simp: asked_of_def asked_pay_def split: if_splits option.splits sum.splits)

lemma decode_TicketReserved:
  assumes "TicketReservedPayload res = Inr j" "int64 (r_amount_cents res)"
  shows "decode_ticket_reserved (Some j) = Inr \<lparr>c_reservation_id = r_id res, c_user_id = r_user_id res,
    c_amount_cents = r_amount_cents res, c_currency = r_currency res, c_expires_at = r_expires_at res\<rparr>"
  using assms by (auto simp: TicketReservedPayload_def decode_ticket_reserved_def field_defs equal_fold_def to_lower_def
      rd_time_enc split: sum.splits)

lemma ref_PaymentOutcome:
  "reservationRef (Some (PaymentOutcomePayload pay ref reason)) = Inr (p_reservation_id pay)"
  by (simp add: reservationRef_def PaymentOutcomePayload_def field_defs equal_fold_def to_lower_def omitempty_def)

lemma ref_ReservationExpired:
  "ReservationExpiredPayload x now = Inr j \<Longrightarrow> reservationRef (Some j) = Inr (x_reservation_id x)"
  by (auto simp: reservationRef_def ReservationExpiredPayload_def field_defs equal_fold_def to_lower_def split: sum.splits)

lemma decoded_TicketReserved:
  assumes "TicketReservedPayload res = Inr j" "decode_ticket_reserved (Some j) = Inr c"
  shows "c = \<lparr>c_reservation_id = r_id res, c_user_id = r_user_id res, c_amount_cents = r_amount_cents res,
    c_currency = r_currency res, c_expires_at = r_expires_at res\<rparr>"
  using assms by (auto simp: TicketReservedPayload_def decode_ticket_reserved_def field_defs equal_fold_def to_lower_def
      rd_time_enc split: sum.splits if_splits)

section \<open>The commands of a request\<close>

lemma serve_identity:
  assumes "command_bus pub accepted" "serve (gateway pub q tokens) r w = (rw, w')"
  shows "\<exists>new. accepted w' = accepted w @ new \<and> length new \<le> 1 \<and> (\<forall>(k, s, p)\<in>set new.
    \<exists>user. caller tokens r = Some user \<and> user \<noteq> '''' \<and> user \<in> ran tokens
      \<and> ((s = SubjectReservationReserve \<and> (\<exists>cmd. decode_reserve p = Inr cmd \<and> rc_user_id cmd = user
            \<and> 1 \<le> rc_quantity cmd \<and> rc_quantity cmd \<le> q))
         \<or> (s = SubjectPaymentProcess \<and> (\<exists>req. decode_payment_process p = Inr req \<and> q_user_id req = user))))"
proof (rule command_bus.serve_effect [OF assms])
  fix user a i m new c
  assume a: "caller tokens r = Some user" "asked_of q r = Inr a"
    "m_subject m = command_subject a" "m_payload m = Some (command_body user i a)"
    "accepted w' = accepted w @ new" "new = [] \<or> new = [sent_of m]"
  then show ?thesis
    using a caller_known [OF a(1)]
    by (intro exI [of _ new], cases a)
      (auto simp: sent_of_def decode_reserve_body decode_payment_body dest!: asked_of_reserve)
qed simp

end
