(* ===== verification/Gateway_Properties.thy ===== *)
theory Gateway_Properties
  imports Wire
begin

text \<open>
  The properties of the gateway, and of the messages between the services: the layers decide as the
  flat description says, the identity in a command is the one the token proves, every request gets one
  answer, and every consumer decodes what the producer encoded.
\<close>

section \<open>A concrete gateway\<close>

definition gx_tokens :: "string \<rightharpoonup> string" where
  "gx_tokens = [''pp-token-user-1'' \<mapsto> ''user-1'']"

definition gx_request :: "string \<Rightarrow> request" where
  "gx_request auth = \<lparr>rq_method = ''POST'', rq_segments = [''v1'', ''reservations''],
     rq_header = [''Authorization'' \<mapsto> auth, ''Idempotency-Key'' \<mapsto> ''k-1'', ''X-Request-Id'' \<mapsto> ''r-1''],
     rq_body = Some (JObj [(''event_id'', JStr ''event-1''), (''quantity'', JInt 2), (''user_id'', JStr ''user-2'')]),
     rq_request_id = None, rq_user_id = None\<rparr>"

definition gx_world :: "broker world_scheme" where
  "gx_world = \<lparr>wall = 0, rng = (\<lambda>_. 0), rng_pos = 0, meter = [], \<dots> = \<lparr>br_log = [], br_old = 0, br_script = []\<rparr>\<rparr>"

abbreviation "gx_pub \<equiv> js_publish (\<lambda>h. h) (br_send world.more world.more_update)"
abbreviation "gx_log w \<equiv> map wire_sent (br_log (world.more w))"

lemma gx_bus: "command_bus gx_pub gx_log"
  by (rule gwb.command_bus_axioms)

lemma gx_caller [simp]: "caller gx_tokens (gx_request ''bearer pp-token-user-1'') = Some ''user-1''"
  by code_simp

lemma gx_stranger [simp]: "caller gx_tokens (gx_request ''Basic abc'') = None"
  by code_simp

lemma gx_asked [simp]: "asked_of 8 (gx_request a) = Inr (AskReserve ''event-1'' 2)"
  by (simp add: asked_of_def asked_create_def gx_request_def clean_path_def hdr_def createReservationRequest_def
      field_defs equal_fold_def to_lower_def int64_def)

text \<open>C32: The gateway decides as specified.  Through routes, middleware and handlers, a request without
  a valid bearer token gets 401, one that is not well formed gets the status the flat description
  names, and both leave the bus alone; any other is published once as the command it asks for and gets
  202 with the reservation id of that command only if the bus has it, 503 otherwise.\<close>

theorem gateway_decides:
  assumes "command_bus pub accepted" "serve (gateway pub q tokens) r w = (rw, w')"
  shows "case caller tokens r of
      None \<Rightarrow> client_status rw = 401 \<and> accepted w' = accepted w
    | Some user \<Rightarrow>
        (case asked_of q r of
           Inl c \<Rightarrow> client_status rw = c \<and> accepted w' = accepted w
         | Inr a \<Rightarrow> \<exists>i m new. m_subject m = command_subject a \<and> m_payload m = Some (command_body user i a)
             \<and> accepted w' = accepted w @ new \<and> new \<in> {[], [sent_of m]}
             \<and> (client_status rw = 503 \<or> (client_status rw = 202 \<and> m_id m \<in> fst ` set (accepted w')
                  \<and> rp_body rw = [JsonBody (reservationAcceptedResponse i)])))"
proof (rule command_bus.serve_effect [OF assms])
  fix c
  assume "client_status rw = c" "accepted w' = accepted w"
    "(caller tokens r = None \<and> c = 401) \<or> (\<exists>user. caller tokens r = Some user \<and> asked_of q r = Inl c)"
  then show ?thesis by auto
next
  fix user a i m new c
  assume "caller tokens r = Some user" "asked_of q r = Inr a"
    "m_subject m = command_subject a" "m_payload m = Some (command_body user i a)"
    "accepted w' = accepted w @ new" "new = [] \<or> new = [sent_of m]" "client_status rw = c"
    "(c = 202 \<and> m_id m \<in> fst ` set (accepted w') \<and> rp_body rw = [JsonBody (reservationAcceptedResponse i)]) \<or> c = 503"
  then show ?thesis by auto
qed

theorem gateway_decides_witness:
  "\<exists>rw w'. serve (gateway gx_pub 8 gx_tokens) (gx_request ''Basic abc'') gx_world = (rw, w')
    \<and> client_status rw = 401 \<and> gx_log w' = []"
proof -
  obtain rw w' where run: "serve (gateway gx_pub 8 gx_tokens) (gx_request ''Basic abc'') gx_world = (rw, w')"
    by fastforce
  from gateway_decides [OF gx_bus run] run show ?thesis by (auto simp: gx_world_def)
qed

text \<open>C33: Identity comes from the token.  Every message a request leaves on the bus is a command that its
  consumer decodes, and the user in it is the one the bearer token of the request maps to - whatever the
  body claims - with a quantity between one and the maximum.\<close>

theorem gateway_identity:
  assumes "command_bus pub accepted" "serve (gateway pub q tokens) r w = (rw, w')"
  shows "\<exists>new. accepted w' = accepted w @ new \<and> length new \<le> 1 \<and> (\<forall>(k, s, p)\<in>set new.
    \<exists>user. caller tokens r = Some user \<and> user \<noteq> '''' \<and> user \<in> ran tokens
      \<and> ((s = SubjectReservationReserve \<and> (\<exists>cmd. decode_reserve p = Inr cmd \<and> rc_user_id cmd = user
            \<and> 1 \<le> rc_quantity cmd \<and> rc_quantity cmd \<le> q))
         \<or> (s = SubjectPaymentProcess \<and> (\<exists>req. decode_payment_process p = Inr req \<and> q_user_id req = user))))"
  by (rule serve_identity [OF assms])

definition gx_after :: "response \<times> broker world_scheme" where
  "gx_after = serve (gateway gx_pub 8 gx_tokens) (gx_request ''bearer pp-token-user-1'') gx_world"

lemma gx_sent: "map (fst \<circ> snd) (gx_log (snd gx_after)) = [SubjectReservationReserve]"
  by code_simp

lemma one_sent: "map (fst \<circ> snd) xs = [s] \<Longrightarrow> \<exists>k p. xs = [(k, s, p)]"
  by auto

theorem gateway_identity_witness:
  "\<exists>rw w' k p cmd. serve (gateway gx_pub 8 gx_tokens) (gx_request ''bearer pp-token-user-1'') gx_world = (rw, w')
    \<and> gx_log w' = [(k, SubjectReservationReserve, p)] \<and> decode_reserve p = Inr cmd
    \<and> rc_user_id cmd = ''user-1'' \<and> rc_quantity cmd \<le> 8"
proof -
  obtain rw w' where run: "serve (gateway gx_pub 8 gx_tokens) (gx_request ''bearer pp-token-user-1'') gx_world = (rw, w')"
    by fastforce
  with gx_sent have "map (fst \<circ> snd) (gx_log w') = [SubjectReservationReserve]" by (simp add: gx_after_def)
  from one_sent [OF this] obtain k p where kp: "gx_log w' = [(k, SubjectReservationReserve, p)]"
    by (elim exE)
  have start: "gx_log gx_world = []" by (simp add: gx_world_def)
  have other: "SubjectReservationReserve \<noteq> SubjectPaymentProcess"
    by (simp add: SubjectReservationReserve_def SubjectPaymentProcess_def)
  from gateway_identity [OF gx_bus run] start kp other show ?thesis using run by auto
qed

text \<open>C34: Every request gets one answer.  Whatever the request, the token table and the state of the bus,
  a handler writes one status, it is one of the nine of the interface, and the client, the span, the log
  line and both metrics all see that one.\<close>

theorem gateway_one_answer:
  assumes "command_bus pub accepted" "serve (gateway pub q tokens) r w = (rw, w')"
  shows "\<exists>c rid t u w2. c \<in> gateway_statuses \<and> rp_calls rw = [c] \<and> client_status rw = c \<and> meter w2 = meter w
    \<and> w' = observe_request r rid c t u w2"
  using command_bus.serve_observed [OF assms] by blast

theorem gateway_one_answer_witness:
  "\<exists>c rid t u w2. c \<in> gateway_statuses \<and> rp_calls (fst gx_after) = [c] \<and> meter w2 = []
    \<and> snd gx_after = observe_request (gx_request ''bearer pp-token-user-1'') rid c t u w2"
proof -
  obtain rw w' where run: "serve (gateway gx_pub 8 gx_tokens) (gx_request ''bearer pp-token-user-1'') gx_world = (rw, w')"
    by fastforce
  have start: "meter gx_world = []" by (simp add: gx_world_def)
  from gateway_one_answer [OF gx_bus run] start run show ?thesis by (auto simp: gx_after_def)
qed

section \<open>The messages between the services\<close>

text \<open>The payload a consumer gets of a message published through JetStream.\<close>

definition carried :: "(headers \<Rightarrow> headers) \<Rightarrow> message \<Rightarrow> payload" where
  "carried inject msg = m_payload (js_message (js_wire inject msg))"

lemma carried [simp]: "carried inject msg = m_payload msg"
  by (simp add: carried_def js_message_wire)

text \<open>C35: Every consumer reads back what the producer wrote.  Through the bus: the gateway's two commands,
  the reservation event with its amount, currency and deadline as the payment service stores them, and
  the reservation id in the events of the payment service and the sweeper.\<close>

theorem wire_roundtrip:
  assumes "int64 n" "TicketReservedPayload res = Inr j" "int64 (r_amount_cents res)"
    and "ReservationExpiredPayload x now = Inr jx" "m_payload ticket = Some j"
    and "m_payload outcome = Some (PaymentOutcomePayload pay ref reason)"
  shows "decode_reserve (carried inject (command_message r k SubjectReservationReserve key (reserve_body i ev u n)))
      = Inr \<lparr>rc_reservation_id = i, rc_event_id = ev, rc_user_id = u, rc_quantity = n\<rparr>
    \<and> decode_payment_process (carried inject (command_message r k SubjectPaymentProcess key (payment_body i u token)))
      = Inr \<lparr>q_reservation_id = i, q_user_id = u, q_token = token\<rparr>
    \<and> decode_ticket_reserved (carried inject ticket)
      = Inr \<lparr>c_reservation_id = r_id res, c_user_id = r_user_id res, c_amount_cents = r_amount_cents res,
          c_currency = r_currency res, c_expires_at = r_expires_at res\<rparr>
    \<and> reservationRef (carried inject outcome) = Inr (p_reservation_id pay)
    \<and> reservationRef (carried inject (expired_message x jx)) = Inr (x_reservation_id x)"
  using assms by (simp add: command_message_def expired_message_def decode_reserve_body decode_payment_body
      decode_TicketReserved ref_PaymentOutcome ref_ReservationExpired)

definition gx_reservation :: reservation where
  "gx_reservation = \<lparr>r_id = ''r-1'', r_event_id = ''event-1'', r_user_id = ''user-1'', r_status = PENDING,
     r_quantity = 2, r_amount_cents = 10000, r_currency = ''BRL'', r_expires_at = 1700000000123456789,
     r_confirmed_at = None, r_version = 0, r_created_at = 0, r_updated_at = 0\<rparr>"

lemma gx_deadline: "enc_time 1700000000123456789 = Inr (JStr ''2023-11-14T22:13:20.123456789Z'')"
  by code_simp

theorem wire_roundtrip_witness:
  "\<exists>j jx. TicketReservedPayload gx_reservation = Inr j
    \<and> ReservationExpiredPayload (expired_of gx_reservation) 1700000000123456789 = Inr jx
    \<and> decode_ticket_reserved (carried (\<lambda>h. h) (expired_message (expired_of gx_reservation) j))
        = Inr \<lparr>c_reservation_id = ''r-1'', c_user_id = ''user-1'', c_amount_cents = 10000, c_currency = ''BRL'',
            c_expires_at = 1700000000123456789\<rparr>
    \<and> reservationRef (carried (\<lambda>h. h) (expired_message (expired_of gx_reservation) jx)) = Inr ''r-1''"
proof -
  obtain j where j: "TicketReservedPayload gx_reservation = Inr j"
    by (simp add: TicketReservedPayload_def gx_reservation_def gx_deadline)
  obtain jx where jx: "ReservationExpiredPayload (expired_of gx_reservation) 1700000000123456789 = Inr jx"
    by (simp add: ReservationExpiredPayload_def gx_deadline)
  let ?m = "expired_message (expired_of gx_reservation)"
  have n: "int64 2" "int64 (r_amount_cents gx_reservation)" by (simp_all add: int64_def gx_reservation_def)
  have t: "m_payload (?m j) = Some j"
    and o: "m_payload (?m (PaymentOutcomePayload pay [] [])) = Some (PaymentOutcomePayload pay [] [])" for pay
    by (simp_all add: expired_message_def)
  from wire_roundtrip [OF n(1) j n(2) jx t o] j jx show ?thesis
    by (auto simp: gx_reservation_def expired_of_def)
qed

end
