(* ===== verification/Redelivery.thy ===== *)
theory Redelivery
  imports Core_Subscribers Core_Example
begin

text \<open>
  The redelivery budget: how often and how long a failing message is retried before it is given up, for
  any handler, and for a handler that fails until some moment.
\<close>

section \<open>The budget\<close>

text \<open>The time that passes before the delivery that follows \<open>n\<close> failed ones, the first being the \<open>k\<close>-th.\<close>

definition waited :: "nat \<Rightarrow> nat \<Rightarrow> duration" where
  "waited k n = sum_list (map redeliveryDelay [k..<k + n])"

lemma waited_0 [simp]: "waited k 0 = 0"
  by (simp add: waited_def)

lemma waited_Suc: "waited k (Suc n) = redeliveryDelay k + waited (Suc k) n"
  by (simp add: waited_def upt_conv_Cons del: upt_Suc)

lemma waited_nonneg: "0 \<le> waited k n"
  by (induction n arbitrary: k) (auto simp: waited_Suc redeliveryDelay_def duration_defs)

lemma waited_mono: "n \<le> n' \<Longrightarrow> waited k n \<le> waited k n'"
proof (induction n arbitrary: k n')
  case (Suc n)
  then obtain n'' where "n' = Suc n''" "n \<le> n''" by (cases n') auto
  with Suc.IH show ?case by (simp add: waited_Suc)
qed (simp add: waited_nonneg)

lemma waited_budget: "waited 1 9 = 11850 * millisecond"
  by (simp add: waited_def redeliveryDelay_def duration_defs upt_conv_Cons)

text \<open>
  Whatever the handler does, the verdicts of a message are some failures and then, if the budget is not
  used up, an acknowledgement; the pauses in between are those of the failed attempts.
\<close>

definition retried :: "nat \<Rightarrow> nat \<Rightarrow> verdict list" where
  "retried k n = map (\<lambda>i. NakWithDelay (redeliveryDelay i)) [k..<k + n]"

lemma retried_0 [simp]: "retried k 0 = []"
  by (simp add: retried_def)

lemma retried_Suc: "retried k (Suc n) = NakWithDelay (redeliveryDelay k) # retried (Suc k) n"
  by (simp add: retried_def upt_conv_Cons del: upt_Suc)

lemma retried_length [simp]: "length (retried k n) = n"
  by (simp add: retried_def)

lemma retried_pauses: "sum_list (map pause_of (retried k n)) = waited k n"
  by (simp add: retried_def waited_def comp_def)

lemma retried_no_ack: "Ack \<notin> set (retried k n)"
  by (auto simp: retried_def)

lemma js_handle_delay:
  "js_handle h (m\<lparr>n_delivered := Some k\<rparr>) s = (NakWithDelay d, s1) \<Longrightarrow> d = redeliveryDelay k"
  by (auto simp: js_handle_def split: prod.splits sum.splits)

lemma deliveries_shape:
  assumes "deliveries h meanwhile n k m s = (vs, s')"
  shows "vs = retried k n \<or> (\<exists>j < n. vs = retried k j @ [Ack])"
  using assms
proof (induction n arbitrary: k s vs s')
  case (Suc n)
  obtain v s1 where v: "js_handle h (m\<lparr>n_delivered := Some k\<rparr>) s = (v, s1)" by fastforce
  show ?case
  proof (cases v)
    case Ack
    with Suc.prems v have "vs = retried k 0 @ [Ack]" by simp
    then show ?thesis by blast
  next
    case (NakWithDelay d)
    obtain ws s2 where ws: "deliveries h meanwhile n (Suc k) m (meanwhile d s1) = (ws, s2)" by fastforce
    from Suc.prems v NakWithDelay ws have "vs = NakWithDelay d # ws" by simp
    with js_handle_delay [of h k m s d s1] v NakWithDelay Suc.IH [OF ws] show ?thesis
      by (auto simp: retried_Suc intro: exI [of _ "Suc _"])
  qed
qed simp

lemma redelivery_pause: "0 \<le> redeliveryDelay k \<and> redeliveryDelay k \<le> 2 * second"
  by (simp add: redeliveryDelay_def duration_defs)

text \<open>
  A handler that fails before some moment and leaves things as they are, and succeeds from then on, is
  retried until that moment if the budget lasts.
\<close>

lemma deliveries_until:
  assumes fails: "\<And>s. I s \<Longrightarrow> clock s < T \<Longrightarrow> \<exists>e s1. h (js_message m) s = (Inl e, s1) \<and> I s1 \<and> clock s1 = clock s"
    and works: "\<And>s. I s \<Longrightarrow> T \<le> clock s \<Longrightarrow> \<exists>s1. h (js_message m) s = (Inr (), s1) \<and> Q s1"
    and pass: "\<And>d s. I s \<Longrightarrow> clock s < T \<Longrightarrow> 0 \<le> d \<and> d \<le> 2 * second \<Longrightarrow> I (meanwhile d s) \<and> clock (meanwhile d s) = clock s + d"
    and run: "I s" "deliveries h meanwhile (Suc n) k m s = (vs, s')"
  shows "if T \<le> clock s + waited k n then Ack \<in> set vs \<and> Q s' else Ack \<notin> set vs \<and> length vs = Suc n \<and> I s'"
  using run
proof (induction n arbitrary: k s vs)
  case 0
  show ?case
  proof (cases "T \<le> clock s")
    case True
    with works [OF 0(1)] 0(2) show ?thesis by (auto simp: js_handle_def js_message_def split: prod.splits)
  next
    case False
    with fails [OF 0(1)] obtain e s1 where e: "h (js_message m) s = (Inl e, s1)" "I s1" "clock s1 = clock s"
      by fastforce
    with False have "clock s1 < T" by simp
    with e 0(2) pass [OF e(2) this redelivery_pause, of k] False show ?thesis
      by (auto simp: js_handle_def js_message_def)
  qed
next
  case (Suc n)
  show ?case
  proof (cases "T \<le> clock s")
    case True
    then have "T \<le> clock s + waited k (Suc n)" using waited_nonneg [of k "Suc n"] by linarith
    with True works [OF Suc.prems(1)] Suc.prems(2) show ?thesis
      by (auto simp: js_handle_def js_message_def split: prod.splits)
  next
    case False
    with fails [OF Suc.prems(1)] obtain e s1 where e: "h (js_message m) s = (Inl e, s1)" "I s1" "clock s1 = clock s"
      by fastforce
    then have v: "js_handle h (m\<lparr>n_delivered := Some k\<rparr>) s = (NakWithDelay (redeliveryDelay k), s1)"
      by (simp add: js_handle_def js_message_def)
    obtain ws s2 where ws: "deliveries h meanwhile (Suc n) (Suc k) m (meanwhile (redeliveryDelay k) s1) = (ws, s2)"
      by fastforce
    have vs: "vs = NakWithDelay (redeliveryDelay k) # ws" "s' = s2"
      using Suc.prems(2) v ws by (subst (asm) deliveries.simps(2), simp)+
    from False e(3) have "clock s1 < T" by simp
    note p = pass [OF e(2) this redelivery_pause, of k]
    from Suc.IH [OF conjunct1 [OF p] ws [folded vs(2)]] p e(3) show ?thesis
      by (simp add: vs(1) waited_Suc add.assoc split: if_splits)
  qed
qed

end
