(* ===== verification/Redelivery_Properties.thy ===== *)
theory Redelivery_Properties
  imports Redelivery
begin

text \<open>
  The properties of redelivery: the budget of any handler under the configuration of the services, and
  the fate of a reserve command that arrives before the sale opens.
\<close>

section \<open>Any handler\<close>

text \<open>C36: Every message is settled within the budget.  Under the configuration every service connects with,
  whatever the handler and whatever happens between the attempts, a message is handled at most ten times:
  it fails some times and is then acknowledged, or fails all ten; and the pauses before its last delivery
  add up to at most 11.85 seconds.\<close>

theorem redelivery_budget:
  assumes "js_defaults (broker_config url name) = Inr cfg"
    and "deliveries h meanwhile (nat (cfg_max_deliver cfg)) 1 m s = (vs, s')"
  shows "((\<exists>j < 10. vs = retried 1 j @ [Ack]) \<or> vs = retried 1 10)
    \<and> sum_list (map pause_of (butlast vs)) \<le> 11850 * millisecond"
proof (intro conjI)
  have "cfg_max_deliver cfg = 10"
    using assms(1) by (auto simp: js_defaults_def broker_config_def Streams_def)
  then show shape: "(\<exists>j < 10. vs = retried 1 j @ [Ack]) \<or> vs = retried 1 10"
    using deliveries_shape [OF assms(2)] by auto
  have "retried 1 10 = retried 1 9 @ [NakWithDelay (2 * second)]"
    by (simp add: retried_def redeliveryDelay_def upt_conv_Cons)
  with shape obtain j where "butlast vs = retried 1 j" "j \<le> 9"
    by (auto simp: less_Suc_eq_le numeral_eq_Suc)
  then show "sum_list (map pause_of (butlast vs)) \<le> 11850 * millisecond"
    using waited_mono [of j 9 1] waited_budget by (simp add: retried_pauses)
qed

definition ey_message :: nats_msg where
  "ey_message = \<lparr>n_subject = SubjectReservationReserve,
     n_data = Some (JObj [(''reservation_id'', JStr ex_res_id), (''event_id'', JStr ex_event_id),
       (''user_id'', JStr ''user-1''), (''quantity'', JInt 2)]),
     n_header = Map.empty, n_delivered = None\<rparr>"

theorem redelivery_budget_witness:
  "\<exists>cfg vs s'. js_defaults (broker_config ''nats://localhost:4222'' ''pulsar-core'') = Inr cfg
    \<and> deliveries (\<lambda>m (n :: nat). (if n < 3 then Inl (Plain ''busy'') else Inr (), Suc n)) (\<lambda>d n. n)
        (nat (cfg_max_deliver cfg)) 1 ey_message 0 = (vs, s')
    \<and> length vs = 4 \<and> sum_list (map pause_of (butlast vs)) \<le> 11850 * millisecond"
proof -
  let ?h = "\<lambda>m (n :: nat). (if n < 3 then Inl (Plain ''busy'') else Inr (), Suc n)"
  obtain cfg where cfg: "js_defaults (broker_config ''nats://localhost:4222'' ''pulsar-core'') = Inr cfg"
    by (simp add: js_defaults_def broker_config_def Streams_def)
  then have "nat (cfg_max_deliver cfg) = 10"
    by (auto simp: js_defaults_def broker_config_def Streams_def)
  moreover obtain vs s' where run: "deliveries ?h (\<lambda>d n. n) (nat (cfg_max_deliver cfg)) 1 ey_message 0 = (vs, s')"
    by fastforce
  ultimately have "length vs = 4" by (auto simp: js_handle_def numeral_eq_Suc)
  with redelivery_budget [OF cfg run] cfg run show ?thesis by blast
qed

section \<open>A command that comes too early\<close>

text \<open>Time passes between the deliveries, and nothing else happens.\<close>

definition later :: "duration \<Rightarrow> ('d, 'm) pg_world_scheme \<Rightarrow> ('d, 'm) pg_world_scheme" where
  "later d w = w\<lparr>wall := wall w + d, pg_clock := pg_clock w + d\<rparr>"

lemma later_simps [simp]:
  "wall (later d w) = wall w + d" "db (later d w) = db w" "tx (later d w) = tx w" "faults (later d w) = faults w"
  "rng (later d w) = rng w" "rng_pos (later d w) = rng_pos w"
  by (simp_all add: later_def)

lemma fresh_id_kept [simp]: "fresh_id d (later t w) = fresh_id d w" "fresh_id d (count c w) = fresh_id d w"
  by (simp_all add: fresh_id_def uid_New_def)

text \<open>Any instant of the first years after the epoch can be encoded.\<close>

lemma enc_time_ok:
  assumes "0 \<le> t" "t \<le> 250000000000000000000"
  shows "\<exists>j. enc_time t = Inr j"
proof -
  obtain y yd where y: "year_yday (t div 1000000000 div 86400 + 719162) = (y, yd)" by fastforce
  note d = days_year_yday [OF y]
  have n: "719162 \<le> t div 1000000000 div 86400 + 719162" "t div 1000000000 div 86400 + 719162 \<le> 3612680"
    using assms(1) zdiv_mono1 [OF zdiv_mono1 [OF assms(2), of 1000000000], of 86400] by simp_all
  define p A B C where "p = y - 1" and "A = p div 4" and "B = p div 100" and "C = p div 400"
  then have b: "days_before_year y = 365 * p + A - B + C"
    by (simp add: days_before_year_def Let_def)
  define day where "day = t div 1000000000 div 86400 + 719162"
  note eq = d [folded day_def] and bound = n [folded day_def]
  have "0 \<le> y"
  proof (rule ccontr)
    assume "\<not> 0 \<le> y"
    then have p: "p < 0" by (simp add: p_def)
    have "A \<le> B" unfolding A_def B_def by (rule zdiv_mono2_neg [OF p]) simp_all
    moreover have "C \<le> 0" unfolding C_def by (rule div_nonpos_pos_le0 [OF less_imp_le [OF p]]) simp
    moreover have "yd < 366" using d(3) by (simp split: if_splits)
    ultimately show False using b bound(1) eq(1) p by linarith
  qed
  moreover have "y \<le> 9999"
  proof (rule ccontr)
    assume "\<not> y \<le> 9999"
    then have p: "9999 \<le> p" by (simp add: p_def)
    then have p0: "0 \<le> p" by simp
    have "B \<le> A" unfolding A_def B_def by (rule zdiv_mono2 [OF p0]) simp_all
    moreover have "0 \<le> C" unfolding C_def by (subst pos_imp_zdiv_nonneg_iff) (use p0 in simp_all)
    ultimately show False using b bound(2) eq(1,2) p by linarith
  qed
  ultimately show ?thesis by (simp add: enc_time_def year_of_def y)
qed

lemma acceptable_later:
  assumes "acceptable d t ttl v cmd" "t \<le> now" "0 \<le> now + ttl" "now + ttl \<le> 250000000000000000000"
  shows "acceptable d now ttl v cmd"
proof -
  have "\<exists>j. enc_time (time_add now ttl) = Inr j"
    unfolding time_add_def by (rule enc_time_ok [OF assms(3,4)])
  moreover have "SaleIsOpen now e" if "SaleIsOpen t e" for e
    using that assms(2) by (simp add: SaleIsOpen_def time_before_def)
  ultimately show ?thesis
    using assms(1) unfolding acceptable_def by (auto split: option.split_asm)
qed

lemma early_rejection:
  assumes "acceptable d (e_sale_opens_at e) ttl v cmd" "uuid_in (rc_event_id cmd) = Some k" "find_event d k = Some e"
    and "now < e_sale_opens_at e"
  shows "rejection d now v cmd = Some ErrSaleNotOpen"
proof -
  obtain i where i: "uuid_in (rc_reservation_id cmd) = Some i" "find_reservation d i = None"
    using assms(1) unfolding acceptable_def by (auto split: option.split_asm)
  then have "rc_reservation_id cmd \<noteq> ''''" "rc_event_id cmd \<noteq> ''''" using assms(2) by auto
  moreover have "0 < rc_quantity cmd" "rc_user_id cmd \<noteq> ''''" "v (rc_reservation_id cmd)"
    using assms(1) unfolding acceptable_def by simp_all
  moreover have "\<not> SaleIsOpen now e" using assms(4) by (simp add: SaleIsOpen_def time_before_def)
  ultimately show ?thesis using i assms(2,3) by (simp add: rejection_def)
qed

text \<open>The state in which the command waits.\<close>

definition waiting :: "core_db \<Rightarrow> 'm core_world \<Rightarrow> bool" where
  "waiting d w \<longleftrightarrow> faults w = [] \<and> tx w = NoTx \<and> db w = d \<and> fresh_id d w"

lemma early_attempt:
  assumes "waiting d w" "decode_reserve (m_payload msg) = Inr cmd" "rejection d (wall w) v cmd = Some ErrSaleNotOpen"
  shows "\<exists>e w1. onReserve (core_service ttl None v) msg w = (Inl e, w1) \<and> waiting d w1 \<and> wall w1 = wall w"
proof -
  have "Reserve (core_service ttl None v) cmd w = (Inl (Sentinel ErrSaleNotOpen), w)"
    using assms by (intro Reserve_rejects) (simp_all add: waiting_def)
  with assms show ?thesis
    by (simp add: onReserve_def onResult_def terminalReserveRejection_def waiting_def)
qed

lemma ready_attempt:
  assumes "waiting d w" "core_inv d" "decode_reserve (m_payload msg) = Inr cmd" "acceptable d (wall w) ttl v cmd"
  shows "\<exists>w1. onReserve (core_service ttl None v) msg w = (Inr (), w1) \<and> (\<exists>e r b. books d e r b (db w1))"
proof -
  have w: "faults w = []" "tx w = NoTx" "core_inv (db w)" "fresh_id (db w) w" "acceptable (db w) (wall w) ttl v cmd"
    using assms by (simp_all add: waiting_def)
  from Reserve_accepts [OF w] obtain res w' where "Reserve (core_service ttl None v) cmd w = (Inr res, w')"
    "\<exists>e r b. books (db w) e r b (db w')" by blast
  with assms(1,3) show ?thesis
    by (auto simp: onReserve_def onResult_def waiting_def)
qed

text \<open>C37: A command that arrives before the sale waits for it, for 11.85 seconds.  If the tables have room for
  it, every attempt before the opening fails and changes nothing; when the sale opens within the budget
  the command is booked and acknowledged, otherwise it fails all ten deliveries and nothing is booked
  (the comment in the code promises a tolerance of roughly 14 seconds).\<close>

theorem early_reserve_waits:
  assumes "faults w = []" "tx w = NoTx" "core_inv (db w)" "fresh_id (db w) w"
    and "decode_reserve (n_data m) = Inr cmd" "uuid_in (rc_event_id cmd) = Some k" "find_event (db w) k = Some e"
    and "acceptable (db w) (e_sale_opens_at e) ttl v cmd"
    and "0 \<le> wall w" "0 \<le> ttl" "max (wall w) (e_sale_opens_at e) + 2 * second + ttl \<le> 250000000000000000000"
    and "deliveries (onReserve (core_service ttl None v)) later 10 1 m w = (vs, w')"
  shows "if e_sale_opens_at e \<le> wall w + 11850 * millisecond
    then Ack \<in> set vs \<and> (\<exists>e r b. books (db w) e r b (db w'))
    else Ack \<notin> set vs \<and> length vs = 10 \<and> db w' = db w"
proof -
  let ?T = "e_sale_opens_at e" and ?d = "db w" and ?h = "onReserve (core_service ttl None v)"
  let ?I = "\<lambda>s. waiting ?d s \<and> 0 \<le> wall s \<and> wall s + ttl \<le> 250000000000000000000"
  have m: "m_payload (js_message m) = n_data m" by (simp add: js_message_def)
  have inv: "core_inv ?d" by (rule assms(3))
  have start: "?I w" using assms by (simp add: waiting_def duration_defs max_def split: if_splits)
  have "if ?T \<le> wall w + waited 1 9 then Ack \<in> set vs \<and> (\<exists>e r b. books ?d e r b (db w'))
    else Ack \<notin> set vs \<and> length vs = Suc 9 \<and> ?I w'"
  proof (rule deliveries_until [where h = ?h and clock = wall and meanwhile = later and m = m])
    fix s :: "'a core_world" assume s: "?I s" "wall s < ?T"
    show "\<exists>e s1. ?h (js_message m) s = (Inl e, s1) \<and> ?I s1 \<and> wall s1 = wall s"
      using early_attempt [OF conjunct1 [OF s(1)], of "js_message m" cmd v ttl]
        early_rejection [OF assms(8,6,7) s(2)] assms(5) s(1) m by auto
  next
    fix s :: "'a core_world" assume s: "?I s" "?T \<le> wall s"
    have "acceptable ?d (wall s) ttl v cmd"
      using acceptable_later [OF assms(8) s(2)] s(1) assms(10) by simp
    with ready_attempt [OF conjunct1 [OF s(1)] inv, of "js_message m" cmd ttl v] assms(5) m
    show "\<exists>s1. ?h (js_message m) s = (Inr (), s1) \<and> (\<exists>e r b. books ?d e r b (db s1))" by auto
  next
    fix s :: "'a core_world" and d assume s: "?I s" "wall s < ?T" "0 \<le> d \<and> d \<le> 2 * second"
    show "?I (later d s) \<and> wall (later d s) = wall s + d"
    proof -
      have "wall s + d + ttl \<le> 250000000000000000000" using s(2,3) assms(11) by linarith
      with s show ?thesis by (simp add: waiting_def)
    qed
  next
    show "?I w" by (rule start)
    show "deliveries ?h later (Suc 9) 1 m w = (vs, w')" using assms(12) by simp
  qed
  then show ?thesis by (simp only: waited_budget waiting_def split: if_splits) simp_all
qed

text \<open>A sale that opens a number of seconds after the first delivery.\<close>

definition ey_event :: "int \<Rightarrow> event" where
  "ey_event n = (ex_event 0)\<lparr>e_sale_opens_at := ex_now + n * second\<rparr>"

definition ey_open :: "int \<Rightarrow> core_db" where
  "ey_open n = \<lparr>t_outbox = [], t_events = [ey_event n], t_reservations = []\<rparr>"

lemma ey_inv: "core_inv (ey_open n)"
  using ex_open_inv
  by (simp add: core_inv_def ey_open_def ey_event_def ex_open_def wf_core_def ledger_def balanced_def counts_valid_def
      units_def outbox_agrees_def trail_def find_reservation_def wf_event_def)

lemma ey_fresh: "fresh_id (ey_open n) (ex_world d now)"
  using ex_fresh(1) [of d now] by (simp add: fresh_id_def ey_open_def ex_open_def)

lemma ey_command: "decode_reserve (n_data ey_message) = Inr ex_command"
  using decode_reserve_object [of 2] by (simp add: ey_message_def ex_command_def int64_def)

lemma ey_acceptable:
  assumes "0 \<le> n" "n \<le> 60"
  shows "acceptable (ey_open n) (ex_now + n * second) (15 * minute) ex_valid ex_command"
proof -
  have "\<exists>j. enc_time (time_add (ex_now + n * second) (15 * minute)) = Inr j"
    using assms unfolding time_add_def by (intro enc_time_ok) (simp_all add: ex_now_def duration_defs)
  moreover have "text_ok ex_res_id" by (simp add: text_ok_def ex_res_id_def)
  ultimately show ?thesis
    by (simp add: acceptable_def ex_command_def ex_valid_def find_reservation_def find_event_def ey_open_def ey_event_def
        SaleIsOpen_def time_before_def text_ok_def) (simp add: ex_event_def)
qed

lemma ey_bounds:
  "0 \<le> n \<Longrightarrow> n \<le> 60 \<Longrightarrow> max ex_now (ex_now + n * second) + 2 * second + 15 * minute \<le> 250000000000000000000"
  by (simp add: ex_now_def duration_defs)

theorem early_reserve_waits_witness:
  "(\<exists>vs w'. deliveries (onReserve (core_service (15 * minute) None ex_valid)) later 10 1 ey_message
      (ex_world (ey_open 3) ex_now) = (vs, w') \<and> Ack \<in> set vs)
   \<and> (\<exists>vs w'. deliveries (onReserve (core_service (15 * minute) None ex_valid)) later 10 1 ey_message
      (ex_world (ey_open 13) ex_now) = (vs, w') \<and> Ack \<notin> set vs \<and> t_reservations (db w') = [])"
proof -
  have ev: "find_event (ey_open n) ex_event_id = Some (ey_event n)" "e_sale_opens_at (ey_event n) = ex_now + n * second" for n
    by (simp_all add: find_event_def ey_open_def ey_event_def ex_event_def)
  have claim: "if n * second \<le> 11850 * millisecond then Ack \<in> set vs \<and> (\<exists>e r b. books (ey_open n) e r b (db w'))
      else Ack \<notin> set vs \<and> length vs = 10 \<and> db w' = ey_open n"
    if "0 \<le> n" "n \<le> 60" "deliveries (onReserve (core_service (15 * minute) None ex_valid)) later 10 1 ey_message
      (ex_world (ey_open n) ex_now) = (vs, w')" for n vs w'
    using early_reserve_waits [where w = "ex_world (ey_open n) ex_now" and m = ey_message and cmd = ex_command
        and k = ex_event_id and e = "ey_event n" and ttl = "15 * minute" and v = ex_valid and vs = vs and w' = w']
      ey_inv [of n] ey_fresh [of n] ey_command ev [of n] ey_acceptable [of n] ey_bounds [of n] that
    by (simp add: ex_command_def ex_now_def duration_defs split: if_splits)
  obtain vs w' where a: "deliveries (onReserve (core_service (15 * minute) None ex_valid)) later 10 1 ey_message
      (ex_world (ey_open 3) ex_now) = (vs, w')" by fastforce
  obtain us u' where b: "deliveries (onReserve (core_service (15 * minute) None ex_valid)) later 10 1 ey_message
      (ex_world (ey_open 13) ex_now) = (us, u')" by fastforce
  from claim [OF _ _ a] claim [OF _ _ b] a b show ?thesis
    by (auto simp: duration_defs ey_open_def)
qed

end
