(* ===== verification/Telemetry.thy ===== *)
theory Telemetry
  imports Config Http
begin

text \<open>
  The packages every service starts with: the life cycle of the observability providers
  (\<open>pkg/metrics\<close>), the health server (\<open>pkg/health\<close>) and the connection pool (\<open>pkg/pgpool\<close>).  The answers of
  the OpenTelemetry SDK and of pgx are parameters; a provider is a number.
\<close>

section \<open>Settings of the tracer\<close>

definition OTLPEndpointEnv :: string where "OTLPEndpointEnv = ''OTEL_EXPORTER_OTLP_ENDPOINT''"
definition OTLPSampleRatioEnv :: string where "OTLPSampleRatioEnv = ''OTEL_TRACE_SAMPLE_RATIO''"

text \<open>\<open>parse\<close> reads a float, \<open>ratio\<close> says whether it is between 0 and 1 (NaN is not), \<open>one\<close> is 1.\<close>

definition samplingRatio :: "(string \<Rightarrow> 'f option) \<Rightarrow> ('f \<Rightarrow> bool) \<Rightarrow> 'f \<Rightarrow> env \<Rightarrow> err + 'f" where
  "samplingRatio parse ratio one env =
     (let raw = Getenv env OTLPSampleRatioEnv;
          bad = Inl (Plain (''invalid '' @ OTLPSampleRatioEnv @ '' '' @ go_quote raw
                  @ '': expected a number between 0 and 1''))
      in if raw = '''' then Inr one
         else case parse raw of None \<Rightarrow> bad | Some f \<Rightarrow> if \<not> ratio f then bad else Inr f)"

fun strip_first :: "string list \<Rightarrow> string \<Rightarrow> string" where
  "strip_first [] endpoint = endpoint"
| "strip_first (prefix # prefixes) endpoint =
     (case cut_prefix endpoint prefix of (trimmed, found) \<Rightarrow>
        if found then trimmed else strip_first prefixes endpoint)"

definition stripEndpointScheme :: "string \<Rightarrow> string" where
  "stripEndpointScheme endpoint = strip_first [''http://'', ''https://''] endpoint"

section \<open>Providers\<close>

text \<open>
  The global state: the providers that \<open>Shutdown\<close> would stop, the installed meter and tracer provider
  (\<open>None\<close> is the no-op), the collector of the last tracer, the providers that were created and not
  stopped, the registered resets and the resets that ran.
\<close>

type_synonym providers = "nat \<times> nat option"

record telemetry =
  te_shutdown :: "providers option"
  te_meter :: "nat option"
  te_tracer :: "nat option"
  te_endpoint :: string
  te_propagator :: bool
  te_live :: "nat list"
  te_next :: nat
  te_hooks :: "string list"
  te_resets :: "string list"

definition new_provider :: "telemetry \<Rightarrow> nat \<times> telemetry" where
  "new_provider t = (te_next t, t\<lparr>te_next := Suc (te_next t), te_live := te_live t @ [te_next t]\<rparr>)"

definition stop_provider :: "nat \<Rightarrow> telemetry \<Rightarrow> telemetry" where
  "stop_provider p t = t\<lparr>te_live := removeAll p (te_live t)\<rparr>"

text \<open>What the closure returned by \<open>Init\<close> does: the tracer first, then the meter.\<close>

definition stop_providers :: "providers \<Rightarrow> telemetry \<Rightarrow> telemetry" where
  "stop_providers ps t =
     stop_provider (fst ps) (case snd ps of None \<Rightarrow> t | Some q \<Rightarrow> stop_provider q t)"

record init_answers =
  ia_exporter :: "err option"
  ia_resource :: "err option"
  ia_otlp :: "err option"
  ia_runtime :: "err option"

definition ErrAlreadyInitialized :: err where
  "ErrAlreadyInitialized = Plain ''metrics already initialized in this process''"

definition initTraces :: "init_answers \<Rightarrow> string \<Rightarrow> telemetry \<Rightarrow> (err + nat) \<times> telemetry" where
  "initTraces a endpoint t =
     (case ia_otlp a of
        Some e \<Rightarrow> (Inl (Wrapped ''create otlp trace exporter: '' e ''''), t)
      | None \<Rightarrow> (case new_provider t of (q, t1) \<Rightarrow>
          (Inr q, t1\<lparr>te_tracer := Some q, te_endpoint := stripEndpointScheme endpoint\<rparr>)))"

text \<open>The tracer part of \<open>Init\<close>: without an endpoint the no-op tracer is installed.\<close>

definition init_tracer ::
  "(string \<Rightarrow> 'f option) \<Rightarrow> ('f \<Rightarrow> bool) \<Rightarrow> 'f \<Rightarrow> env \<Rightarrow> init_answers \<Rightarrow> telemetry \<Rightarrow>
     (err + nat option) \<times> telemetry" where
  "init_tracer parse ratio one env a t =
     (let ep = Getenv env OTLPEndpointEnv in
      if ep = '''' then (Inr None, t\<lparr>te_tracer := None\<rparr>)
      else case samplingRatio parse ratio one env of
             Inl e \<Rightarrow> (Inl e, t)
           | Inr r \<Rightarrow> (case initTraces a ep t of (Inl e, t1) \<Rightarrow> (Inl e, t1) | (Inr q, t1) \<Rightarrow> (Inr (Some q), t1)))"

definition metrics_Init ::
  "(string \<Rightarrow> 'f option) \<Rightarrow> ('f \<Rightarrow> bool) \<Rightarrow> 'f \<Rightarrow> env \<Rightarrow> init_answers \<Rightarrow> telemetry \<Rightarrow>
     (err + providers) \<times> telemetry" where
  "metrics_Init parse ratio one env a t =
     (if te_shutdown t \<noteq> None then (Inl ErrAlreadyInitialized, t)
      else case ia_exporter a of
        Some e \<Rightarrow> (Inl (Wrapped ''create prometheus exporter: '' e ''''), t)
      | None \<Rightarrow> (case ia_resource a of
        Some e \<Rightarrow> (Inl (Wrapped ''build resource: '' e ''''), t)
      | None \<Rightarrow>
          (case new_provider t of (p, t1) \<Rightarrow>
           case init_tracer parse ratio one env a (t1\<lparr>te_meter := Some p\<rparr>) of
             (Inl e, t2) \<Rightarrow> (Inl e, (stop_provider p t2)\<lparr>te_meter := None\<rparr>)
           | (Inr tracer, t2) \<Rightarrow>
               let t3 = t2\<lparr>te_propagator := True\<rparr> in
               (case ia_runtime a of
                  Some e \<Rightarrow> (Inl (Wrapped ''start runtime instrumentation: '' e ''''),
                    (stop_providers (p, tracer) t3)\<lparr>te_meter := None, te_tracer := None\<rparr>)
                | None \<Rightarrow> (Inr (p, tracer), t3\<lparr>te_shutdown := Some (p, tracer)\<rparr>)))))"

definition OnShutdown :: "string \<Rightarrow> telemetry \<Rightarrow> telemetry" where
  "OnShutdown reset t = t\<lparr>te_hooks := te_hooks t @ [reset]\<rparr>"

definition runRebindHooks :: "telemetry \<Rightarrow> telemetry" where
  "runRebindHooks t = t\<lparr>te_resets := te_resets t @ te_hooks t\<rparr>"

text \<open>
  \<open>Shutdown\<close> takes the closure under the mutex; then, without it, it reads the list of the resets, runs them
  one by one, and stops the tracer and the meter.  What is left to do is a job, and a step of a job can be
  followed by anything else.  A closure returned by \<open>Init\<close> is the last part alone.
\<close>

definition take_shutdown :: "telemetry \<Rightarrow> providers option \<times> telemetry" where
  "take_shutdown t = (te_shutdown t, t\<lparr>te_shutdown := None\<rparr>)"

datatype shutdown_job =
    Taken "providers option"
  | Resetting "string list" "providers option"
  | Stopping providers

fun shutdown_step :: "shutdown_job \<Rightarrow> telemetry \<Rightarrow> shutdown_job option \<times> telemetry" where
  "shutdown_step (Taken sd) t = (Some (Resetting (te_hooks t) sd), t)"
| "shutdown_step (Resetting (hook # hooks) sd) t =
     (Some (Resetting hooks sd), t\<lparr>te_resets := te_resets t @ [hook]\<rparr>)"
| "shutdown_step (Resetting [] None) t = (None, t)"
| "shutdown_step (Resetting [] (Some ps)) t = (Some (Stopping ps), t)"
| "shutdown_step (Stopping (p, Some q)) t = (Some (Stopping (p, None)), stop_provider q t)"
| "shutdown_step (Stopping (p, None)) t = (None, stop_provider p t)"

text \<open>A job that nothing interrupts, and so a whole \<open>Shutdown\<close>.\<close>

fun job_size :: "shutdown_job \<Rightarrow> telemetry \<Rightarrow> nat" where
  "job_size (Taken sd) t = length (te_hooks t) + 4"
| "job_size (Resetting hooks sd) t = length hooks + 3"
| "job_size (Stopping (p, q)) t = (case q of None \<Rightarrow> 1 | Some _ \<Rightarrow> 2)"

function finish_job :: "shutdown_job \<Rightarrow> telemetry \<Rightarrow> telemetry" where
  "finish_job j t = (case shutdown_step j t of (None, t') \<Rightarrow> t' | (Some j', t') \<Rightarrow> finish_job j' t')"
  by auto

lemma shutdown_step_size: "shutdown_step j t = (Some j', t') \<Longrightarrow> job_size j' t' < job_size j t"
  by (cases "(j, t)" rule: shutdown_step.cases) (auto split: option.split)

termination finish_job
  by (relation "measure (\<lambda>(j, t). job_size j t)") (auto dest: shutdown_step_size [OF sym])

declare finish_job.simps [simp del]

definition metrics_Shutdown :: "telemetry \<Rightarrow> telemetry" where
  "metrics_Shutdown t = (case take_shutdown t of (sd, t1) \<Rightarrow> finish_job (Taken sd) t1)"

text \<open>A process uses the package in any order, and what is under way can be in several of its goroutines; the
  closures it has been given can be called at any time.  \<open>Init\<close> holds the mutex throughout, and the steps
  of other jobs that could fall inside it concern other providers, so it is one step.\<close>

definition fresh_telemetry :: telemetry where
  "fresh_telemetry = \<lparr>te_shutdown = None, te_meter = None, te_tracer = None, te_endpoint = '''',
     te_propagator = False, te_live = [], te_next = 0, te_hooks = [], te_resets = []\<rparr>"

inductive telemetry_reachable ::
  "(string \<Rightarrow> 'f option) \<Rightarrow> ('f \<Rightarrow> bool) \<Rightarrow> 'f \<Rightarrow> telemetry \<Rightarrow> shutdown_job list \<Rightarrow> bool"
  for parse :: "string \<Rightarrow> 'f option" and ratio :: "'f \<Rightarrow> bool" and one :: 'f where
  start: "telemetry_reachable parse ratio one fresh_telemetry []"
| init: "telemetry_reachable parse ratio one t jobs \<Longrightarrow> metrics_Init parse ratio one env a t = (r, t') \<Longrightarrow>
    telemetry_reachable parse ratio one t' jobs"
| hook: "telemetry_reachable parse ratio one t jobs \<Longrightarrow> telemetry_reachable parse ratio one (OnShutdown reset t) jobs"
| closure: "telemetry_reachable parse ratio one t jobs \<Longrightarrow> telemetry_reachable parse ratio one t (Stopping ps # jobs)"
| shutdown: "telemetry_reachable parse ratio one t jobs \<Longrightarrow> take_shutdown t = (sd, t') \<Longrightarrow>
    telemetry_reachable parse ratio one t' (Taken sd # jobs)"
| continues: "telemetry_reachable parse ratio one t jobs \<Longrightarrow> j \<in> set jobs \<Longrightarrow> shutdown_step j t = (Some j', t') \<Longrightarrow>
    telemetry_reachable parse ratio one t' (j' # remove1 j jobs)"
| ends: "telemetry_reachable parse ratio one t jobs \<Longrightarrow> j \<in> set jobs \<Longrightarrow> shutdown_step j t = (None, t') \<Longrightarrow>
    telemetry_reachable parse ratio one t' (remove1 j jobs)"

definition both :: "providers \<Rightarrow> nat set" where
  "both ps = insert (fst ps) (set_option (snd ps))"

definition installed :: "telemetry \<Rightarrow> nat set" where
  "installed t = (case te_shutdown t of None \<Rightarrow> {} | Some ps \<Rightarrow> both ps)"

fun to_stop :: "shutdown_job \<Rightarrow> nat set" where
  "to_stop (Taken sd) = (case sd of None \<Rightarrow> {} | Some ps \<Rightarrow> both ps)"
| "to_stop (Resetting hooks sd) = (case sd of None \<Rightarrow> {} | Some ps \<Rightarrow> both ps)"
| "to_stop (Stopping ps) = both ps"

definition being_stopped :: "shutdown_job list \<Rightarrow> nat set" where
  "being_stopped jobs = (\<Union>j\<in>set jobs. to_stop j)"

definition telemetry_inv :: "telemetry \<Rightarrow> shutdown_job list \<Rightarrow> bool" where
  "telemetry_inv t jobs \<longleftrightarrow> set (te_live t) \<subseteq> installed t \<union> being_stopped jobs \<and> distinct (te_live t)
     \<and> (\<forall>p\<in>set (te_live t). p < te_next t)"

lemma stop_providers_live: "set (te_live (stop_providers ps t)) = set (te_live t) - both ps"
  by (cases "snd ps") (auto simp: stop_providers_def stop_provider_def both_def)

lemma stop_provider_kept [simp]:
  "te_shutdown (stop_provider p t) = te_shutdown t" "te_next (stop_provider p t) = te_next t"
  "distinct (te_live t) \<Longrightarrow> distinct (te_live (stop_provider p t))"
  "set (te_live (stop_provider p t)) = set (te_live t) - {p}"
  by (auto simp: stop_provider_def distinct_removeAll)

lemma stop_providers_kept [simp]:
  "te_shutdown (stop_providers ps t) = te_shutdown t" "te_resets (stop_providers ps t) = te_resets t"
  by (auto simp: stop_providers_def stop_provider_def split: option.splits)

text \<open>What an uninterrupted \<open>Shutdown\<close> does.\<close>

lemma finish_Stopping: "finish_job (Stopping ps) t = stop_providers ps t"
  by (cases ps; cases "snd ps") (simp_all add: finish_job.simps stop_providers_def)

lemma finish_Resetting:
  "finish_job (Resetting hooks sd) t =
     (let t1 = t\<lparr>te_resets := te_resets t @ hooks\<rparr> in case sd of None \<Rightarrow> t1 | Some ps \<Rightarrow> stop_providers ps t1)"
proof (induction hooks arbitrary: t)
  case Nil
  then show ?case by (cases sd) (simp_all add: finish_job.simps [of "Resetting [] _"] finish_Stopping)
next
  case (Cons hook hooks)
  then show ?case by (subst finish_job.simps) simp
qed

lemma Shutdown_alone:
  "metrics_Shutdown t =
     (let t1 = runRebindHooks (t\<lparr>te_shutdown := None\<rparr>)
      in case te_shutdown t of None \<Rightarrow> t1 | Some ps \<Rightarrow> stop_providers ps t1)"
  by (subst metrics_Shutdown_def) (simp add: take_shutdown_def finish_job.simps [of "Taken _"] finish_Resetting runRebindHooks_def)

text \<open>A job stops what it is no longer to stop.\<close>

lemma shutdown_step_live:
  assumes "shutdown_step j t = (r, t')"
  shows "set (te_live t') \<subseteq> set (te_live t) - (to_stop j - (case r of None \<Rightarrow> {} | Some j' \<Rightarrow> to_stop j'))
    \<and> (distinct (te_live t) \<longrightarrow> distinct (te_live t')) \<and> te_shutdown t' = te_shutdown t \<and> te_next t' = te_next t"
  using assms by (cases "(j, t)" rule: shutdown_step.cases) (auto simp: both_def)

lemma being_stopped_simps [simp]:
  "being_stopped [] = {}" "being_stopped (j # jobs) = to_stop j \<union> being_stopped jobs"
  by (simp_all add: being_stopped_def)

lemma being_stopped_remove1: "being_stopped jobs \<subseteq> to_stop j \<union> being_stopped (remove1 j jobs)"
  by (induction jobs) auto

text \<open>What \<open>Init\<close> does to the running providers and to the global ones.\<close>

lemma init_tracer_cases:
  assumes "init_tracer parse ratio one env a t = (r, t')"
  obtains (failed) e where "r = Inl e" "t' = t"
    | (off) "r = Inr None" "te_tracer t' = None" "te_meter t' = te_meter t" "te_shutdown t' = te_shutdown t" "te_next t' = te_next t" "te_live t' = te_live t"
    | (on) "r = Inr (Some (te_next t))" "te_tracer t' = Some (te_next t)" "te_meter t' = te_meter t" "te_shutdown t' = te_shutdown t" "te_next t' = Suc (te_next t)"
      "te_live t' = te_live t @ [te_next t]"
proof (cases "Getenv env OTLPEndpointEnv = ''''")
  case True
  with assms have "r = Inr None" "t' = t\<lparr>te_tracer := None\<rparr>" by (auto simp: init_tracer_def)
  then show thesis by (intro off) simp_all
next
  case False
  show thesis
  proof (cases "samplingRatio parse ratio one env")
    case (Inl e)
    with assms False show thesis by (intro failed [of e]) (simp_all add: init_tracer_def Let_def)
  next
    case (Inr f)
    show thesis
    proof (cases "ia_otlp a")
      case (Some e)
      with assms False Inr show thesis
        by (intro failed [of "Wrapped ''create otlp trace exporter: '' e ''''"])
          (simp_all add: init_tracer_def initTraces_def Let_def)
    next
      case None
      let ?t = "(snd (new_provider t))\<lparr>te_tracer := Some (te_next t),
        te_endpoint := stripEndpointScheme (Getenv env OTLPEndpointEnv)\<rparr>"
      from None assms False Inr have "r = Inr (Some (te_next t))" "t' = ?t"
        by (simp_all add: init_tracer_def initTraces_def new_provider_def Let_def)
      then show thesis by (intro on) (simp_all add: new_provider_def)
    qed
  qed
qed

lemma metrics_Init_failed:
  assumes "metrics_Init parse ratio one env a t = (Inl e, t')" "telemetry_inv t jobs"
  shows "te_live t' = te_live t \<and> te_shutdown t' = te_shutdown t \<and> te_next t \<le> te_next t'
    \<and> te_meter t' \<in> {te_meter t, None} \<and> te_tracer t' \<in> {te_tracer t, None}"
proof -
  have small: "te_next t \<notin> set (te_live t)" "Suc (te_next t) \<notin> set (te_live t)"
    using assms(2) by (auto simp: telemetry_inv_def)
  let ?t1 = "(snd (new_provider t))\<lparr>te_meter := Some (te_next t)\<rparr>"
  obtain r t2 where tr: "init_tracer parse ratio one env a ?t1 = (r, t2)" by fastforce
  show ?thesis
    using tr
    by (rule init_tracer_cases)
      (cases "te_shutdown t"; use assms(1) tr small in
        \<open>auto simp: metrics_Init_def new_provider_def stop_provider_def stop_providers_def Let_def split: option.splits\<close>)+
qed

lemma metrics_Init_done:
  assumes "metrics_Init parse ratio one env a t = (Inr ps, t')"
  shows "te_shutdown t = None \<and> te_shutdown t' = Some ps \<and> te_meter t' = Some (fst ps) \<and> te_tracer t' = snd ps
    \<and> te_live t' = te_live t @ fst ps # (case snd ps of None \<Rightarrow> [] | Some q \<Rightarrow> [q])
    \<and> te_next t \<le> te_next t' \<and> (\<forall>p\<in>both ps. te_next t \<le> p \<and> p < te_next t') \<and> snd ps \<noteq> Some (fst ps)"
proof -
  have none: "te_shutdown t = None"
    using assms(1) by (cases "te_shutdown t") (simp_all add: metrics_Init_def)
  let ?t1 = "(snd (new_provider t))\<lparr>te_meter := Some (te_next t)\<rparr>"
  obtain r t2 where tr: "init_tracer parse ratio one env a ?t1 = (r, t2)" by fastforce
  show ?thesis
    using tr
    by (rule init_tracer_cases)
      (use assms(1) tr none in \<open>auto simp: metrics_Init_def new_provider_def both_def Let_def split: if_splits option.splits\<close>)
qed

lemma telemetry_reachable_inv: "telemetry_reachable parse ratio one t jobs \<Longrightarrow> telemetry_inv t jobs"
proof (induction rule: telemetry_reachable.induct)
  case start
  then show ?case by (simp add: telemetry_inv_def fresh_telemetry_def)
next
  case (init t jobs env a r t')
  show ?case
  proof (cases r)
    case (Inl e)
    with metrics_Init_failed [of parse ratio one env a t e t' jobs] init show ?thesis
      by (force simp: telemetry_inv_def installed_def)
  next
    case (Inr ps)
    with metrics_Init_done [of parse ratio one env a t ps t'] init
    have new: "te_shutdown t = None" "te_shutdown t' = Some ps" "te_next t \<le> te_next t'"
        "te_live t' = te_live t @ fst ps # (case snd ps of None \<Rightarrow> [] | Some q \<Rightarrow> [q])"
        "\<And>p. p \<in> both ps \<Longrightarrow> te_next t \<le> p \<and> p < te_next t'" "snd ps \<noteq> Some (fst ps)" by auto
    have "set (te_live t') = set (te_live t) \<union> both ps"
      using new(4) by (auto simp: both_def split: option.splits)
    moreover have "set (te_live t) \<inter> both ps = {}" "\<And>p. p \<in> set (te_live t) \<Longrightarrow> p < te_next t"
      using init.IH new(5) by (force simp: telemetry_inv_def)+
    then have "distinct (te_live t')" "\<And>p. p \<in> set (te_live t) \<Longrightarrow> p < te_next t'"
      using init.IH new(3,4,6) by (fastforce simp: telemetry_inv_def both_def split: option.splits)+
    ultimately show ?thesis
      using init.IH new(1,2,5) by (auto simp: telemetry_inv_def installed_def)
  qed
next
  case (hook t jobs reset)
  then show ?case by (simp add: telemetry_inv_def installed_def OnShutdown_def)
next
  case (closure t jobs ps)
  then show ?case by (auto simp: telemetry_inv_def)
next
  case (shutdown t jobs sd t')
  then show ?case by (auto simp: telemetry_inv_def installed_def take_shutdown_def)
next
  case (continues t jobs j j' t')
  with shutdown_step_live [OF continues.hyps(3)] being_stopped_remove1 [of jobs j]
  show ?case by (auto simp: telemetry_inv_def installed_def)
next
  case (ends t jobs j t')
  with shutdown_step_live [OF ends.hyps(3)] being_stopped_remove1 [of jobs j]
  show ?case by (auto simp: telemetry_inv_def installed_def)
qed

section \<open>Health\<close>

record health_server =
  hl_addr :: string
  hl_version :: string
  hl_ready :: bool

definition health_NewServer :: "string \<Rightarrow> health_server" where
  "health_NewServer addr = \<lparr>hl_addr = addr, hl_version = ''dev'', hl_ready = False\<rparr>"

definition SetVersion :: "string \<Rightarrow> health_server \<Rightarrow> health_server" where
  "SetVersion v s = s\<lparr>hl_version := v\<rparr>"

definition SetReady :: "bool \<Rightarrow> health_server \<Rightarrow> health_server" where
  "SetReady v s = s\<lparr>hl_ready := v\<rparr>"

definition plain_text :: "int \<Rightarrow> string \<Rightarrow> response \<Rightarrow> response" where
  "plain_text code body rw =
     Write (TextBody body) (WriteHeader code (set_header ''Content-Type'' ''text/plain; charset=utf-8'' rw))"

definition healthz :: "health_server \<Rightarrow> 'm http_handler" where
  "healthz s r = answer (\<lambda>rw. plain_text 200 ''ok'' (set_header ''X-Version'' (hl_version s) rw))"

definition handleReady :: "health_server \<Rightarrow> 'm http_handler" where
  "handleReady s r = answer (\<lambda>rw.
     let rw1 = set_header ''X-Version'' (hl_version s) rw in
     if \<not> hl_ready s then plain_text 503 ''not ready'' rw1 else plain_text 200 ''ready'' rw1)"

text \<open>The mux: the two endpoints and what was mounted, here the metrics.\<close>

definition health_patterns :: "health_server \<Rightarrow> 'm pattern list \<Rightarrow> 'm pattern list" where
  "health_patterns s mounted =
     [(''GET'', [Lit ''healthz''], \<lambda>vs. healthz s), (''GET'', [Lit ''readyz''], \<lambda>vs. handleReady s)] @ mounted"

definition Mount :: "string list \<Rightarrow> 'm http_handler \<Rightarrow> 'm pattern list \<Rightarrow> 'm pattern list" where
  "Mount path h mounted = mounted @ [('''', map Lit path, \<lambda>vs. h)]"

text \<open>The API server of the gateway, with its timeouts.\<close>

record api_server =
  as_Addr :: string
  as_ReadHeaderTimeout :: duration
  as_ReadTimeout :: duration
  as_WriteTimeout :: duration
  as_IdleTimeout :: duration

definition gateway_NewServer :: "string \<Rightarrow> api_server" where
  "gateway_NewServer addr =
     \<lparr>as_Addr = addr, as_ReadHeaderTimeout = 5 * second, as_ReadTimeout = 10 * second,
      as_WriteTimeout = 10 * second, as_IdleTimeout = 60 * second\<rparr>"

text \<open>\<open>ListenAndServe\<close> of both servers: a closed server is no error.\<close>

datatype serve_end = ServerClosed | ServerFailed err

fun ListenAndServe :: "serve_end \<Rightarrow> err option" where
  "ListenAndServe ServerClosed = None"
| "ListenAndServe (ServerFailed e) = Some e"

section \<open>Logging and version\<close>

datatype log_handler = JSONHandler | TextHandlerDebug

definition logger_New :: "string \<Rightarrow> log_handler" where
  "logger_New env = (if env = ''production'' then JSONHandler else TextHandlerDebug)"

text \<open>The build overrides these.\<close>

definition Version :: string where "Version = ''dev''"
definition Commit :: string where "Commit = ''none''"
definition Date :: string where "Date = ''unknown''"

section \<open>Connection pools\<close>

record pool_options =
  po_MaxConns :: int
  po_MinConns :: int
  po_MaxConnLifetime :: duration
  po_MaxConnIdleTime :: duration

definition withDefaults :: "pool_options \<Rightarrow> pool_options" where
  "withDefaults opts =
     \<lparr>po_MaxConns = (if po_MaxConns opts = 0 then 10 else po_MaxConns opts),
      po_MinConns = (if po_MinConns opts = 0 then 1 else po_MinConns opts),
      po_MaxConnLifetime = (if po_MaxConnLifetime opts = 0 then hour else po_MaxConnLifetime opts),
      po_MaxConnIdleTime = (if po_MaxConnIdleTime opts = 0 then 15 * minute else po_MaxConnIdleTime opts)\<rparr>"

end
