(* ===== verification/Boot.thy ===== *)
theory Boot
  imports Telemetry Holds Chrono_System Payment Core_Subscribers
begin

text \<open>
  How the five services start and stop (\<open>cmd/*/main.go\<close>, \<open>pkg/pgpool\<close>): the stages of \<open>run\<close> in order, with
  what each of them opens and what a return closes, and the bus the gateway falls back to.  The answers
  of the outside - the providers, the database, NATS, the listeners, the signal - are the record
  \<open>host\<close>.
\<close>

section \<open>Opening and closing\<close>

datatype action = Opened string | Closed string

text \<open>A stage that can fail, with its message; one that opens something; and \<open>defer\<close>.\<close>

definition stage :: "err option \<Rightarrow> (err \<Rightarrow> err) \<Rightarrow> (action list, unit) op" where
  "stage reply wrap s = (case reply of Some e \<Rightarrow> (Inl (wrap e), s) | None \<Rightarrow> (Inr (), s))"

definition opened :: "string \<Rightarrow> (action list, unit) op" where
  "opened name s = (Inr (), s @ [Opened name])"

definition deferring :: "string \<Rightarrow> (action list, 'a) op \<Rightarrow> (action list, 'a) op" where
  "deferring name body s = (case body s of (x, s') \<Rightarrow> (x, s' @ [Closed name]))"

text \<open>What the stages have in common: open something, run the rest, close it on every way out.\<close>

definition holding :: "string \<Rightarrow> (action list, unit) op \<Rightarrow> (action list, 'a) op \<Rightarrow> (action list, 'a) op" where
  "holding name open_it rest = andThen open_it (\<lambda>_. andThen (opened name) (\<lambda>_. deferring name rest))"

record host =
  ho_env :: env
  ho_metrics :: "string \<Rightarrow> err option"
  ho_parse :: "string \<Rightarrow> err option"
  ho_connect :: "string \<Rightarrow> pool_options \<Rightarrow> err option"
  ho_ping :: "string \<Rightarrow> err option"
  ho_instrument :: "string \<Rightarrow> string \<Rightarrow> err option"
  ho_dial :: "string \<Rightarrow> err option"
  ho_stream :: "stream_spec \<Rightarrow> duration \<Rightarrow> err option"
  ho_consumer :: "string \<Rightarrow> consumer_config \<Rightarrow> err option"
  ho_served :: "err option option"
  ho_shutdown :: "string \<Rightarrow> err option"

abbreviation wrapped :: "string \<Rightarrow> err \<Rightarrow> err" where "wrapped text e \<equiv> Wrapped text e ''''"

text \<open>\<open>pgpool.New\<close>: a pool that does not answer the ping is closed again.\<close>

definition pgpool_New :: "host \<Rightarrow> string \<Rightarrow> string \<Rightarrow> pool_options \<Rightarrow> (action list, unit) op" where
  "pgpool_New h what url opts =
     andThen (stage (ho_parse h url) id) (\<lambda>_.
     andThen (stage (ho_connect h url (withDefaults opts)) id) (\<lambda>_.
     (\<lambda>s. case ho_ping h url of
            Some e \<Rightarrow> (Inl e, s @ [Opened what, Closed what])
          | None \<Rightarrow> (Inr (), s))))"

definition conns :: "int \<Rightarrow> pool_options" where
  "conns n = \<lparr>po_MaxConns = n, po_MinConns = 0, po_MaxConnLifetime = 0, po_MaxConnIdleTime = 0\<rparr>"

definition with_metrics :: "host \<Rightarrow> string \<Rightarrow> (action list, 'a) op \<Rightarrow> (action list, 'a) op" where
  "with_metrics h name = holding ''metrics'' (stage (ho_metrics h name) (wrapped ''init metrics: ''))"

definition with_pool :: "host \<Rightarrow> string \<Rightarrow> string \<Rightarrow> int \<Rightarrow> (action list, 'a) op \<Rightarrow> (action list, 'a) op" where
  "with_pool h what url n = holding what (wrapErr (wrapped (''connect '' @ what @ '': '')) (pgpool_New h what url (conns n)))"

text \<open>The hold store is built with its observer, whose instruments the meter may refuse.\<close>

definition with_holds :: "host \<Rightarrow> (action list, 'a) op \<Rightarrow> (action list, 'a) op" where
  "with_holds h = holding ''holds''
     (stage (case NewOTelObserver (ho_instrument h) :: err + unit world_scheme hold_observer of
               Inl e \<Rightarrow> Some e | Inr _ \<Rightarrow> None)
        (wrapped ''build holds observer: ''))"

text \<open>The bus is opened without a \<open>defer\<close>; only the orderly way out closes it.\<close>

definition connect :: "host \<Rightarrow> string \<Rightarrow> string \<Rightarrow> (action list, jetstream) op" where
  "connect h url name s =
     (case broker_Connect (ho_dial h) (ho_stream h) url name of
        Inl e \<Rightarrow> (Inl e, s)
      | Inr j \<Rightarrow> (Inr j, s @ [Opened ''bus'']))"

definition register :: "host \<Rightarrow> (string \<times> string \<times> 's handler) list \<Rightarrow> jetstream \<Rightarrow> (action list, jetstream) op" where
  "register h consumers j s =
     (register_all (\<lambda>subject durable handler. js_subscribe (ho_consumer h) subject durable) consumers j, s)"

text \<open>
  The end of \<open>run\<close>: the health server (or the API server) returns first, with or without an error, or
  the signal comes and everything is shut down in turn.
\<close>

fun shut_all :: "host \<Rightarrow> string list \<Rightarrow> err + unit" where
  "shut_all h [] = Inr ()"
| "shut_all h (server # servers) = (case ho_shutdown h server of Some e \<Rightarrow> Inl e | None \<Rightarrow> shut_all h servers)"

definition serve_until :: "host \<Rightarrow> string list \<Rightarrow> (action list, unit) op" where
  "serve_until h servers s =
     (case ho_served h of
        Some (Some e) \<Rightarrow> (Inl e, s)
      | Some None \<Rightarrow> (Inr (), s)
      | None \<Rightarrow> (shut_all h servers, s @ [Closed ''bus'']))"

section \<open>The services\<close>

definition core_run :: "host \<Rightarrow> (string \<times> string \<times> 's handler) list \<Rightarrow> (action list, unit) op" where
  "core_run h consumers =
     (let cfg = core_LoadConfig (ho_env h) in
      with_metrics h ''pulsar-core''
     (with_pool h ''database'' (co_DatabaseURL cfg) 10
     (with_holds h
     (andThen (connect h (co_NATSURL cfg) ''pulsar-core'') (\<lambda>bus.
      andThen (register h consumers bus) (\<lambda>_. serve_until h [''health'']))))))"

definition payment_run ::
  "(string \<Rightarrow> 'f option) \<Rightarrow> 'f \<Rightarrow> host \<Rightarrow> (string \<times> string \<times> 's handler) list \<Rightarrow> (action list, unit) op" where
  "payment_run parse rate h consumers =
     (let cfg = payment_LoadConfig parse rate (ho_env h) in
      with_metrics h ''pulsar-payment''
     (with_pool h ''database'' (pm_DatabaseURL cfg) 10
     (andThen (connect h (pm_NATSURL cfg) ''pulsar-payment'') (\<lambda>bus.
      andThen (register h consumers bus) (\<lambda>_. serve_until h [''health'']))))) "

definition chrono_run :: "host \<Rightarrow> (action list, unit) op" where
  "chrono_run h =
     (let cfg = chrono_LoadConfig (ho_env h) in
      with_metrics h ''pulsar-chrono''
     (with_pool h ''database'' (ch_DatabaseURL cfg) 5
     (andThen (connect h (ch_NATSURL cfg) ''pulsar-chrono'') (\<lambda>bus.
      with_holds h (serve_until h [''health'']))))) "

definition horizon_run :: "host \<Rightarrow> (action list, unit) op" where
  "horizon_run h =
     (let cfg = horizon_LoadConfig (ho_env h) in
      with_metrics h ''pulsar-horizon''
     (with_pool h ''core database'' (hz_CoreDBURL cfg) 5
     (with_pool h ''payment database'' (hz_PaymentDBURL cfg) 5
     (andThen (connect h (hz_NATSURL cfg) ''pulsar-horizon'') (\<lambda>bus. serve_until h [''health''])))))"

section \<open>The bus of the gateway\<close>

text \<open>The handlers of the development bus only write a log line.\<close>

definition logCommand :: "'m world_scheme handler" where
  "logCommand msg =
     counting [''log'', ''command received'', m_subject msg, m_id msg, hdr (m_headers msg) ''X-Request-Id''] (ok ())"

definition logCommands :: "string \<Rightarrow> 'm world_scheme memory_bus \<Rightarrow> 'm world_scheme memory_bus" where
  "logCommands subject bus = (case mem_subscribe subject '''' (Some logCommand) bus of Inl e \<Rightarrow> bus | Inr bus' \<Rightarrow> bus')"

definition memoryBusWithDevHandlers :: "'m world_scheme memory_bus" where
  "memoryBusWithDevHandlers = logCommands SubjectPaymentProcess (logCommands SubjectReservationReserve mem_new)"

datatype 'm gateway_bus = MemoryBus "'m world_scheme memory_bus" | NatsBus jetstream

definition selectBus :: "host \<Rightarrow> gateway_config \<Rightarrow> err + 'm gateway_bus" where
  "selectBus h cfg =
     (if gc_BusMode cfg = ''memory'' then Inr (MemoryBus memoryBusWithDevHandlers)
      else if gc_BusMode cfg \<noteq> ''nats''
      then Inl (Plain (''unknown BUS_MODE '' @ go_quote (gc_BusMode cfg) @ '' (use nats or memory)''))
      else case broker_Connect (ho_dial h) (ho_stream h) (gc_NATSURL cfg) ''pulsar-gateway'' of
             Inr j \<Rightarrow> Inr (NatsBus j)
           | Inl e \<Rightarrow> if gc_Env cfg = ''production'' then Inl e else Inr (MemoryBus memoryBusWithDevHandlers))"

definition gateway_bus :: "host \<Rightarrow> gateway_config \<Rightarrow> (action list, 'm gateway_bus) op" where
  "gateway_bus h cfg s = (case selectBus h cfg of Inl e \<Rightarrow> (Inl e, s) | Inr b \<Rightarrow> (Inr b, s @ [Opened ''bus'']))"

text \<open>\<open>serving\<close> says what the API server is built from: the bus, the maximum and the token table.\<close>

definition gateway_run ::
  "('m gateway_bus \<Rightarrow> int \<Rightarrow> (string \<rightharpoonup> string) \<Rightarrow> host) \<Rightarrow> host \<Rightarrow> (action list, unit) op" where
  "gateway_run serving h =
     (case gateway_LoadConfig (ho_env h) of
        Inl e \<Rightarrow> fail e
      | Inr cfg \<Rightarrow>
          with_metrics h ''pulsar-gateway''
         (andThen (gateway_bus h cfg) (\<lambda>bus.
            serve_until (serving bus (gc_MaxQuantity cfg) (gc_AuthTokens cfg)) [''api'', ''health''])))"

section \<open>Ways out\<close>

text \<open>The actions close what they opened, in reverse; the bus is looked at on its own.\<close>

fun unwind :: "string list \<Rightarrow> action list \<Rightarrow> string list option" where
  "unwind open_now [] = Some open_now"
| "unwind open_now (Opened name # actions) =
     (if name = ''bus'' then unwind open_now actions else unwind (name # open_now) actions)"
| "unwind open_now (Closed name # actions) =
     (if name = ''bus'' then unwind open_now actions
      else case open_now of [] \<Rightarrow> None | x # xs \<Rightarrow> if x = name then unwind xs actions else None)"

lemma unwind_append: "unwind xs (as @ bs) = (case unwind xs as of None \<Rightarrow> None | Some ys \<Rightarrow> unwind ys bs)"
  by (induction xs as rule: unwind.induct) (auto split: list.splits)

text \<open>An operation that closes what it opens, whatever is open around it.\<close>

definition tidy :: "(action list, 'a) op \<Rightarrow> bool" where
  "tidy f \<longleftrightarrow> (\<forall>s x s'. f s = (x, s') \<longrightarrow> (\<exists>new. s' = s @ new \<and> (\<forall>xs. unwind xs new = Some xs)))"

named_theorems tidy

lemma tidyI: "(\<And>s. \<exists>x new. f s = (x, s @ new) \<and> (\<forall>xs. unwind xs new = Some xs)) \<Longrightarrow> tidy f"
  unfolding tidy_def by (metis prod.inject)

lemma tidy_stage [tidy]: "tidy (stage reply wrap)"
  by (rule tidyI) (auto simp: stage_def split: option.splits intro: exI [of _ "[]"])

lemma tidy_andThen:
  assumes "tidy f" "\<And>a. tidy (g a)"
  shows "tidy (andThen f g)"
proof (unfold tidy_def, intro allI impI)
  fix s x s' assume run: "andThen f g s = (x, s')"
  obtain y s1 where y: "f s = (y, s1)" by fastforce
  with assms(1) obtain new where new: "s1 = s @ new" "\<forall>xs. unwind xs new = Some xs" unfolding tidy_def by blast
  show "\<exists>new. s' = s @ new \<and> (\<forall>xs. unwind xs new = Some xs)"
  proof (cases y)
    case (Inl e)
    with run y new show ?thesis by (auto simp: andThen_def)
  next
    case (Inr a)
    with run y have "g a s1 = (x, s')" by (simp add: andThen_def)
    with assms(2) obtain more where "s' = s1 @ more" "\<forall>xs. unwind xs more = Some xs" unfolding tidy_def by blast
    with new show ?thesis by (intro exI [of _ "new @ more"]) (simp add: unwind_append)
  qed
qed

lemma tidy_holding:
  assumes "tidy open_it" "tidy rest" "name \<noteq> ''bus''"
  shows "tidy (holding name open_it rest)"
proof -
  have "tidy (andThen (opened name) (\<lambda>_. deferring name rest))"
  proof (unfold tidy_def, intro allI impI)
    fix s x s' assume run: "andThen (opened name) (\<lambda>_. deferring name rest) s = (x, s')"
    obtain y s1 where y: "rest (s @ [Opened name]) = (y, s1)" by fastforce
    with assms(2) obtain new where "s1 = (s @ [Opened name]) @ new" "\<forall>xs. unwind xs new = Some xs"
      unfolding tidy_def by blast
    with run y show "\<exists>new. s' = s @ new \<and> (\<forall>xs. unwind xs new = Some xs)"
      by (intro exI [of _ "Opened name # new @ [Closed name]"])
        (auto simp: andThen_def opened_def deferring_def unwind_append assms(3))
  qed
  with assms(1) show ?thesis unfolding holding_def by (rule tidy_andThen)
qed

lemma tidy_wrapErr [tidy]: "tidy f \<Longrightarrow> tidy (wrapErr w f)"
  unfolding tidy_def wrapErr_def by (auto split: prod.splits sum.splits)

lemma tidy_pgpool [tidy]: "what \<noteq> ''bus'' \<Longrightarrow> tidy (pgpool_New h what url opts)"
  unfolding pgpool_New_def
  by (intro tidy_andThen tidy_stage tidyI) (auto split: option.splits intro: exI [of _ "[]"])

lemma tidy_connect [tidy]: "tidy (connect h url name)"
  by (rule tidyI) (auto simp: connect_def split: sum.splits intro: exI [of _ "[]"])

lemma tidy_register [tidy]: "tidy (register h consumers bus)"
  by (rule tidyI) (auto simp: register_def)

lemma tidy_serve [tidy]: "tidy (serve_until h servers)"
  by (rule tidyI) (auto simp: serve_until_def split: option.splits intro: exI [of _ "[]"])

lemma tidy_gateway_bus [tidy]: "tidy (gateway_bus h cfg)"
  by (rule tidyI) (auto simp: gateway_bus_def split: sum.splits intro: exI [of _ "[]"])

lemma tidy_with [tidy]:
  "tidy f \<Longrightarrow> tidy (with_metrics h name f)" "tidy f \<Longrightarrow> tidy (with_holds h f)"
  "tidy f \<Longrightarrow> what \<noteq> ''bus'' \<Longrightarrow> tidy (with_pool h what url n f)"
  unfolding with_metrics_def with_holds_def with_pool_def
  by (auto intro!: tidy_holding tidy)

end
