(* ===== verification/Boot_Properties.thy ===== *)
theory Boot_Properties
  imports Boot
begin

text \<open>
  The properties of starting up: the token table is the one that was configured, every way out of a
  service gives back what it opened, and no provider is lost.
\<close>

section \<open>The token table\<close>

definition clean_pair :: "string \<times> string \<Rightarrow> bool" where
  "clean_pair p \<longleftrightarrow> fst p \<noteq> '''' \<and> snd p \<noteq> ''''
     \<and> list_all (\<lambda>c. \<not> is_space c \<and> c \<noteq> CHR '','' \<and> c \<noteq> CHR ''='') (fst p)
     \<and> list_all (\<lambda>c. \<not> is_space c \<and> c \<noteq> CHR '','') (snd p)"

definition pair_text :: "string \<times> string \<Rightarrow> string" where
  "pair_text p = fst p @ CHR ''='' # snd p"

definition tokens_text :: "(string \<times> string) list \<Rightarrow> string" where
  "tokens_text ps = join '','' (map pair_text ps)"

lemma equals_no_space [simp]: "\<not> is_space (CHR ''='')"
  by (simp add: is_space_def)

lemma pair_text_clean:
  assumes "clean_pair p"
  shows "trim_space (pair_text p) = pair_text p" "CHR '','' \<notin> set (pair_text p)"
    "cut (CHR ''='') (pair_text p) = (fst p, snd p, True)"
    "trim_space (fst p) = fst p" "trim_space (snd p) = snd p" "trim_space (pair_text p @ s) \<noteq> ''''"
proof -
  have ok: "c \<in> set (fst p) \<Longrightarrow> \<not> is_space c \<and> c \<noteq> CHR '','' \<and> c \<noteq> CHR ''=''"
    "c \<in> set (snd p) \<Longrightarrow> \<not> is_space c \<and> c \<noteq> CHR '',''" for c
    using assms by (auto simp: clean_pair_def list_all_iff)
  show "trim_space (pair_text p) = pair_text p" "trim_space (fst p) = fst p" "trim_space (snd p) = snd p"
    by (rule trim_space_id; use ok in \<open>auto simp: pair_text_def\<close>)+
  show "CHR '','' \<notin> set (pair_text p)" using ok by (auto simp: pair_text_def)
  show "cut (CHR ''='') (pair_text p) = (fst p, snd p, True)"
    unfolding pair_text_def by (rule cut_found) (use ok in blast)
  have "\<not> is_space (hd (pair_text p))" "pair_text p \<noteq> []"
    using ok(1) by (cases "fst p"; auto simp: pair_text_def)+
  then have "dropWhile is_space (pair_text p @ s) = pair_text p @ s" by (cases "pair_text p") auto
  moreover have "\<exists>c\<in>set (pair_text p @ s). \<not> is_space c" by (auto simp: pair_text_def)
  ultimately show "trim_space (pair_text p @ s) \<noteq> ''''"
    by (simp add: trim_space_def dropWhile_eq_Nil_conv) blast
qed

lemma split_tokens_text:
  "ps \<noteq> [] \<Longrightarrow> list_all clean_pair ps \<Longrightarrow> split (CHR '','') (tokens_text ps) = map pair_text ps"
proof (induction ps rule: induct_list012)
  case (2 p)
  then show ?case by (simp add: tokens_text_def split_single pair_text_clean)
next
  case (3 p q ps)
  then have "tokens_text (p # q # ps) = pair_text p @ CHR '','' # tokens_text (q # ps)"
    by (simp add: tokens_text_def)
  with 3 show ?case by (simp add: split_append pair_text_clean)
qed simp

lemma parse_clean_pairs:
  "list_all clean_pair ps \<Longrightarrow> distinct (map fst ps) \<Longrightarrow> fst ` set ps \<inter> dom tokens = {} \<Longrightarrow>
     parse_pairs (map pair_text ps) tokens = Inr (tokens ++ map_of ps)"
proof (induction ps arbitrary: tokens)
  case (Cons p ps)
  then have "fst p \<noteq> ''''" "snd p \<noteq> ''''" "tokens (fst p) = None"
    by (auto simp: clean_pair_def)
  then have step: "parse_pairs (map pair_text (p # ps)) tokens = parse_pairs (map pair_text ps) (tokens(fst p \<mapsto> snd p))"
    using Cons.prems(1) by (simp add: pair_text_clean)
  have "parse_pairs (map pair_text ps) (tokens(fst p \<mapsto> snd p)) = Inr (tokens(fst p \<mapsto> snd p) ++ map_of ps)"
  proof (rule Cons.IH)
    show "fst ` set ps \<inter> dom (tokens(fst p \<mapsto> snd p)) = {}"
      using Cons.prems(2,3) by (simp add: Int_insert_right)
  qed (use Cons.prems in simp_all)
  moreover have "tokens(fst p \<mapsto> snd p) ++ map_of ps = tokens ++ map_of (p # ps)"
    using Cons.prems(2) by (cases p) (simp add: map_add_upd_left dom_map_of_conv_image_fst)
  ultimately show ?case by (simp only: step)
qed simp

text \<open>What is in a table that was accepted.\<close>

definition table_ok :: "(string \<rightharpoonup> string) \<Rightarrow> bool" where
  "table_ok tokens \<longleftrightarrow> '''' \<notin> dom tokens \<and> '''' \<notin> ran tokens \<and> finite (dom tokens)"

lemma parse_pairs_table:
  "parse_pairs pairs tokens = Inr tokens' \<Longrightarrow> table_ok tokens \<Longrightarrow>
     table_ok tokens' \<and> card (dom tokens') = card (dom tokens) + length pairs"
proof (induction pairs arbitrary: tokens)
  case (Cons pair pairs)
  obtain t u found where c: "cut (CHR ''='') (trim_space pair) = (t, u, found)" by (metis prod_cases3)
  let ?t = "trim_space t" and ?u = "trim_space u"
  from Cons.prems(1) c have ok: "?t \<noteq> ''''" "?u \<noteq> ''''" "tokens ?t = None"
    and rest: "parse_pairs pairs (tokens(?t \<mapsto> ?u)) = Inr tokens'"
    by (auto simp: Let_def split: if_splits)
  have "table_ok (tokens(?t \<mapsto> ?u))" and n: "card (dom (tokens(?t \<mapsto> ?u))) = Suc (card (dom tokens))"
    using Cons.prems(2) ok by (auto simp: table_ok_def ran_map_upd domIff)
  from Cons.IH [OF rest this(1)] show ?case
    unfolding n by (simp only: list.size add_Suc_right add_Suc add_0_right simp_thms)
qed (simp add: table_ok_def)

text \<open>C38: The token table is the one that was configured.  Any list of distinct tokens with their users is read
  back from its text exactly; a table that is accepted has one token for every comma of its text and one
  more, so none was dropped or merged, and neither a token nor a user of it is empty - in particular the
  one a gateway starts with, whatever its environment.\<close>

theorem token_table:
  shows "(ps \<noteq> [] \<and> list_all clean_pair ps \<and> distinct (map fst ps) \<longrightarrow>
      ParseAuthTokens (tokens_text ps) = Inr (map_of ps))
    \<and> (ParseAuthTokens spec = Inr tokens \<longrightarrow>
      table_ok tokens \<and> card (dom tokens) = length (split (CHR '','') spec))
    \<and> (gateway_LoadConfig env = Inr cfg \<longrightarrow> table_ok (gc_AuthTokens cfg) \<and> gc_AuthTokens cfg \<noteq> Map.empty)"
proof (intro conjI impI)
  assume ps: "ps \<noteq> [] \<and> list_all clean_pair ps \<and> distinct (map fst ps)"
  then obtain p qs where p: "ps = p # qs" "clean_pair p" by (cases ps) auto
  have "\<exists>s. tokens_text ps = pair_text p @ s" by (cases qs) (auto simp: p(1) tokens_text_def)
  with pair_text_clean(6) [OF p(2)] have "trim_space (tokens_text ps) \<noteq> ''''" by auto
  with ps split_tokens_text [of ps] parse_clean_pairs [of ps Map.empty]
  show "ParseAuthTokens (tokens_text ps) = Inr (map_of ps)" by (simp add: ParseAuthTokens_def)
next
  have table: "table_ok tokens \<and> card (dom tokens) = length (split (CHR '','') spec)"
    if "ParseAuthTokens spec = Inr tokens" for spec tokens
    using that parse_pairs_table [of _ Map.empty tokens]
    by (auto simp: ParseAuthTokens_def table_ok_def split: if_splits)
  then show "ParseAuthTokens spec = Inr tokens \<Longrightarrow> table_ok tokens"
    "ParseAuthTokens spec = Inr tokens \<Longrightarrow> card (dom tokens) = length (split (CHR '','') spec)" by blast+
  assume "gateway_LoadConfig env = Inr cfg"
  then obtain s where s: "ParseAuthTokens s = Inr (gc_AuthTokens cfg)"
    by (auto simp: gateway_LoadConfig_def split: sum.splits)
  from table [OF s] show "table_ok (gc_AuthTokens cfg)" "gc_AuthTokens cfg \<noteq> Map.empty" by auto
qed

theorem token_table_witness:
  "ParseAuthTokens (tokens_text [(''t-1'', ''alice''), (''t-2'', ''bob=x'')]) = Inr [''t-2'' \<mapsto> ''bob=x'', ''t-1'' \<mapsto> ''alice'']
   \<and> (\<exists>tokens. ParseAuthTokens devAuthTokens = Inr tokens \<and> card (dom tokens) = 2)
   \<and> (\<exists>cfg. gateway_LoadConfig Map.empty = Inr cfg \<and> '''' \<notin> ran (gc_AuthTokens cfg))"
proof (intro conjI)
  let ?ps = "[(''t-1'', ''alice''), (''t-2'', ''bob=x'')]"
  have "list_all clean_pair ?ps" by (simp add: clean_pair_def is_space_def)
  with token_table [of ?ps]
  show "ParseAuthTokens (tokens_text ?ps) = Inr [''t-2'' \<mapsto> ''bob=x'', ''t-1'' \<mapsto> ''alice'']" by simp
  have "split (CHR '','') devAuthTokens = [''pp-token-user-1=user-1'', ''pp-token-user-2=user-2'']" by code_simp
  moreover have "(case ParseAuthTokens devAuthTokens of Inl e \<Rightarrow> False | Inr t \<Rightarrow> True)" by code_simp
  then obtain tokens where tokens: "ParseAuthTokens devAuthTokens = Inr tokens" by (auto split: sum.splits)
  ultimately show "\<exists>tokens. ParseAuthTokens devAuthTokens = Inr tokens \<and> card (dom tokens) = 2"
    using token_table [of "[]" devAuthTokens tokens] by auto
  have "config_String Map.empty AuthTokensEnv devAuthTokens = devAuthTokens"
    by (simp add: config_String_def Getenv_def)
  with tokens obtain cfg where cfg: "gateway_LoadConfig Map.empty = Inr cfg" by (auto simp: gateway_LoadConfig_def)
  with token_table [of "[]" _ _ Map.empty cfg] show "\<exists>cfg. gateway_LoadConfig Map.empty = Inr cfg \<and> '''' \<notin> ran (gc_AuthTokens cfg)"
    by (auto simp: table_ok_def)
qed

text \<open>An interval of zero is accepted, although a ticker cannot be made from it.\<close>

lemma zero_poll_interval: "hz_PollInterval (horizon_LoadConfig [''POLL_INTERVAL'' \<mapsto> ''0'']) = 0"
  by (simp add: horizon_LoadConfig_def config_Duration_def Getenv_def ParseDuration_def)

section \<open>Ways out\<close>


text \<open>C40: No provider is lost.  However the calls of \<open>Init\<close>, \<open>OnShutdown\<close>, \<open>Shutdown\<close> and the closures of a
  process interleave, and whatever the SDK refuses, a provider that is running is one the next \<open>Shutdown\<close>
  will stop or one a stop under way is about to.  A \<open>Shutdown\<close> runs the registered resets once and leaves
  none running but those of the others under way - none, if there are none - with \<open>Init\<close> allowed again.
  A failed \<open>Init\<close> leaves the running providers and what \<open>Shutdown\<close> will stop as they were, and the global
  meter and tracer as they were or the no-op, never a stopped provider of its own; one that succeeds did
  so with none installed, and installs the meter and tracer it started.\<close>

theorem no_provider_lost:
  assumes "telemetry_reachable parse ratio one t jobs"
  shows "set (te_live t) \<subseteq> installed t \<union> being_stopped jobs \<and> distinct (te_live t)
    \<and> (set (te_live (metrics_Shutdown t)) \<subseteq> being_stopped jobs \<and> te_shutdown (metrics_Shutdown t) = None
      \<and> te_resets (metrics_Shutdown t) = te_resets t @ te_hooks t)
    \<and> (metrics_Init parse ratio one env a t = (Inl e, t') \<longrightarrow>
        te_live t' = te_live t \<and> te_shutdown t' = te_shutdown t
        \<and> te_meter t' \<in> {te_meter t, None} \<and> te_tracer t' \<in> {te_tracer t, None})
    \<and> (metrics_Init parse ratio one env a t = (Inr ps, t'') \<longrightarrow>
        te_shutdown t = None \<and> te_shutdown t'' = Some ps \<and> te_meter t'' = Some (fst ps) \<and> te_tracer t'' = snd ps
        \<and> te_live t'' = te_live t @ fst ps # (case snd ps of None \<Rightarrow> [] | Some q \<Rightarrow> [q]))"
proof -
  note inv = telemetry_reachable_inv [OF assms]
  have "set (te_live (metrics_Shutdown t)) \<subseteq> being_stopped jobs \<and> te_shutdown (metrics_Shutdown t) = None
      \<and> te_resets (metrics_Shutdown t) = te_resets t @ te_hooks t"
    using inv by (cases "te_shutdown t")
      (auto simp: Shutdown_alone Let_def runRebindHooks_def stop_providers_live telemetry_inv_def installed_def)
  moreover have "set (te_live t) \<subseteq> installed t \<union> being_stopped jobs" "distinct (te_live t)"
    using inv by (simp_all add: telemetry_inv_def)
  ultimately show ?thesis
    using metrics_Init_failed [of parse ratio one env a t e t', OF _ inv]
      metrics_Init_done [of parse ratio one env a t ps t''] by blast
qed

text \<open>A second \<open>Init\<close> while the providers of the first are still to be stopped.\<close>

definition tx_env :: env where
  "tx_env = [OTLPEndpointEnv \<mapsto> ''http://collector:4317'']"

definition tx_answers :: init_answers where
  "tx_answers = \<lparr>ia_exporter = None, ia_resource = None, ia_otlp = None, ia_runtime = None\<rparr>"

definition tx_init :: "telemetry \<Rightarrow> (err + providers) \<times> telemetry" where
  "tx_init = metrics_Init (\<lambda>s. Some ()) (\<lambda>f. True) () tx_env tx_answers"

lemma tx_init_step: "metrics_Init (\<lambda>s. Some ()) (\<lambda>f. True) () tx_env tx_answers t = (fst (tx_init t), snd (tx_init t))"
  by (simp add: tx_init_def)

lemma tx_init_runs:
  assumes "te_shutdown t = None"
  shows "fst (tx_init t) = Inr (te_next t, Some (Suc (te_next t)))"
    "te_live (snd (tx_init t)) = te_live t @ [te_next t, Suc (te_next t)]"
    "te_shutdown (snd (tx_init t)) = Some (te_next t, Some (Suc (te_next t)))" "te_next (snd (tx_init t)) = te_next t + 2"
  using assms by (simp_all add: tx_init_def metrics_Init_def new_provider_def init_tracer_def initTraces_def Let_def
      Getenv_def samplingRatio_def OTLPEndpointEnv_def OTLPSampleRatioEnv_def tx_env_def tx_answers_def)

theorem no_provider_lost_witness:
  "\<exists>t. telemetry_reachable (\<lambda>s. Some ()) (\<lambda>f. True) () t [Taken (Some (0, Some 1))]
    \<and> te_live t = [0, 1, 2, 3] \<and> te_shutdown t = Some (2, Some 3)
    \<and> set (te_live (metrics_Shutdown t)) \<subseteq> {0, 1}"
proof -
  let ?reachable = "telemetry_reachable (\<lambda>s. Some ()) (\<lambda>f. True) ()"
  let ?t1 = "snd (tx_init fresh_telemetry)" let ?t2 = "snd (take_shutdown ?t1)" let ?t3 = "snd (tx_init ?t2)"
  have fresh: "te_shutdown fresh_telemetry = None" "te_live fresh_telemetry = []" "te_next fresh_telemetry = 0"
    by (simp_all add: fresh_telemetry_def)
  note one = tx_init_runs [OF fresh(1), unfolded fresh, simplified]
  have two: "fst (take_shutdown ?t1) = Some (0, Some 1)" "te_shutdown ?t2 = None" "te_live ?t2 = [0, 1]" "te_next ?t2 = 2"
    using one by (simp_all add: take_shutdown_def)
  note three = tx_init_runs [OF two(2), unfolded two, simplified]
  have "?reachable ?t1 []"
    by (rule telemetry_reachable.init [OF telemetry_reachable.start tx_init_step])
  then have "?reachable ?t2 [Taken (Some (0, Some 1))]"
    by (rule telemetry_reachable.shutdown) (metis prod.collapse two(1))
  then have r: "?reachable ?t3 [Taken (Some (0, Some 1))]"
    by (rule telemetry_reachable.init [OF _ tx_init_step])
  have "te_live ?t3 = [0, 1, 2, 3]" "te_shutdown ?t3 = Some (2, Some 3)"
    using three by (simp_all add: numeral_eq_Suc)
  moreover have "set (te_live (metrics_Shutdown ?t3)) \<subseteq> {0, 1}"
    using no_provider_lost [OF r] by (simp add: being_stopped_def both_def)
  ultimately show ?thesis using r by blast
qed

end
