(* ===== verification/Platform.thy ===== *)
theory Platform
  imports Wire Chrono_System Relay_System Payment_Progress
begin

text \<open>
  The five services over one broker.  The core and the payment service each own a database and consume
  from the broker, each database has its relay, the sweeper reads the core's database, the gateway has
  none.  A step is one of the pieces the theories of the services use for concurrency: a transaction of
  the core, one stage of a delivery of the payment service, a sweep, a request.  A consumer may be
  handed any message of its subject that is on the broker, any number of times and in any order; every
  round trip may fail, and a process may lose what it has in flight at any time.
\<close>

section \<open>State\<close>

text \<open>A delivery of \<open>payment.process\<close> in flight: it has its context, or also its payment.\<close>

datatype job =
    Waited payment_requested reservation_context string
  | Opened payment_requested reservation_context string payment

record platform =
  pf_core :: "broker core_sys"
  pf_pay :: "broker payment_world"
  pf_jobs :: "job list"
  pf_gate :: "broker world_scheme"
  pf_bus :: broker

text \<open>The broker is shared: an operation that publishes runs on the broker of the platform.\<close>

abbreviation "on_bus b w \<equiv> pg_world.more_update (\<lambda>_. b) w"
abbreviation "gate_pub inject \<equiv> js_publish inject (br_send world.more world.more_update)"

text \<open>A use case the core has begun on account of a message.\<close>

fun backed :: "nats_msg list \<Rightarrow> pending \<Rightarrow> bool" where
  "backed log (ReserveWrite cmd now ev) \<longleftrightarrow>
     (\<exists>m\<in>set log. n_subject m = SubjectReservationReserve \<and> decode_reserve (n_data m) = Inr cmd)"
| "backed log (ConfirmWrite r) \<longleftrightarrow>
     (\<exists>m\<in>set log. n_subject m = SubjectPaymentSucceeded
        \<and> (\<exists>i. reservationRef (n_data m) = Inr i \<and> uuid_in i = Some (r_id r)))"
| "backed log (ReleaseWrite reason r) \<longleftrightarrow>
     (\<exists>m\<in>set log. (reason, n_subject m) \<in> {(reasonFailed, SubjectPaymentFailed),
           (reasonExpired, SubjectReservationExpired)}
        \<and> (\<exists>i. reservationRef (n_data m) = Inr i \<and> uuid_in i = Some (r_id r)))"

text \<open>The idempotency key of a payment command: its header, or the id of the message.\<close>

definition delivery_key :: "nats_msg \<Rightarrow> string" where
  "delivery_key m =
     (let key = hdr (m_headers (js_message m)) ''Idempotency-Key''
      in if key = '''' then m_id (js_message m) else key)"

section \<open>Steps\<close>

text \<open>The core, its relay and the sweeper on its database.\<close>

inductive core_moves ::
  "duration \<Rightarrow> (string \<Rightarrow> bool) \<Rightarrow> (headers \<Rightarrow> headers) \<Rightarrow> platform \<Rightarrow> platform \<Rightarrow> bool"
  for ttl v inject where
  consumes: "core_step (core_service ttl h v) (pf_core s) (w, ps) \<Longrightarrow>
     \<forall>c\<in>set ps. c \<in> set (snd (pf_core s)) \<or> backed (br_log (pf_bus s)) c \<Longrightarrow>
     core_moves ttl v inject s (s\<lparr>pf_core := (w, ps)\<rparr>)"
| relays: "relay_sweep (pg_relay inject tie i n) (on_bus (pf_bus s) (fst (pf_core s))) = (x, w) \<Longrightarrow>
     core_moves ttl v inject s (s\<lparr>pf_core := (w, snd (pf_core s)), pf_bus := pg_world.more w\<rparr>)"
| sweeps: "chrono_sweep (pg_sweeper inject locked tie via_float holds i n) (on_bus (pf_bus s) (fst (pf_core s)))
       = ((k, e), w) \<Longrightarrow> cleaner_safe holds \<Longrightarrow>
     core_moves ttl v inject s (s\<lparr>pf_core := (w, snd (pf_core s)), pf_bus := pg_world.more w\<rparr>)"

text \<open>The payment service and its relay.\<close>

inductive pay_moves ::
  "(payment_db, broker) pg_world_ext acquirer \<Rightarrow> (headers \<Rightarrow> headers) \<Rightarrow> platform \<Rightarrow> platform \<Rightarrow> bool"
  for acq inject where
  projects: "m \<in> set (br_log (pf_bus s)) \<Longrightarrow> n_subject m = SubjectTicketReserved \<Longrightarrow>
     onTicketReserved pg_contexts (js_message m) (pf_pay s) = (x, w) \<Longrightarrow>
     pay_moves acq inject s (s\<lparr>pf_pay := w\<rparr>)"
| waits: "m \<in> set (br_log (pf_bus s)) \<Longrightarrow> n_subject m = SubjectPaymentProcess \<Longrightarrow>
     decode_payment_process (n_data m) = Inr req \<Longrightarrow>
     waitContext (payment_processor acq) ctx (q_reservation_id req) (pf_pay s) = (Inr c, w) \<Longrightarrow>
     q_user_id req = c_user_id c \<Longrightarrow> key = delivery_key m \<Longrightarrow>
     q_reservation_id req \<noteq> [] \<and> q_user_id req \<noteq> [] \<and> key \<noteq> [] \<Longrightarrow>
     pay_moves acq inject s (s\<lparr>pf_pay := w, pf_jobs := Waited req c key # pf_jobs s\<rparr>)"
| refuses: "waitContext (payment_processor acq) ctx i (pf_pay s) = (x, w) \<Longrightarrow>
     pay_moves acq inject s (s\<lparr>pf_pay := w\<rparr>)"
| opens_payment: "Waited req c key \<in> set (pf_jobs s) \<Longrightarrow>
     loadOrCreate (payment_processor acq) req c key (pf_pay s) = (Inr p, w) \<Longrightarrow>
     pay_moves acq inject s
       (s\<lparr>pf_pay := w, pf_jobs := Opened req c key p # remove1 (Waited req c key) (pf_jobs s)\<rparr>)"
| opens_not: "Waited req c key \<in> set (pf_jobs s) \<Longrightarrow>
     loadOrCreate (payment_processor acq) req c key (pf_pay s) = (Inl e, w) \<Longrightarrow>
     pay_moves acq inject s (s\<lparr>pf_pay := w, pf_jobs := remove1 (Waited req c key) (pf_jobs s)\<rparr>)"
| decides_payment: "Opened req c key p \<in> set (pf_jobs s) \<Longrightarrow>
     decide (payment_processor acq) ctx req c key p (pf_pay s) = (x, w) \<Longrightarrow>
     pay_moves acq inject s (s\<lparr>pf_pay := w, pf_jobs := remove1 (Opened req c key p) (pf_jobs s)\<rparr>)"
| crashes: "pay_moves acq inject s (s\<lparr>pf_jobs := remove1 j (pf_jobs s)\<rparr>)"
| environs: "pay_moves acq inject s (s\<lparr>pf_pay := (pf_pay s)\<lparr>wall := t, pg_clock := t', faults := fs\<rparr>\<rparr>)"
| relays: "relay_sweep (pg_relay inject tie i n) (on_bus (pf_bus s) (pf_pay s)) = (x, w) \<Longrightarrow>
     pay_moves acq inject s (s\<lparr>pf_pay := w, pf_bus := pg_world.more w\<rparr>)"

text \<open>The platform: also a request to the gateway, and the broker on its own.\<close>

inductive pf_step ::
  "duration \<Rightarrow> (string \<Rightarrow> bool) \<Rightarrow> (payment_db, broker) pg_world_ext acquirer \<Rightarrow> (headers \<Rightarrow> headers) \<Rightarrow>
     (string \<rightharpoonup> string) \<Rightarrow> int \<Rightarrow> platform \<Rightarrow> platform \<Rightarrow> bool"
  for ttl v acq inject tokens q where
  core: "core_moves ttl v inject s s' \<Longrightarrow> pf_step ttl v acq inject tokens q s s'"
| pay: "pay_moves acq inject s s' \<Longrightarrow> pf_step ttl v acq inject tokens q s s'"
| request: "serve (gateway (gate_pub inject) q tokens) r (world.more_update (\<lambda>_. pf_bus s) (pf_gate s)) = (rw, g) \<Longrightarrow>
     pf_step ttl v acq inject tokens q s (s\<lparr>pf_gate := g, pf_bus := world.more g\<rparr>)"
| broker: "pf_step ttl v acq inject tokens q s (s\<lparr>pf_bus := (pf_bus s)\<lparr>br_old := k, br_script := fs\<rparr>\<rparr>)"

definition pf_start :: "platform \<Rightarrow> bool" where
  "pf_start s \<longleftrightarrow> db (fst (pf_core s)) = empty_core \<and> tx (fst (pf_core s)) = NoTx \<and> snd (pf_core s) = []
     \<and> db (pf_pay s) = \<lparr>t_outbox = [], t_payments = [], t_contexts = []\<rparr> \<and> tx (pf_pay s) = NoTx
     \<and> pf_jobs s = [] \<and> br_log (pf_bus s) = []"

inductive pf_reachable ::
  "duration \<Rightarrow> (string \<Rightarrow> bool) \<Rightarrow> (payment_db, broker) pg_world_ext acquirer \<Rightarrow> (headers \<Rightarrow> headers) \<Rightarrow>
     (string \<rightharpoonup> string) \<Rightarrow> int \<Rightarrow> platform \<Rightarrow> bool"
  for ttl v acq inject tokens q where
  start: "pf_start s \<Longrightarrow> pf_reachable ttl v acq inject tokens q s"
| step: "pf_reachable ttl v acq inject tokens q s \<Longrightarrow> pf_step ttl v acq inject tokens q s s' \<Longrightarrow>
     pf_reachable ttl v acq inject tokens q s'"

section \<open>Facts that travel\<close>

text \<open>The core has a reservation of this id for this user and amount.\<close>

definition ticket :: "core_db \<Rightarrow> string \<Rightarrow> string \<Rightarrow> int \<Rightarrow> bool" where
  "ticket d k u a \<longleftrightarrow> (\<exists>r\<in>set (t_reservations d). r_id r = k \<and> r_user_id r = u \<and> r_amount_cents r = a)"

text \<open>The payment service has published that a payment of this reservation succeeded.\<close>

definition paid :: "payment_db \<Rightarrow> string \<Rightarrow> bool" where
  "paid d k \<longleftrightarrow> (\<exists>p\<in>set (t_payments d). p_reservation_id p = k
     \<and> (\<exists>b\<in>set (t_outbox d). o_subject b = SubjectPaymentSucceeded \<and> (\<exists>g e. reports b p g e)))"

text \<open>A user of the token table, and a quantity the gateway lets through.\<close>

definition admitted :: "(string \<rightharpoonup> string) \<Rightarrow> int \<Rightarrow> string \<Rightarrow> int \<Rightarrow> bool" where
  "admitted tokens q u n \<longleftrightarrow> u \<in> ran tokens \<and> 1 \<le> n \<and> n \<le> q"

text \<open>What a message says is so.\<close>

definition truthful :: "(string \<Rightarrow> string \<Rightarrow> int \<Rightarrow> bool) \<Rightarrow> (string \<Rightarrow> bool) \<Rightarrow> (string \<Rightarrow> int \<Rightarrow> bool) \<Rightarrow>
    string \<Rightarrow> payload \<Rightarrow> bool" where
  "truthful T P A s p \<longleftrightarrow>
     (s = SubjectTicketReserved \<longrightarrow> (\<forall>c. decode_ticket_reserved p = Inr c \<longrightarrow>
        (\<exists>k. uuid_in (c_reservation_id c) = Some k \<and> T k (c_user_id c) (c_amount_cents c))))
   \<and> (s = SubjectPaymentSucceeded \<longrightarrow> (\<forall>i. reservationRef p = Inr i \<longrightarrow> (\<exists>k. uuid_in i = Some k \<and> P k)))
   \<and> (s = SubjectReservationReserve \<longrightarrow> (\<forall>cmd. decode_reserve p = Inr cmd \<longrightarrow> A (rc_user_id cmd) (rc_quantity cmd)))"

lemma truthful_mono:
  "truthful T P A s p \<Longrightarrow> (\<And>k u a. T k u a \<Longrightarrow> T' k u a) \<Longrightarrow> (\<And>k. P k \<Longrightarrow> P' k) \<Longrightarrow> truthful T' P' A s p"
  unfolding truthful_def by meson

lemma truthful_other:
  "s \<notin> {SubjectTicketReserved, SubjectPaymentSucceeded, SubjectReservationReserve} \<Longrightarrow> truthful T P A s p"
  by (simp add: truthful_def)

text \<open>The rows of an outbox, and the log of the broker.\<close>

definition rows_truthful ::
  "(string \<Rightarrow> string \<Rightarrow> int \<Rightarrow> bool) \<Rightarrow> (string \<Rightarrow> bool) \<Rightarrow> (string \<Rightarrow> int \<Rightarrow> bool) \<Rightarrow> outbox_row list \<Rightarrow> bool" where
  "rows_truthful T P A rows \<longleftrightarrow> (\<forall>b\<in>set rows. truthful T P A (o_subject b) (Some (o_payload b)))"

definition log_truthful ::
  "(string \<Rightarrow> string \<Rightarrow> int \<Rightarrow> bool) \<Rightarrow> (string \<Rightarrow> bool) \<Rightarrow> (string \<Rightarrow> int \<Rightarrow> bool) \<Rightarrow> sent list \<Rightarrow> bool" where
  "log_truthful T P A log \<longleftrightarrow> (\<forall>(k, s, p)\<in>set log. truthful T P A s p)"

fun in_flight :: "(string \<Rightarrow> bool) \<Rightarrow> (string \<Rightarrow> int \<Rightarrow> bool) \<Rightarrow> pending \<Rightarrow> bool" where
  "in_flight P A (ReserveWrite cmd now ev) = A (rc_user_id cmd) (rc_quantity cmd)"
| "in_flight P A (ConfirmWrite r) = P (r_id r)"
| "in_flight P A (ReleaseWrite reason r) = True"

fun job_ok :: "(string \<Rightarrow> string \<Rightarrow> int \<Rightarrow> bool) \<Rightarrow> payment_db \<Rightarrow> job \<Rightarrow> bool" where
  "job_ok T d (Waited req c key) \<longleftrightarrow>
     (\<exists>k. uuid_in (q_reservation_id req) = Some k \<and> T k (c_user_id c) (c_amount_cents c))"
| "job_ok T d (Opened req c key p) \<longleftrightarrow> known d (req, c, key, p)"

definition tables_ok :: "(string \<Rightarrow> bool) \<Rightarrow> (string \<Rightarrow> int \<Rightarrow> bool) \<Rightarrow> core_db \<Rightarrow> bool" where
  "tables_ok P A d \<longleftrightarrow> rows_truthful (ticket d) P A (t_outbox d)
     \<and> (\<forall>r\<in>set (t_reservations d). A (r_user_id r) (r_quantity r) \<and> (r_status r = CONFIRMED \<longrightarrow> P (r_id r)))"

definition core_ok :: "(string \<Rightarrow> bool) \<Rightarrow> (string \<Rightarrow> int \<Rightarrow> bool) \<Rightarrow> broker core_sys \<Rightarrow> bool" where
  "core_ok P A s \<longleftrightarrow> sys_inv s \<and> (\<forall>c\<in>set (snd s). in_flight P A c) \<and> tables_ok P A (db (fst s))"

definition books_ok :: "(string \<Rightarrow> string \<Rightarrow> int \<Rightarrow> bool) \<Rightarrow> (string \<Rightarrow> int \<Rightarrow> bool) \<Rightarrow> payment_db \<Rightarrow> bool" where
  "books_ok T A d \<longleftrightarrow> payment_inv d \<and> rows_truthful T (paid d) A (t_outbox d)
     \<and> (\<forall>c\<in>set (t_contexts d). T (c_reservation_id c) (c_user_id c) (c_amount_cents c))
     \<and> (\<forall>p\<in>set (t_payments d). T (p_reservation_id p) (p_user_id p) (p_amount_cents p))"

definition pay_ok :: "(string \<Rightarrow> string \<Rightarrow> int \<Rightarrow> bool) \<Rightarrow> (string \<Rightarrow> int \<Rightarrow> bool) \<Rightarrow> broker payment_world \<Rightarrow> job list \<Rightarrow> bool" where
  "pay_ok T A w js \<longleftrightarrow> tx w = NoTx \<and> books_ok T A (db w) \<and> (\<forall>j\<in>set js. job_ok T (db w) j)"

definition pf_inv :: "(string \<rightharpoonup> string) \<Rightarrow> int \<Rightarrow> platform \<Rightarrow> bool" where
  "pf_inv tokens q s \<longleftrightarrow>
     (let T = ticket (db (fst (pf_core s))); P = paid (db (pf_pay s)); A = admitted tokens q
      in core_ok P A (pf_core s) \<and> pay_ok T A (pf_pay s) (pf_jobs s)
         \<and> log_truthful T P A (map wire_sent (br_log (pf_bus s))))"

section \<open>What the core does\<close>

text \<open>The write phase of a use case, by the use case.\<close>

lemma write_phase_detail:
  assumes run: "WithinTx (write_phase (core_service ttl h v) c) w = (x, w')"
    and inv: "tx w = NoTx" "core_inv (db w)" "pending_ok (db w) c"
  obtains (same) "db w' = db w"
    | (booked) cmd now ev e r b cur a where "c = ReserveWrite cmd now ev" "books (db w) e r b (db w')"
        "r = stored (r_id r) (r_event_id r) cur a" "uuid_in (r_id a) = Some (r_id r)"
        "TicketReservedPayload a = Inr (o_payload b)" "r_user_id r = rc_user_id cmd" "r_quantity r = rc_quantity cmd"
        "requested (core_service ttl h v) cmd now ev a"
    | (settled) s e r b where "settles (db w) s e r b (db w')" "s = CONFIRMED \<Longrightarrow> c = ConfirmWrite r"
proof -
  let ?B = "\<lambda>d d'. \<exists>cmd now ev e r b cur a. c = ReserveWrite cmd now ev \<and> books d e r b d'
      \<and> r = stored (r_id r) (r_event_id r) cur a \<and> uuid_in (r_id a) = Some (r_id r)
      \<and> TicketReservedPayload a = Inr (o_payload b) \<and> r_user_id r = rc_user_id cmd \<and> r_quantity r = rc_quantity cmd
      \<and> requested (core_service ttl h v) cmd now ev a"
  let ?S = "\<lambda>d d'. \<exists>s e r b. settles d s e r b d' \<and> (s = CONFIRMED \<longrightarrow> c = ConfirmWrite r)"
  let ?P = "\<lambda>(_ :: reservation) d d'. d' = d \<or> ?B d d' \<or> ?S d d'"
  have body: "tx_body (write_phase (core_service ttl h v) c)"
    by (cases c) (simp_all add: tx_keep)
  have eff: "?P a (db w) (db w2)"
    if r: "write_phase (core_service ttl h v) c (begun w) = (Inr a, w2)" for a w2
  proof (cases c)
    case (ReserveWrite cmd now ev)
    with r pg.reserve_write_books [of ttl h v cmd now ev "begun w" a w2] obtain e y b cur where
      b: "books (db w) e y b (db w2)" "y = stored (r_id y) (r_event_id y) cur a" "uuid_in (r_id a) = Some (r_id y)"
        "TicketReservedPayload a = Inr (o_payload b)" and q: "requested (core_service ttl h v) cmd now ev a" by auto
    from b(2) have "r_user_id y = r_user_id a \<and> r_quantity y = r_quantity a"
      by (rule ssubst) (simp add: stored_def)
    with q have "r_user_id y = rc_user_id cmd \<and> r_quantity y = rc_quantity cmd" by (simp add: requested_def)
    with b q ReserveWrite have "?B (db w) (db w2)" by blast
    then show ?thesis by blast
  next
    case (ConfirmWrite r0)
    with r inv pg.confirm_loaded_settles [of ttl h v r0 "begun w" a w2]
    have "db w2 = db w \<or> (\<exists>e b. settles (db w) CONFIRMED e r0 b (db w2))"
      by (auto simp: core_inv_def)
    with ConfirmWrite show ?thesis by blast
  next
    case (ReleaseWrite reason r0)
    with r inv pg.release_loaded_settles [of ttl h v reason r0 "begun w" a w2]
    have "db w2 = db w \<or> (\<exists>e b. settles (db w) (released_as reason) e r0 b (db w2))"
      by (auto simp: core_inv_def)
    then have "db w2 = db w \<or> (\<exists>s e b. settles (db w) s e r0 b (db w2) \<and> s \<noteq> CONFIRMED)"
      using released_as_final(2) by blast
    then show ?thesis by blast
  qed
  from unit_of_work(2) [OF run inv(1) body, of ?P] eff have "?P undefined (db w) (db w')" by blast
  then consider "db w' = db w" | "?B (db w) (db w')" | "?S (db w) (db w')" by blast
  then show thesis
  proof cases
    case 2
    then show thesis by (elim exE conjE) (rule booked)
  next
    case 3
    then show thesis by (elim exE conjE) (rule settled, blast+)
  qed (rule same)
qed

lemma SubjectFor_tickets [simp]:
  "SubjectFor TypeTicketReserved = SubjectTicketReserved" "SubjectFor TypeTicketConfirmed = SubjectTicketConfirmed"
  "SubjectFor TypeTicketReleased = SubjectTicketReleased" "SubjectFor TypePaymentSucceeded = SubjectPaymentSucceeded"
  "SubjectFor TypePaymentFailed = SubjectPaymentFailed"
  by (simp_all add: SubjectFor_def type_defs)

lemma rows_truthful_snoc:
  "rows_truthful T P A (rows @ [b]) \<longleftrightarrow> rows_truthful T P A rows \<and> truthful T P A (o_subject b) (Some (o_payload b))"
  by (auto simp: rows_truthful_def)

lemma rows_truthful_mono:
  "rows_truthful T P A rows \<Longrightarrow> (\<And>k u a. T k u a \<Longrightarrow> T' k u a) \<Longrightarrow> (\<And>k. P k \<Longrightarrow> P' k) \<Longrightarrow>
     rows_truthful T' P' A rows"
  unfolding rows_truthful_def by (blast intro: truthful_mono [of T P A _ _ T' P'])

text \<open>Only the subject and the payload of a row matter.\<close>

abbreviation "said rows \<equiv> map (\<lambda>b. (o_subject b, o_payload b)) rows"

lemma rows_truthful_cong:
  assumes "said rows' = said rows" shows "rows_truthful T P A rows' = rows_truthful T P A rows"
proof -
  have *: "rows_truthful T P A xs \<longleftrightarrow> (\<forall>(s, p)\<in>set (said xs). truthful T P A s (Some p))" for xs
    by (auto simp: rows_truthful_def)
  show ?thesis unfolding * assms ..
qed

lemma booking_ticket: "books d e r b d' \<Longrightarrow> ticket d k u a \<Longrightarrow> ticket d' k u a"
  by (auto simp: books_def ticket_def)

lemma booking_tables:
  assumes "tables_ok P A d" "books d e r b d'" "A (r_user_id r) (r_quantity r)"
    and "r = stored (r_id r) (r_event_id r) cur a" "uuid_in (r_id a) = Some (r_id r)"
    and "TicketReservedPayload a = Inr (o_payload b)"
  shows "tables_ok P A d'"
proof -
  from assms(2) have d': "t_reservations d' = t_reservations d @ [r]" "t_outbox d' = t_outbox d @ [b]"
    "r_status r = PENDING" "o_subject b = SubjectTicketReserved"
    by (auto simp: books_def announces_def)
  have same: "r_user_id r = r_user_id a \<and> r_amount_cents r = r_amount_cents a"
    by (subst assms(4), subst (2) assms(4)) (simp add: stored_def)
  have "ticket d' (r_id r) (r_user_id a) (r_amount_cents a)"
    using d'(1) same by (auto simp: ticket_def)
  with decoded_TicketReserved [OF assms(6)] assms(5)
  have "truthful (ticket d') P A (o_subject b) (Some (o_payload b))"
    by (auto simp: truthful_def d'(4) subject_defs)
  with assms(1-3) d' show ?thesis
    by (auto simp: tables_ok_def rows_truthful_snoc intro: rows_truthful_mono booking_ticket)
qed

lemma settlement_parts:
  assumes "settles d s e r b d'"
  obtains c u where "set (t_reservations d') = insert (r\<lparr>r_status := s, r_confirmed_at := c,
      r_version := r_version r + 1, r_updated_at := u\<rparr>) {x \<in> set (t_reservations d). r_id x \<noteq> r_id r}"
    "t_outbox d' = t_outbox d @ [b]" "r \<in> set (t_reservations d)"
    "o_subject b \<in> {SubjectTicketConfirmed, SubjectTicketReleased}"
proof -
  from assms obtain t u c where
    d': "d' = settled ((moved_counts s (r_quantity r) e)\<lparr>e_updated_at := t\<rparr>)
          (r\<lparr>r_status := s, r_confirmed_at := c, r_version := r_version r + 1, r_updated_at := u\<rparr>) b d"
    and r: "r \<in> set (t_reservations d)" and b: "o_subject b = SubjectFor (closing_type s)"
    by (auto simp: settles_def announces_def)
  from r b show thesis
    by (intro that [of u c]) (simp_all add: d' set_write_reservation [of r], cases s, simp_all)
qed

lemma settlement_ticket:
  assumes "wf_core d" "settles d s e r b d'" "ticket d k u a" shows "ticket d' k u a"
proof (rule settlement_parts [OF assms(2)])
  fix c v
  assume *: "set (t_reservations d') = insert (r\<lparr>r_status := s, r_confirmed_at := c,
      r_version := r_version r + 1, r_updated_at := v\<rparr>) {x \<in> set (t_reservations d). r_id x \<noteq> r_id r}"
    and r: "r \<in> set (t_reservations d)"
  from assms(3) obtain x where x: "x \<in> set (t_reservations d)" "r_id x = k" "r_user_id x = u" "r_amount_cents x = a"
    by (auto simp: ticket_def)
  show ?thesis
  proof (cases "r_id x = r_id r")
    case True
    with assms(1) x(1) r have "x = r" by (auto simp: wf_core_def dest: distinct_key_eq)
    with x show ?thesis unfolding ticket_def * by simp
  next
    case False
    with x show ?thesis unfolding ticket_def * by blast
  qed
qed

lemma settlement_tables:
  assumes "tables_ok P A d" "wf_core d" "settles d s e r b d'" "s = CONFIRMED \<Longrightarrow> P (r_id r)"
  shows "tables_ok P A d'"
proof (rule settlement_parts [OF assms(3)])
  fix c v
  assume *: "set (t_reservations d') = insert (r\<lparr>r_status := s, r_confirmed_at := c,
      r_version := r_version r + 1, r_updated_at := v\<rparr>) {x \<in> set (t_reservations d). r_id x \<noteq> r_id r}"
    and d': "t_outbox d' = t_outbox d @ [b]" "r \<in> set (t_reservations d)"
    and b: "o_subject b \<in> {SubjectTicketConfirmed, SubjectTicketReleased}"
  from b have "truthful (ticket d') P A (o_subject b) (Some (o_payload b))"
    by (intro truthful_other) (auto simp: subject_defs)
  with assms(1) have "rows_truthful (ticket d') P A (t_outbox d')"
    using settlement_ticket [OF assms(2,3)]
    by (auto simp: tables_ok_def d'(1) rows_truthful_snoc intro: rows_truthful_mono)
  with assms(1,4) d'(2) show ?thesis unfolding tables_ok_def * by auto
qed

lemma set_remove1_in: "x \<in> set (remove1 y xs) \<Longrightarrow> x \<in> set xs"
  using set_remove1_subset by fast

text \<open>A step of the core, whatever it is, keeps the facts of its tables and every ticket.\<close>

lemma core_step_tables:
  assumes "core_step (core_service ttl h v) s s'" "core_ok P A s"
  shows "tables_ok P A (db (fst s')) \<and> (\<forall>k u a. ticket (db (fst s)) k u a \<longrightarrow> ticket (db (fst s')) k u a)"
proof -
  have inv: "sys_inv s" and ok: "tables_ok P A (db (fst s))" and fl: "\<forall>c\<in>set (snd s). in_flight P A c"
    using assms(2) by (auto simp: core_ok_def)
  have frame: ?thesis if "t_reservations (db (fst s')) = t_reservations (db (fst s))"
    "said (t_outbox (db (fst s'))) = said (t_outbox (db (fst s)))"
  proof -
    have t: "ticket (db (fst s')) = ticket (db (fst s))" using that(1) by (simp add: ticket_def fun_eq_iff)
    with ok that(1) rows_truthful_cong [OF that(2)] show ?thesis by (simp add: tables_ok_def)
  qed
  from assms(1) show ?thesis
  proof (cases rule: core_step.cases)
    case (read_reserve cmd w ev w' now ps)
    then show ?thesis using Event_read [of "rc_event_id cmd" w ev w'] by (intro frame) simp_all
  next
    case (read_confirm i w r w' ps)
    moreover from this inv have "wf_core (db w)" by (simp add: sys_inv_def core_inv_def)
    ultimately show ?thesis using load_read [of ttl h v i w r w'] by (intro frame) simp_all
  next
    case (read_release i w r w' ps reason)
    moreover from this inv have "wf_core (db w)" by (simp add: sys_inv_def core_inv_def)
    ultimately show ?thesis using load_read [of ttl h v i w r w'] by (intro frame) simp_all
  next
    case (write_commit c ps w x w')
    with inv have pre: "tx w = NoTx" "core_inv (db w)" "pending_ok (db w) c" and wf: "wf_core (db w)"
      by (auto simp: sys_inv_def core_inv_def)
    have t0: "tables_ok P A (db w)" and c: "in_flight P A c" using ok fl write_commit by auto
    from write_commit(4) pre have "tables_ok P A (db w') \<and> (\<forall>k u a. ticket (db w) k u a \<longrightarrow> ticket (db w') k u a)"
    proof (cases rule: write_phase_detail)
      case same
      with t0 show ?thesis by simp
    next
      case (booked cmd now ev e r b cur a)
      with c have "A (r_user_id r) (r_quantity r)" by simp
      from booking_tables [OF t0 booked(2) this booked(3-5)] booking_ticket [OF booked(2)] show ?thesis by blast
    next
      case (settled t e r b)
      have "t = CONFIRMED \<Longrightarrow> P (r_id r)" using settled(2) c by auto
      from settlement_tables [OF t0 wf settled(1) this] settlement_ticket [OF wf settled(1)] show ?thesis by blast
    qed
    then show ?thesis using write_commit by simp
  next
    case (relayed w ps S t)
    then show ?thesis by (intro frame) simp_all
  qed (intro frame; simp)+
qed

lemma log_truthful_message:
  assumes "log_truthful T P A (map wire_sent log)" "m \<in> set log"
  shows "truthful T P A (n_subject m) (n_data m)"
  using assms by (force simp: log_truthful_def wire_sent_def)

lemma backed_in_flight:
  assumes "backed log c" "log_truthful T P A (map wire_sent log)"
  shows "in_flight P A c"
proof -
  note m = log_truthful_message [OF assms(2)]
  show ?thesis
  proof (cases c)
    case (ReserveWrite cmd now ev)
    with assms(1) m show ?thesis by (fastforce simp: truthful_def)
  next
    case (ConfirmWrite r)
    with assms(1) m show ?thesis by (fastforce simp: truthful_def)
  qed simp
qed

lemma core_step_ok:
  assumes "core_step (core_service ttl h v) s (w, ps)" "core_ok P A s"
    and "\<forall>c\<in>set ps. c \<in> set (snd s) \<or> backed log c" "log_truthful T P A (map wire_sent log)"
  shows "core_ok P A (w, ps) \<and> (\<forall>k u a. ticket (db (fst s)) k u a \<longrightarrow> ticket (db w) k u a)"
proof -
  have "\<forall>c\<in>set ps. in_flight P A c"
    using assms(2,3) backed_in_flight [OF _ assms(4)] by (auto simp: core_ok_def)
  with core_step_tables [OF assms(1,2)] sys_inv_step [OF assms(1)] assms(2) show ?thesis
    by (simp add: core_ok_def)
qed

section \<open>What a relay does\<close>

lemma relay_parts:
  assumes "relay_sweep (pg_relay inject tie i n) (w :: 'x relay_world) = (x, w')" "tx w = NoTx"
  obtains c t new where
    "db w' = (db w)\<lparr>t_outbox := map (\<lambda>b. if c b then b\<lparr>o_processed_at := t\<rparr> else b) (t_outbox (db w))\<rparr>"
    "br_sent w' = br_sent w @ new" "set new \<subseteq> sent_row ` set (t_outbox (db w))" "tx w' = NoTx"
proof -
  from assms(1) have run: "relay_sweep \<lparr>rl_store = Some (pg_store tie), rl_bus = Some (br_pub inject),
      rl_interval = i, rl_batch = n\<rparr> w = (x, w')"
    by (simp add: pg_relay_def NewRelay_def)
  obtain k new where eff: "br_sent w' = br_sent w @ new"
      "subseq new (map sent_row (take (Suc k) (oldest tie n (t_outbox (db w)))))"
      "t_outbox (db w') = t_outbox (db w) \<or> (\<exists>t ks. t_outbox (db w') = mark t ks (t_outbox (db w)))"
    using hz.sweep_effect [OF run] by blast
  have "set new \<subseteq> sent_row ` set (take (Suc k) (oldest tie n (t_outbox (db w))))"
    using subseq_set [OF eff(2)] by simp
  also have "\<dots> \<subseteq> sent_row ` set (t_outbox (db w))" by (meson image_mono in_set_takeD oldest_rows subsetI)
  finally have new: "set new \<subseteq> sent_row ` set (t_outbox (db w))" .
  have db: "db w' = (db w)\<lparr>t_outbox := t_outbox (db w')\<rparr>" using pg_sweep_more [OF assms(1)] by simp
  from eff(3) obtain c t where
    "t_outbox (db w') = map (\<lambda>b. if c b then b\<lparr>o_processed_at := t\<rparr> else b) (t_outbox (db w))"
  proof
    assume "t_outbox (db w') = t_outbox (db w)"
    then show thesis by (intro that [of "\<lambda>_. False" None]) simp
  next
    assume "\<exists>t ks. t_outbox (db w') = mark t ks (t_outbox (db w))"
    then show thesis unfolding mark_def by (elim exE) (rule that)
  qed
  with db have "db w' = (db w)\<lparr>t_outbox := map (\<lambda>b. if c b then b\<lparr>o_processed_at := t\<rparr> else b) (t_outbox (db w))\<rparr>"
    by simp
  from that [OF this eff(1) new pg_sweep_NoTx [OF assms]] show thesis .
qed

lemma said_marked [simp]: "said (map (\<lambda>b. if c b then b\<lparr>o_processed_at := t\<rparr> else b) rows) = said rows"
  by simp

lemma log_truthful_append [simp]:
  "log_truthful T P A (xs @ ys) \<longleftrightarrow> log_truthful T P A xs \<and> log_truthful T P A ys"
  by (simp add: log_truthful_def ball_Un)

lemma log_truthful_mono:
  "log_truthful T P A log \<Longrightarrow> (\<And>k u a. T k u a \<Longrightarrow> T' k u a) \<Longrightarrow> (\<And>k. P k \<Longrightarrow> P' k) \<Longrightarrow> log_truthful T' P' A log"
  unfolding log_truthful_def by (blast intro: truthful_mono [of T P A _ _ T' P'])

lemma sent_truthful:
  assumes "rows_truthful T P A rows" "set new \<subseteq> sent_row ` set rows"
  shows "log_truthful T P A new"
  using assms by (fastforce simp: log_truthful_def rows_truthful_def sent_row_def)

lemma core_relay_ok:
  assumes "relay_sweep (pg_relay inject tie i n) w = (x, w')" "core_ok P A (w, ps)"
    and "log_truthful (ticket (db w)) P A (br_sent w)"
  shows "core_ok P A (w', ps) \<and> ticket (db w') = ticket (db w) \<and> log_truthful (ticket (db w)) P A (br_sent w')"
proof -
  have inv: "sys_inv (w, ps)" and ok: "tables_ok P A (db w)" using assms(2) by (auto simp: core_ok_def)
  then have tx: "tx w = NoTx" and core: "core_inv (db w)" and pend: "\<forall>c\<in>set ps. pending_ok (db w) c"
    by (auto simp: sys_inv_def)
  from assms(1) tx obtain c t new where
    db: "db w' = (db w)\<lparr>t_outbox := map (\<lambda>b. if c b then b\<lparr>o_processed_at := t\<rparr> else b) (t_outbox (db w))\<rparr>"
    and log: "br_sent w' = br_sent w @ new" "set new \<subseteq> sent_row ` set (t_outbox (db w))" and tx': "tx w' = NoTx"
    by (rule relay_parts)
  have rs: "t_reservations (db w') = t_reservations (db w)" by (simp add: db)
  have t: "ticket (db w') = ticket (db w)" by (simp add: ticket_def fun_eq_iff rs)
  have "said (t_outbox (db w')) = said (t_outbox (db w))" unfolding db by simp
  from rows_truthful_cong [OF this] ok have "tables_ok P A (db w')" by (simp add: tables_ok_def t rs)
  moreover have "sys_inv (w', ps)"
    using tx' relayed_db [OF core, of c t] pend pending_ok_seen [of "db w" "db w'"] seen_cong [OF rs]
    by (auto simp: sys_inv_def db)
  moreover have "log_truthful (ticket (db w)) P A new"
    using ok log(2) by (intro sent_truthful) (simp_all add: tables_ok_def)
  ultimately show ?thesis using assms(2,3) t log(1) by (simp add: core_ok_def)
qed

lemma sweep_ok:
  assumes "chrono_sweep (pg_sweeper inject locked tie via_float holds i n) w = ((k, e), w')" "cleaner_safe holds"
    and "core_ok P A (w, ps)" "log_truthful T P A (br_sent w)"
  shows "core_ok P A (w', ps) \<and> db w' = db w \<and> log_truthful T P A (br_sent w')"
proof -
  have tx: "tx w = NoTx" using assms(3) by (simp add: core_ok_def sys_inv_def)
  from chrono_sweep_effect [OF assms(1) tx assms(2)] obtain new where
    eff: "db w' = db w" "tx w' = NoTx" "br_sent w' = br_sent w @ new"
      "subseq new (map (expired_sent (wall w)) (map expired_of (expired_batch (pg_clock w) locked tie n (db w))))"
    by blast
  have "truthful T P A s p" if "(k, s, p) \<in> set new" for k s p
  proof -
    from subseq_set [OF eff(4)] that have "s = SubjectReservationExpired"
      by (auto simp: expired_sent_def)
    then show ?thesis by (intro truthful_other) (simp add: subject_defs)
  qed
  then have "log_truthful T P A new" by (auto simp: log_truthful_def)
  with assms(3,4) eff show ?thesis by (simp add: core_ok_def sys_inv_def)
qed

lemma request_ok:
  assumes "serve (gateway (gate_pub inject) q tokens) r g = (rw, g')"
    and "log_truthful T P (admitted tokens q) (map wire_sent (br_log (world.more g)))"
  shows "log_truthful T P (admitted tokens q) (map wire_sent (br_log (world.more g')))"
proof -
  from serve_identity [OF gwb.command_bus_axioms assms(1)] obtain new where
    new: "map wire_sent (br_log (world.more g')) = map wire_sent (br_log (world.more g)) @ new"
    and what: "\<And>k s p. (k, s, p) \<in> set new \<Longrightarrow> \<exists>user. user \<in> ran tokens
      \<and> ((s = SubjectReservationReserve \<and> (\<exists>cmd. decode_reserve p = Inr cmd \<and> rc_user_id cmd = user
            \<and> 1 \<le> rc_quantity cmd \<and> rc_quantity cmd \<le> q)) \<or> s = SubjectPaymentProcess)"
    by fast
  have "truthful T P (admitted tokens q) s p" if "(k, s, p) \<in> set new" for k s p
    using what [OF that] by (auto simp: truthful_def admitted_def subject_defs)
  then have "log_truthful T P (admitted tokens q) new" by (auto simp: log_truthful_def)
  with assms(2) new show ?thesis by simp
qed

section \<open>What the payment service does\<close>

lemma paid_opens: "opens d q p d' \<Longrightarrow> paid d k \<Longrightarrow> paid d' k"
  by (fastforce simp: opens_def paid_def)

lemma paid_repeats: "repeats d q b d' \<Longrightarrow> paid d k \<Longrightarrow> paid d' k"
  by (fastforce simp: repeats_def adds_row_def paid_def)

lemma paid_decides:
  assumes "decides d q st g e b d'" "paid d k" shows "paid d' k"
proof -
  from assms(1) obtain i where pay: "t_payments d' = t_payments (set_status i st g e d)" "t_outbox d' = t_outbox d @ [b]"
    by (auto simp: decides_def adds_row_def)
  from assms(2) obtain p c x y where p: "p \<in> set (t_payments d)" "p_reservation_id p = k"
    "c \<in> set (t_outbox d)" "o_subject c = SubjectPaymentSucceeded" "reports c p x y"
    by (auto simp: paid_def)
  let ?p = "if p_id p = i then p\<lparr>p_status := st, p_gateway_ref := g, p_failure_reason := e\<rparr> else p"
  have "?p \<in> set (t_payments d')" using p(1) by (auto simp: pay set_status_row)
  moreover have "p_reservation_id ?p = k" "reports c ?p x y" using p by auto
  moreover have "c \<in> set (t_outbox d')" using p(3) pay(2) by simp
  ultimately show ?thesis using p(4) unfolding paid_def by blast
qed

text \<open>An outcome event is true of a payment that is there.\<close>

lemma outcome_truthful:
  assumes "o_subject b = SubjectFor (o_event_type b)" "o_event_type b = outcome_type st" "st \<noteq> PAY_PENDING"
    and "o_correlation_id b = p_reservation_id q" "o_payload b = PaymentOutcomePayload q g e"
    and "p \<in> set (t_payments d)" "copy_of q p" "b \<in> set (t_outbox d)"
  shows "truthful T (paid d) A (o_subject b) (Some (o_payload b))"
proof (cases "st = PAY_SUCCEEDED")
  case True
  then have s: "o_subject b = SubjectPaymentSucceeded" using assms(1,2) by simp
  have "paid d (p_reservation_id p)"
    using assms(4-8) s unfolding paid_def reports_def by blast
  moreover have "uuid_in (p_reservation_id q) = Some (p_reservation_id p)" using assms(7) by (simp add: copy_of_def)
  ultimately show ?thesis
    by (auto simp: truthful_def s assms(5) ref_PaymentOutcome subject_defs)
next
  case False
  with assms(1-3) have "o_subject b = SubjectPaymentFailed" by (cases st) simp_all
  then show ?thesis by (intro truthful_other) (simp add: subject_defs)
qed

lemma books_ok_inv: "books_ok T A d \<Longrightarrow> payment_inv d"
  by (simp add: books_ok_def)

lemma opens_books:
  assumes "books_ok T A d" "opens d (new_payment req c key i) p d'"
    and "uuid_in (q_reservation_id req) = Some k" "T k (c_user_id c) (c_amount_cents c)"
  shows "books_ok T A d'"
proof -
  have "payment_inv d'"
    by (rule opens_inv [OF books_ok_inv [OF assms(1)] assms(2)]) (simp add: new_payment_def)
  moreover have "p_reservation_id p = k \<and> p_user_id p = c_user_id c \<and> p_amount_cents p = c_amount_cents c"
    using assms(2,3) by (simp add: opens_def copy_of_def new_payment_def)
  moreover have "t_payments d' = t_payments d @ [p]" "t_outbox d' = t_outbox d" "t_contexts d' = t_contexts d"
    using assms(2) by (simp_all add: opens_def)
  ultimately show ?thesis
    using assms(1,4) rows_truthful_mono [of T "paid d" A _ T "paid d'"] paid_opens [OF assms(2)]
    by (auto simp: books_ok_def)
qed

lemma repeats_books:
  assumes "books_ok T A d" "repeats d q b d'" "p \<in> set (t_payments d)" "copy_of q p"
  shows "books_ok T A d'"
proof -
  have "payment_inv d'" by (rule repeats_inv [OF books_ok_inv [OF assms(1)] assms(2-4)])
  moreover have d': "t_payments d' = t_payments d" "t_outbox d' = t_outbox d @ [b]" "t_contexts d' = t_contexts d"
    using assms(2) by (simp_all add: repeats_def adds_row_def)
  moreover have "truthful T (paid d') A (o_subject b) (Some (o_payload b))"
  proof -
    from assms(2) obtain g e where "o_payload b = PaymentOutcomePayload q g e" by (auto simp: repeats_def)
    with assms(2-4) d' show ?thesis
      by (intro outcome_truthful [of b "p_status q" q g e p d']) (simp_all add: repeats_def)
  qed
  ultimately show ?thesis
    using assms(1) rows_truthful_mono [of T "paid d" A _ T "paid d'"] paid_repeats [OF assms(2)]
    by (auto simp: books_ok_def rows_truthful_snoc)
qed

lemma decides_books:
  assumes "books_ok T A d" "decides d q st g e b d'" "p \<in> set (t_payments d)" "copy_of q p"
  shows "books_ok T A d'"
proof -
  have "payment_inv d'" by (rule decides_inv [OF books_ok_inv [OF assms(1)] assms(2-4)])
  moreover from assms(2) obtain i where d': "t_payments d' = t_payments (set_status i st g e d)"
    "t_outbox d' = t_outbox d @ [b]" "t_contexts d' = t_contexts d"
    by (auto simp: decides_def adds_row_def)
  moreover have "truthful T (paid d') A (o_subject b) (Some (o_payload b))"
  proof -
    let ?p = "if p_id p = i then p\<lparr>p_status := st, p_gateway_ref := g, p_failure_reason := e\<rparr> else p"
    have "?p \<in> set (t_payments d')" using assms(3) by (auto simp: d' set_status_row)
    moreover have "copy_of q ?p" using assms(4) by simp
    ultimately show ?thesis using assms(2) d'
      by (intro outcome_truthful [of b st q g e ?p d']) (simp_all add: decides_def)
  qed
  ultimately show ?thesis
    using assms(1) rows_truthful_mono [of T "paid d" A _ T "paid d'"] paid_decides [OF assms(2)]
    by (auto simp: books_ok_def rows_truthful_snoc set_status_row)
qed

text \<open>A projected context is one a truthful message described.\<close>

lemma project_contexts:
  assumes "onTicketReserved pg_contexts msg w = (x, w')"
  shows "\<forall>c\<in>set (t_contexts (db w')). c \<in> set (t_contexts (db w)) \<or>
    (\<exists>c0 k. decode_ticket_reserved (m_payload msg) = Inr c0 \<and> uuid_in (c_reservation_id c0) = Some k
       \<and> c_reservation_id c = k \<and> c_user_id c = c_user_id c0 \<and> c_amount_cents c = c_amount_cents c0)"
proof (cases "decode_ticket_reserved (m_payload msg)")
  case (Inl e)
  with assms show ?thesis by (auto simp: onTicketReserved_def)
next
  case (Inr c0)
  obtain y w1 where y: "stmt (upsert_context c0) w = (y, w1)" by fastforce
  with assms Inr have w': "w' = w1"
    by (cases y) (auto simp: onTicketReserved_def Contexts_Upsert_def op_simps andThen_def wrapErr_def split: sum.splits)
  have up: "c \<in> set (t_contexts d) \<or> (\<exists>k. uuid_in (c_reservation_id c0) = Some k
      \<and> c_reservation_id c = k \<and> c_user_id c = c_user_id c0 \<and> c_amount_cents c = c_amount_cents c0)"
    if "upsert_context c0 now d0 = (Inr n, d')" "c \<in> set (t_contexts d')" "d = d0" for now d0 n d' c d
    using that by (auto simp: upsert_context_def Let_def split: option.splits if_splits)
  show ?thesis
  proof (cases y)
    case (Inl e)
    with y stmt_Inl [of "upsert_context c0" w e w1] up Inr show ?thesis unfolding w' by fastforce
  next
    case (Inr n)
    with y have "stmt (upsert_context c0) w = (Inr n, w1)" by simp
    then obtain d where "upsert_context c0 (pg_clock w) (db w) = (Inr n, d)" "db w1 = d"
      by (rule stmt_Inr) simp
    with up \<open>decode_ticket_reserved (m_payload msg) = Inr c0\<close> show ?thesis unfolding w' by blast
  qed
qed

lemma project_ok:
  assumes "onTicketReserved pg_contexts (js_message m) w = (x, w')" "pay_ok T A w js"
    and "n_subject m = SubjectTicketReserved" "truthful T P A (n_subject m) (n_data m)"
  shows "pay_ok T A w' js \<and> (\<forall>k. paid (db w) k \<longrightarrow> paid (db w') k)"
proof -
  from project_frame [OF assms(1)] have fr: "t_payments (db w') = t_payments (db w)"
    "t_outbox (db w') = t_outbox (db w)" "tx w = NoTx \<Longrightarrow> tx w' = NoTx" by auto
  have p: "paid (db w') = paid (db w)" by (simp add: paid_def fr fun_eq_iff)
  have j: "job_ok T (db w') j = job_ok T (db w) j" for j
    by (cases j) (simp_all add: known_rows [OF fr(1)])
  have "T (c_reservation_id c) (c_user_id c) (c_amount_cents c)" if "c \<in> set (t_contexts (db w'))" for c
  proof -
    from project_contexts [OF assms(1)] that consider "c \<in> set (t_contexts (db w))"
      | c0 k where "decode_ticket_reserved (n_data m) = Inr c0" "uuid_in (c_reservation_id c0) = Some k"
          "c_reservation_id c = k" "c_user_id c = c_user_id c0" "c_amount_cents c = c_amount_cents c0"
      by (auto simp: js_message_def)
    then show ?thesis
    proof cases
      case 1
      with assms(2) show ?thesis by (auto simp: pay_ok_def books_ok_def)
    next
      case 2
      with assms(3,4) show ?thesis by (auto simp: truthful_def)
    qed
  qed
  with assms(2) fr p j show ?thesis
    by (simp add: pay_ok_def books_ok_def contexts_inv [OF fr(1,2)])
qed

lemma wait_ok:
  assumes "waitContext (payment_processor acq) ctx i w = (x, w')" "pay_ok T A w js"
  shows "pay_ok T A w' js" "db w' = db w"
    and "x = Inr c \<Longrightarrow> \<exists>k. uuid_in i = Some k \<and> T k (c_user_id c) (c_amount_cents c)"
proof -
  from pay.waitContext_frame [OF assms(1)] tx_body_NoTx [OF waitContext_tx assms(1)] assms(2)
  have fr: "db w' = db w" "tx w' = NoTx" by (auto simp: pay_ok_def)
  from assms(2) fr show "pay_ok T A w' js" "db w' = db w" by (simp_all add: pay_ok_def)
  assume "x = Inr c"
  from waitContext_waited(2) [OF assms(1) this] obtain k where k: "uuid_in i = Some k" "find_context (db w) k = Some c"
    by blast
  then have "c \<in> set (t_contexts (db w))" "c_reservation_id c = k"
    by (auto simp: find_context_def dest: find_SomeD)
  with assms(2) k(1) show "\<exists>k. uuid_in i = Some k \<and> T k (c_user_id c) (c_amount_cents c)"
    by (auto simp: pay_ok_def books_ok_def)
qed

lemma job_ok_mono: "job_ok T d j \<Longrightarrow> (\<And>a. known d a \<Longrightarrow> known d' a) \<Longrightarrow> job_ok T d' j"
  by (cases j) auto

lemma open_ok:
  assumes "loadOrCreate (payment_processor acq) req c key w = (x, w')" "pay_ok T A w js"
    and "Waited req c key \<in> set js"
  shows "pay_ok T A w' js" "paid (db w) k \<Longrightarrow> paid (db w') k"
    and "x = Inr p \<Longrightarrow> job_ok T (db w') (Opened req c key p)"
proof -
  have inv: "payment_inv (db w)" "books_ok T A (db w)" "tx w = NoTx" using assms(2) by (auto simp: pay_ok_def books_ok_def)
  have "job_ok T (db w) (Waited req c key)" using assms(2,3) by (auto simp: pay_ok_def)
  then obtain j where k: "uuid_in (q_reservation_id req) = Some j" "T j (c_user_id c) (c_amount_cents c)"
    by auto
  have books: "books_ok T A (db w') \<and> (\<forall>k. paid (db w) k \<longrightarrow> paid (db w') k)"
    using pay.loadOrCreate_effect(1) [OF assms(1)]
  proof
    assume "db w' = db w"
    with inv show ?thesis by simp
  next
    assume "\<exists>i p. opens (db w) (new_payment req c key i) p (db w')"
    then obtain i p where "opens (db w) (new_payment req c key i) p (db w')" by blast
    from opens_books [OF inv(2) this k] paid_opens [OF this] show ?thesis by blast
  qed
  have "\<forall>j\<in>set js. job_ok T (db w') j"
    using assms(2) load_inv(3) [OF assms(1) inv(1)] by (auto simp: pay_ok_def intro: job_ok_mono)
  with books tx_body_NoTx [OF loadOrCreate_tx assms(1) inv(3)] show "pay_ok T A w' js"
    by (simp add: pay_ok_def)
  from books show "paid (db w) k \<Longrightarrow> paid (db w') k" by blast
  from load_inv(2) [OF assms(1) inv(1)] show "x = Inr p \<Longrightarrow> job_ok T (db w') (Opened req c key p)" by simp
qed

lemma decide_ok:
  assumes "decide (payment_processor acq) ctx req c key p w = (x, w')" "pay_ok T A w js" "acquirer_safe acq"
    and "Opened req c key p \<in> set js"
  shows "pay_ok T A w' js" "paid (db w) k \<Longrightarrow> paid (db w') k"
proof -
  have inv: "books_ok T A (db w)" "tx w = NoTx" using assms(2) by (auto simp: pay_ok_def)
  have "job_ok T (db w) (Opened req c key p)" using assms(2,4) unfolding pay_ok_def by blast
  then obtain y where y: "y \<in> set (t_payments (db w))" "copy_of p y" by (auto simp: known_def)
  note eff = decide_effect [OF assms(1) inv(2) assms(3)]
  from eff(2) consider "db w' = db w" | b where "repeats (db w) p b (db w')"
    | st g r b where "decides (db w) p st g r b (db w')" by blast
  then have all: "books_ok T A (db w') \<and> (\<forall>k. paid (db w) k \<longrightarrow> paid (db w') k) \<and> (\<forall>a. known (db w) a \<longrightarrow> known (db w') a)"
  proof cases
    case 1
    with inv show ?thesis by simp
  next
    case 2
    from repeats_books [OF inv(1) 2 y] paid_repeats [OF 2] effects_known(2) [OF _ 2] show ?thesis by blast
  next
    case 3
    from decides_books [OF inv(1) 3 y] paid_decides [OF 3] effects_known(3) [OF _ 3] show ?thesis by blast
  qed
  with assms(2) eff(1) job_ok_mono [of T "db w" _ "db w'"] show "pay_ok T A w' js" by (auto simp: pay_ok_def)
  from all show "paid (db w) k \<Longrightarrow> paid (db w') k" by blast
qed

lemma pay_relay_ok:
  assumes "relay_sweep (pg_relay inject tie i n) w = (x, w')" "pay_ok T A w js"
    and "log_truthful T (paid (db w)) A (br_sent w)"
  shows "pay_ok T A w' js \<and> paid (db w') = paid (db w) \<and> log_truthful T (paid (db w)) A (br_sent w')"
proof -
  have tx: "tx w = NoTx" and ok: "books_ok T A (db w)" using assms(2) by (auto simp: pay_ok_def)
  from assms(1) tx obtain c t new where
    db: "db w' = (db w)\<lparr>t_outbox := map (\<lambda>b. if c b then b\<lparr>o_processed_at := t\<rparr> else b) (t_outbox (db w))\<rparr>"
    and log: "br_sent w' = br_sent w @ new" "set new \<subseteq> sent_row ` set (t_outbox (db w))" and tx': "tx w' = NoTx"
    by (rule relay_parts)
  have fr: "t_payments (db w') = t_payments (db w)" "t_contexts (db w') = t_contexts (db w)" by (simp_all add: db)
  let ?f = "\<lambda>b. if c b then b\<lparr>o_processed_at := t\<rparr> else b"
  have rows: "t_outbox (db w') = map ?f (t_outbox (db w))" by (simp add: db)
  have f: "o_subject (?f b) = o_subject b" "reports (?f b) = reports b" for b
    by (simp_all add: reports_processed)
  have "(\<exists>b\<in>set (t_outbox (db w')). o_subject b = SubjectPaymentSucceeded \<and> (\<exists>g e. reports b p g e)) =
      (\<exists>b\<in>set (t_outbox (db w)). o_subject b = SubjectPaymentSucceeded \<and> (\<exists>g e. reports b p g e))" for p
    by (simp only: rows set_map bex_simps f)
  then have p: "paid (db w') = paid (db w)" by (simp add: paid_def fr fun_eq_iff)
  have "said (t_outbox (db w')) = said (t_outbox (db w))" unfolding db by simp
  from rows_truthful_cong [OF this] ok relayed_payment_inv [OF books_ok_inv [OF ok], of c t]
  have "books_ok T A (db w')" by (simp add: books_ok_def fr p) (simp add: db)
  moreover have "job_ok T (db w') j = job_ok T (db w) j" for j
    by (cases j) (simp_all add: known_rows [OF fr(1)])
  moreover have "log_truthful T (paid (db w)) A new"
    using ok log(2) by (intro sent_truthful) (simp_all add: books_ok_def)
  ultimately show ?thesis using assms(2,3) tx' p log(1) by (simp add: pay_ok_def)
qed

section \<open>Every reachable state\<close>

lemma core_ok_paid: "core_ok P A s \<Longrightarrow> (\<And>k. P k \<Longrightarrow> P' k) \<Longrightarrow> core_ok P' A s"
  unfolding core_ok_def tables_ok_def
proof (elim conjE, intro conjI ballI)
  fix c assume "\<forall>c\<in>set (snd s). in_flight P A c" "c \<in> set (snd s)" "\<And>k. P k \<Longrightarrow> P' k"
  then show "in_flight P' A c" by (cases c) auto
qed (auto intro: rows_truthful_mono)

lemma job_ok_tickets: "job_ok T d j \<Longrightarrow> (\<And>k u a. T k u a \<Longrightarrow> T' k u a) \<Longrightarrow> job_ok T' d j"
  by (cases j) auto

lemma pay_ok_tickets: "pay_ok T A w js \<Longrightarrow> (\<And>k u a. T k u a \<Longrightarrow> T' k u a) \<Longrightarrow> pay_ok T' A w js"
  unfolding pay_ok_def books_ok_def
  by (blast intro: job_ok_tickets [of T _ _ T'] rows_truthful_mono [of T _ _ _ T'])

lemma pay_ok_jobs: "pay_ok T A w js \<Longrightarrow> \<forall>j\<in>set js'. j \<in> set js \<or> job_ok T (db w) j \<Longrightarrow> pay_ok T A w js'"
  by (auto simp: pay_ok_def)

lemma pay_ok_remove: "pay_ok T A w js \<Longrightarrow> pay_ok T A w (remove1 j js)"
  by (rule pay_ok_jobs) (blast dest: set_remove1_in)+

text \<open>The parts of the invariant, and what a step of the core or of the payment service owes to the rest.\<close>

lemma pf_inv_parts:
  assumes "pf_inv tokens q s"
  shows "core_ok (paid (db (pf_pay s))) (admitted tokens q) (pf_core s)"
    and "pay_ok (ticket (db (fst (pf_core s)))) (admitted tokens q) (pf_pay s) (pf_jobs s)"
    and "log_truthful (ticket (db (fst (pf_core s)))) (paid (db (pf_pay s))) (admitted tokens q)
      (map wire_sent (br_log (pf_bus s)))"
  using assms by (simp_all add: pf_inv_def Let_def)

lemma pf_inv_core:
  assumes "pf_inv tokens q s" "core_ok (paid (db (pf_pay s))) (admitted tokens q) c"
    and "\<And>k u a. ticket (db (fst (pf_core s))) k u a \<Longrightarrow> ticket (db (fst c)) k u a"
    and "log_truthful (ticket (db (fst (pf_core s)))) (paid (db (pf_pay s))) (admitted tokens q) (map wire_sent (br_log b))"
  shows "pf_inv tokens q (s\<lparr>pf_core := c, pf_bus := b\<rparr>)"
  using assms(2) pay_ok_tickets [OF pf_inv_parts(2) [OF assms(1)] assms(3)] log_truthful_mono [OF assms(4,3)]
  by (simp add: pf_inv_def Let_def)

lemma pf_inv_pay:
  assumes "pf_inv tokens q s" "pay_ok (ticket (db (fst (pf_core s)))) (admitted tokens q) w js"
    and "\<And>k. paid (db (pf_pay s)) k \<Longrightarrow> paid (db w) k"
    and "log_truthful (ticket (db (fst (pf_core s)))) (paid (db (pf_pay s))) (admitted tokens q) (map wire_sent (br_log b))"
  shows "pf_inv tokens q (s\<lparr>pf_pay := w, pf_jobs := js, pf_bus := b\<rparr>)"
  using assms(2) core_ok_paid [OF pf_inv_parts(1) [OF assms(1)] assms(3)] log_truthful_mono [OF assms(4) _ assms(3)]
  by (simp add: pf_inv_def Let_def)

lemma pf_inv_start: "pf_start s \<Longrightarrow> pf_inv tokens q s"
  by (simp add: pf_inv_def Let_def pf_start_def core_ok_def tables_ok_def pay_ok_def books_ok_def rows_truthful_def
      log_truthful_def sys_inv_def empty_core_inv)
    (simp add: empty_core_def payment_inv_def wf_payments_def published_def grounded_def)

lemma pf_inv_pay_only:
  assumes "pf_inv tokens q s" "pay_ok (ticket (db (fst (pf_core s)))) (admitted tokens q) w js"
    and "\<And>k. paid (db (pf_pay s)) k \<Longrightarrow> paid (db w) k"
  shows "pf_inv tokens q (s\<lparr>pf_pay := w, pf_jobs := js\<rparr>)"
    and "js = pf_jobs s \<Longrightarrow> pf_inv tokens q (s\<lparr>pf_pay := w\<rparr>)"
  using pf_inv_pay [OF assms pf_inv_parts(3) [OF assms(1)]] by simp_all

lemma core_moves_inv:
  assumes "core_moves ttl v inject s s'" and inv: "pf_inv tokens q s"
  shows "pf_inv tokens q s'"
proof -
  note parts = pf_inv_parts [OF inv]
  have bus: "core_ok (paid (db (pf_pay s))) (admitted tokens q) (on_bus (pf_bus s) (fst (pf_core s)), snd (pf_core s))"
    using parts(1) by (simp add: core_ok_def sys_inv_def)
  from assms(1) show ?thesis
  proof (cases rule: core_moves.cases)
    case (consumes h w ps)
    from core_step_ok [OF consumes(2) parts(1) consumes(3) parts(3)]
    have "pf_inv tokens q (s\<lparr>pf_core := (w, ps), pf_bus := pf_bus s\<rparr>)"
      by (intro pf_inv_core [OF inv _ _ parts(3)]) simp_all
    with consumes(1) show ?thesis by simp
  next
    case (relays tie i n x w)
    from core_relay_ok [OF relays(2) bus] parts(3) show ?thesis
      unfolding relays(1) by (intro pf_inv_core [OF inv]) simp_all
  next
    case (sweeps locked tie via_float holds i n k e w)
    from sweep_ok [OF sweeps(2,3) bus] parts(3) show ?thesis
      unfolding sweeps(1) by (intro pf_inv_core [OF inv]) simp_all
  qed
qed

lemma pay_moves_inv:
  assumes "pay_moves acq inject s s'" "acquirer_safe acq" and inv: "pf_inv tokens q s"
  shows "pf_inv tokens q s'"
proof -
  note parts = pf_inv_parts [OF inv]
  let ?T = "ticket (db (fst (pf_core s)))" and ?A = "admitted tokens q"
  from assms(1) show ?thesis
  proof (cases rule: pay_moves.cases)
    case (projects m x w)
    note ok = project_ok [OF projects(4) parts(2) projects(3) log_truthful_message [OF parts(3) projects(2)]]
    show ?thesis unfolding projects(1) using ok by (intro pf_inv_pay_only(2) [OF inv]) simp_all
  next
    case (waits m req ctx c w key)
    note ok = wait_ok [OF waits(5) parts(2)]
    have "pay_ok ?T ?A w (Waited req c key # pf_jobs s)"
      using ok(3) [OF refl] by (intro pay_ok_jobs [OF ok(1)]) simp
    from pf_inv_pay_only(1) [OF inv this] ok(2) waits(1) show ?thesis by simp
  next
    case (refuses ctx i x w)
    note ok = wait_ok [OF refuses(2) parts(2)]
    from pf_inv_pay_only(2) [OF inv ok(1)] ok(2) refuses(1) show ?thesis by simp
  next
    case (opens_payment req c key p w)
    note ok = open_ok [OF opens_payment(3) parts(2) opens_payment(2)]
    have "pay_ok ?T ?A w (Opened req c key p # remove1 (Waited req c key) (pf_jobs s))"
      using ok(3) [OF refl] set_remove1_in [of _ "Waited req c key" "pf_jobs s"]
      by (intro pay_ok_jobs [OF ok(1)]) auto
    from pf_inv_pay_only(1) [OF inv this ok(2)] opens_payment(1) show ?thesis by simp
  next
    case (opens_not req c key e w)
    note ok = open_ok [OF opens_not(3) parts(2) opens_not(2)]
    from pf_inv_pay_only(1) [OF inv pay_ok_remove [OF ok(1)] ok(2)] opens_not(1) show ?thesis by simp
  next
    case (decides_payment req c key p ctx x w)
    note ok = decide_ok [OF decides_payment(3) parts(2) assms(2) decides_payment(2)]
    from pf_inv_pay_only(1) [OF inv pay_ok_remove [OF ok(1)] ok(2)] decides_payment(1) show ?thesis by simp
  next
    case (crashes j)
    from pf_inv_pay_only(1) [OF inv pay_ok_remove [OF parts(2)]] crashes show ?thesis by simp
  next
    case (environs fs t' t)
    have "pay_ok ?T ?A ((pf_pay s)\<lparr>wall := t, pg_clock := t', faults := fs\<rparr>) (pf_jobs s)"
      using parts(2) by (simp add: pay_ok_def)
    from pf_inv_pay_only(2) [OF inv this] environs show ?thesis by simp
  next
    case (relays tie i n x w)
    have "pay_ok ?T ?A (on_bus (pf_bus s) (pf_pay s)) (pf_jobs s)"
      using parts(2) by (simp add: pay_ok_def)
    from pay_relay_ok [OF relays(2) this] parts(3)
    have "pf_inv tokens q (s\<lparr>pf_pay := w, pf_jobs := pf_jobs s, pf_bus := pg_world.more w\<rparr>)"
      by (intro pf_inv_pay [OF inv]) simp_all
    with relays(1) show ?thesis by simp
  qed
qed

lemma pf_step_inv:
  assumes "pf_step ttl v acq inject tokens q s s'" "acquirer_safe acq" "pf_inv tokens q s"
  shows "pf_inv tokens q s'"
  using assms(1)
proof (cases rule: pf_step.cases)
  case core
  with assms(3) core_moves_inv show ?thesis by blast
next
  case pay
  with assms(2,3) pay_moves_inv show ?thesis by blast
next
  case (request r rw g)
  from request_ok [OF request(2)] pf_inv_parts [OF assms(3)] request(1) show ?thesis
    by (simp add: pf_inv_def Let_def)
next
  case (broker k fs)
  with assms(3) show ?thesis by (simp add: pf_inv_def Let_def)
qed

lemma pf_reachable_inv:
  assumes "pf_reachable ttl v acq inject tokens q s" "acquirer_safe acq"
  shows "pf_inv tokens q s"
  using assms(1)
proof (induction rule: pf_reachable.induct)
  case (start s)
  then show ?case by (rule pf_inv_start)
next
  case (step s s')
  from pf_step_inv [OF step(2) assms(2) step(3)] show ?case .
qed

section \<open>The steps are those of the handler\<close>

text \<open>A delivery of \<open>payment.process\<close> that meets nothing in between is a run of these steps.\<close>

lemma handle_is_a_run:
  assumes m: "m \<in> set (br_log (pf_bus s))" "n_subject m = SubjectPaymentProcess" "decode_payment_process (n_data m) = Inr req"
    and run: "Handle (payment_processor acq) ctx req (delivery_key m) (pf_pay s) = (x, w)"
  shows "(pay_moves acq inject)\<^sup>*\<^sup>* s (s\<lparr>pf_pay := w\<rparr>)"
proof -
  let ?pc = "payment_processor acq" and ?key = "delivery_key m"
  obtain y w1 where y: "waitContext ?pc ctx (q_reservation_id req) (pf_pay s) = (y, w1)" by fastforce
  note refused = r_into_rtranclp [where r = "pay_moves acq inject", OF pay_moves.refuses [OF y]]
  show ?thesis
  proof (cases "\<exists>c. y = Inr c \<and> q_user_id req = c_user_id c \<and> q_reservation_id req \<noteq> '''' \<and> q_user_id req \<noteq> '''' \<and> ?key \<noteq> ''''")
    case False
    with run y have "w = pf_pay s \<or> w = w1"
      by (cases y) (auto simp: Handle_def andThen_def wrapErr_def split: if_splits)
    with refused show ?thesis by auto
  next
    case True
    then obtain c where c: "y = Inr c" "q_user_id req = c_user_id c" "q_reservation_id req \<noteq> ''''" "q_user_id req \<noteq> ''''"
      "?key \<noteq> ''''" by blast
    let ?job = "Waited req c ?key" and ?last = "s\<lparr>pf_pay := w, pf_jobs := pf_jobs s\<rparr>"
    let ?s1 = "s\<lparr>pf_pay := w1, pf_jobs := ?job # pf_jobs s\<rparr>"
    have wait: "pay_moves acq inject s ?s1"
      using y c m by (intro pay_moves.waits [where m = m]) simp_all
    obtain z w2 where z: "loadOrCreate ?pc req c ?key w1 = (z, w2)" by fastforce
    have "(pay_moves acq inject)\<^sup>*\<^sup>* ?s1 ?last"
    proof (cases z)
      case (Inl e)
      with run y z c have "w = w2" by (simp add: Handle_def andThen_def wrapErr_def split: if_splits)
      with pay_moves.opens_not [of req c ?key ?s1 acq e w2 inject] z Inl show ?thesis by auto
    next
      case (Inr p)
      with run y z c have d: "decide ?pc ctx req c ?key p w2 = (x, w)"
        by (simp add: Handle_def andThen_def wrapErr_def split: if_splits)
      let ?s2 = "s\<lparr>pf_pay := w2, pf_jobs := Opened req c ?key p # pf_jobs s\<rparr>"
      have "pay_moves acq inject ?s1 ?s2"
        using pay_moves.opens_payment [of req c ?key ?s1 acq p w2 inject] z Inr by simp
      moreover have "pay_moves acq inject ?s2 ?last"
        using pay_moves.decides_payment [of req c ?key p ?s2 acq ctx x w inject] d by simp
      ultimately show ?thesis by (meson converse_rtranclp_into_rtranclp r_into_rtranclp)
    qed
    with wait have "(pay_moves acq inject)\<^sup>*\<^sup>* s ?last" by (rule converse_rtranclp_into_rtranclp)
    then show ?thesis by simp
  qed
qed

lemma onPaymentProcess_is_a_run:
  assumes "m \<in> set (br_log (pf_bus s))" "n_subject m = SubjectPaymentProcess"
    and "onPaymentProcess (payment_processor acq) ctx (js_message m) (pf_pay s) = (x, w)"
  shows "(pay_moves acq inject)\<^sup>*\<^sup>* s (s\<lparr>pf_pay := w\<rparr>)"
proof (cases "decode_payment_process (n_data m)")
  case (Inl e)
  with assms(3) have "w = pf_pay s" by (simp add: onPaymentProcess_def js_message_def)
  then show ?thesis by simp
next
  case (Inr req)
  have "m_payload (js_message m) = n_data m" by (simp add: js_message_def)
  with assms(3) Inr have "Handle (payment_processor acq) ctx req (delivery_key m) (pf_pay s) = (x, w)"
    by (simp add: onPaymentProcess_def delivery_key_def Let_def)
  from handle_is_a_run [OF assms(1,2) Inr this] show ?thesis .
qed

end
