(* ===== verification/Platform_Run.thy ===== *)
theory Platform_Run
  imports Platform Core_Example
begin

text \<open>
  One run of the platform from the empty databases to a sold ticket: two requests, a booking, a
  charge, a confirmation, and the relays and projections in between.  It shows that the states the
  properties of the platform speak of are reachable.
\<close>

section \<open>A relay with one row to publish\<close>

lemma relay_one:
  assumes w: "ready (w :: 'x relay_world)" "tx w = NoTx" and rows: "t_outbox (db w) = [b]" "o_processed_at b = None"
    and old: "br_old (pg_world.more w) = length (br_log (pg_world.more w))"
  obtains x w' m where "relay_sweep (pg_relay inject tie i 10) w = (x, w')"
    "br_log (pg_world.more w') = br_log (pg_world.more w) @ [m]" "wire_sent m = sent_row b"
    "uuid_in (o_id b) = Some (o_id b) \<longrightarrow> (\<exists>t. db w' = (db w)\<lparr>t_outbox := [b\<lparr>o_processed_at := Some t\<rparr>]\<rparr>
       \<and> faults w' = [] \<and> tx w' = NoTx \<and> rng w' = rng w \<and> rng_pos w' = rng_pos w)"
proof -
  have h: "healthy w" "br_script (pg_world.more w) = []" "faults w = []" using w by (simp_all add: ready_def healthy_def)
  have un: "unprocessed [b] = [b]" "oldest tie 10 [b] = [b]" using rows(2) by (simp_all add: unprocessed_def oldest_def)
  have cnt: "CountUnprocessed w = (Inr 1, w)"
    unfolding CountUnprocessed_def by (rule stmt_read [OF h(1)]) (simp add: rows un)
  let ?w1 = "count [''pulsar_horizon_outbox_backlog'', itoa 1] w"
  let ?m = "js_wire inject (relay_message (relay_record_of b))"
  have h1: "healthy ?w1" "db ?w1 = db w" using h by (simp_all add: count_def healthy_def)
  have fetch: "FetchBatch tie 10 ?w1 = (Inr [relay_record_of b], ?w1)"
    unfolding FetchBatch_def by (rule stmt_read [OF h1(1)]) (simp add: rows un h1)
  let ?w2 = "pg_world.more_update (br_store ?m) ?w1"
  have pub: "publish_batch (br_pub inject) [relay_record_of b] [] ?w1 = (([o_id b], False), ?w2)"
    using br_pub_run [of ?w1 inject "relay_message (relay_record_of b)"] h by (simp add: count_def)
  let ?w3 = "relay_counts 1 False ?w2"
  let ?d = "(db w)\<lparr>t_outbox := [b\<lparr>o_processed_at := Some (timestamptz (pg_clock w))\<rparr>]\<rparr>"
  have h3: "healthy ?w3" "db ?w3 = db w" "pg_clock ?w3 = pg_clock w"
    using h by (simp_all add: relay_counts_def count_def healthy_def)
  obtain x w' where mark: "MarkProcessed [o_id b] ?w3 = (x, w')" by fastforce
  have sweep: "relay_sweep (pg_relay inject tie i 10) w = (x, w')"
    using cnt fetch pub mark
    by (simp add: relay_sweep_def pg_relay_def NewRelay_def recordBacklog_def relay_batch_def pg_store_def
        onResult_def reading_def)
  have "pg_world.more w' = pg_world.more ?w3"
    using mark by (auto simp: MarkProcessed_def dest: stmt_frame(6))
  moreover have "br_log (br_store ?m (pg_world.more w)) = br_log (pg_world.more w) @ [?m]"
    using old by (simp add: br_store_def)
  ultimately have log: "br_log (pg_world.more w') = br_log (pg_world.more w) @ [?m]"
    by (simp add: relay_counts_def count_def)
  have "w' = ?w3\<lparr>db := ?d\<rparr>" if ks: "uuid_in (o_id b) = Some (o_id b)"
  proof -
    have "stmt (\<lambda>now d. case uuid_array [o_id b] of None \<Rightarrow> (Inl (PgError ''22P02''), d)
        | Some ks \<Rightarrow> (Inr (), d\<lparr>t_outbox := mark (timestamptz now) ks (t_outbox d)\<rparr>)) ?w3 = (Inr (), ?w3\<lparr>db := ?d\<rparr>)"
      using ks by (intro stmt_run [OF h3(1)]) (simp add: h3 rows mark_def)
    with mark show ?thesis by (simp add: MarkProcessed_def)
  qed
  with h w(2) show thesis
    by (intro that [OF sweep log]) (simp, auto simp: relay_counts_def count_def)
qed

section \<open>The start and the two requests\<close>

definition run_tokens :: "string \<rightharpoonup> string" where
  "run_tokens = [''pp-token-user-1'' \<mapsto> ''user-1'']"

definition run_request :: "string list \<Rightarrow> json \<Rightarrow> request" where
  "run_request segments body = \<lparr>rq_method = ''POST'', rq_segments = segments,
     rq_header = [''Authorization'' \<mapsto> ''Bearer pp-token-user-1'', ''Idempotency-Key'' \<mapsto> ''k-1'',
       ''X-Request-Id'' \<mapsto> ''r-1''],
     rq_body = Some body, rq_request_id = None, rq_user_id = None\<rparr>"

definition run_bytes :: "nat \<Rightarrow> 8 word" where "run_bytes n = word_of_nat n"

text \<open>The id the gateway gives the reservation, which the client pays for.\<close>

definition run_id :: string where "run_id = ''00010203-0405-4607-8809-0a0b0c0d0e0f''"

definition run_book :: request where
  "run_book = run_request [''v1'', ''reservations'']
     (JObj [(''event_id'', JStr ex_event_id), (''quantity'', JInt 2)])"

definition run_charge :: request where
  "run_charge = run_request [''v1'', ''reservations'', run_id, ''payment'']
     (JObj [(''payment_method_token'', JStr ''tok'')])"

abbreviation "run_broker \<equiv> \<lparr>br_log = [], br_old = 0, br_script = []\<rparr>"

definition run_gate :: "broker world_scheme" where
  "run_gate = \<lparr>wall = ex_now, rng = run_bytes, rng_pos = 0, meter = [], \<dots> = run_broker\<rparr>"

text \<open>A request on a working broker puts its command there.\<close>

lemma request_run:
  assumes "caller tokens r = Some user" "asked_of q r = Inr a" "hdr (rq_header r) ''X-Request-Id'' = rid" "rid \<noteq> []"
    and "br_script (world.more g) = []" "br_old (world.more g) = length (br_log (world.more g))"
  obtains rw g' k where "serve (gateway (gate_pub inject) q tokens) r g = (rw, g')"
    "world.more g' = (world.more g)\<lparr>br_log := br_log (world.more g) @ [js_wire inject (command_message (in_context r rid user) k
       (command_subject a) (hdr (rq_header r) ''Idempotency-Key'') (command_body user (fst (issue_id a g)) a))]\<rparr>"
proof -
  have rid: "request_id r g = (rid, g)" using assms(3,4) by (simp add: request_id_def)
  obtain rw t u c w2 where s: "serve (gateway (gate_pub inject) q tokens) r g = (rw, observe_request r rid c t u w2)"
    and what: "case asked_of q r of
       Inl d \<Rightarrow> c = d \<and> w2 = g
     | Inr a \<Rightarrow> (case issue (gate_pub inject) (in_context r rid user) user a g of ((i, x), w3) \<Rightarrow> w2 = w3
         \<and> c = (case x of Inl _ \<Rightarrow> 503 | Inr _ \<Rightarrow> 202)
         \<and> (x = Inr () \<longrightarrow> rp_body rw = [JsonBody (reservationAcceptedResponse i)]))"
    by (rule serve_caller [OF assms(1) rid, of "gate_pub inject" q])
  obtain i g1 where i: "issue_id a g = (i, g1)" by fastforce
  obtain k g2 where k: "uid_New g1 = (k, g2)" by fastforce
  have more: "world.more g2 = world.more g" using i k by (cases a) (auto simp: uid_New_def)
  let ?m = "js_wire inject (command_message (in_context r rid user) k (command_subject a)
    (hdr (rq_header (in_context r rid user)) ''Idempotency-Key'') (command_body user i a))"
  have "w2 = world.more_update (br_store ?m) g2"
    using what i k assms(2,5) more by (simp add: issue_def js_publish_def br_send_def)
  then have "world.more (observe_request r rid c t u w2) = br_store ?m (world.more g)"
    using more by (simp add: observe_request_def count_def)
  then show thesis
    using assms(6) i by (intro that [OF s, of k]) (simp add: br_store_def)
qed

lemma run_caller: "caller run_tokens run_book = Some ''user-1''" "caller run_tokens run_charge = Some ''user-1''"
  by code_simp+

lemma run_asked: "asked_of 8 run_book = Inr (AskReserve ex_event_id 2)" "asked_of 8 run_charge = Inr (AskPay run_id ''tok'')"
  by code_simp+

lemma run_first_id: "fst (uid_New run_gate) = run_id"
  by code_simp

lemma run_headers: "hdr (rq_header run_book) ''X-Request-Id'' = ''r-1''" "hdr (rq_header run_charge) ''X-Request-Id'' = ''r-1''"
    "hdr (rq_header run_charge) ''Idempotency-Key'' = ''k-1''"
  by code_simp+

text \<open>The two commands are on the broker.\<close>

lemma run_requests:
  obtains rw1 g1 b rw2 g2 m0 m1 where
    "serve (gateway (gate_pub (\<lambda>h. h)) 8 run_tokens) run_book run_gate = (rw1, g1)"
    "serve (gateway (gate_pub (\<lambda>h. h)) 8 run_tokens) run_charge (world.more_update (\<lambda>_. (world.more g1)\<lparr>br_old := 1, br_script := []\<rparr>) g1) = (rw2, g2)"
    "br_log (world.more g2) = [m0, m1]"
    "n_subject m0 = SubjectReservationReserve" "decode_reserve (n_data m0) = Inr
      \<lparr>rc_reservation_id = run_id, rc_event_id = ex_event_id, rc_user_id = ''user-1'', rc_quantity = 2\<rparr>"
    "n_subject m1 = SubjectPaymentProcess" "decode_payment_process (n_data m1) = Inr
      \<lparr>q_reservation_id = run_id, q_user_id = ''user-1'', q_token = ''tok''\<rparr>"
    "delivery_key m1 = ''k-1''"
proof -
  obtain rw1 g1 k1 where one: "serve (gateway (gate_pub (\<lambda>h. h)) 8 run_tokens) run_book run_gate = (rw1, g1)"
    and b1: "world.more g1 = (world.more run_gate)\<lparr>br_log := br_log (world.more run_gate) @ [js_wire (\<lambda>h. h)
      (command_message (in_context run_book ''r-1'' ''user-1'') k1 (command_subject (AskReserve ex_event_id 2))
        (hdr (rq_header run_book) ''Idempotency-Key'') (command_body ''user-1'' (fst (issue_id (AskReserve ex_event_id 2) run_gate))
        (AskReserve ex_event_id 2)))]\<rparr>"
    by (rule request_run [OF run_caller(1) run_asked(1) run_headers(1), of run_gate]) (simp_all add: run_gate_def)
  let ?g = "world.more_update (\<lambda>_. (world.more g1)\<lparr>br_old := 1, br_script := []\<rparr>) g1"
  have g: "br_script (world.more ?g) = []" "br_old (world.more ?g) = length (br_log (world.more ?g))"
    by (simp_all add: b1 run_gate_def)
  obtain rw2 g2 k2 where two: "serve (gateway (gate_pub (\<lambda>h. h)) 8 run_tokens) run_charge ?g = (rw2, g2)"
    and b2: "world.more g2 = (world.more ?g)\<lparr>br_log := br_log (world.more ?g) @ [js_wire (\<lambda>h. h)
      (command_message (in_context run_charge ''r-1'' ''user-1'') k2 (command_subject (AskPay run_id ''tok''))
        (hdr (rq_header run_charge) ''Idempotency-Key'') (command_body ''user-1'' (fst (issue_id (AskPay run_id ''tok'') ?g))
        (AskPay run_id ''tok'')))]\<rparr>"
    by (rule request_run [OF run_caller(2) run_asked(2) run_headers(2) _ g]) simp_all
  have wire: "n_subject (js_wire inj (command_message r k s key body)) = s"
    "n_data (js_wire inj (command_message r k s key body)) = Some body" for inj r k s key body
    by (simp_all add: js_wire_def command_message_def)
  let ?m0 = "js_wire (\<lambda>h. h) (command_message (in_context run_book ''r-1'' ''user-1'') k1 SubjectReservationReserve
    (hdr (rq_header run_book) ''Idempotency-Key'') (reserve_body run_id ex_event_id ''user-1'' 2))"
  let ?m1 = "js_wire (\<lambda>h. h) (command_message (in_context run_charge ''r-1'' ''user-1'') k2 SubjectPaymentProcess ''k-1''
    (payment_body run_id ''user-1'' ''tok''))"
  have log: "br_log (world.more g2) = [?m0, ?m1]"
    by (simp add: b2 b1 run_first_id run_headers) (simp add: run_gate_def)
  have key: "delivery_key (js_wire (\<lambda>h. h) (command_message r k s ''k-1'' body)) = ''k-1''" for r k s body
    by (simp add: delivery_key_def js_message_wire command_message_def hdr_def NatsMsgId_def)
  have n: "int64 2" by (simp add: int64_def)
  show thesis
    by (rule that [OF one two log]) (simp_all only: wire decode_reserve_body [OF n] decode_payment_body key)
qed

section \<open>The run\<close>

definition run_acquirer :: "(payment_db, broker) pg_world_ext acquirer" where
  "run_acquirer ctx req = ok ''sim-1''"

definition run_core :: "core_db \<Rightarrow> broker core_world" where
  "run_core d = \<lparr>wall = ex_now, rng = run_bytes, rng_pos = 0, meter = [], db = d, pg_clock = ex_now,
     tx = NoTx, faults = [], \<dots> = run_broker\<rparr>"

definition run_pay :: "payment_db \<Rightarrow> broker payment_world" where
  "run_pay d = \<lparr>wall = ex_now, rng = (\<lambda>_. 0), rng_pos = 0, meter = [], db = d, pg_clock = ex_now,
     tx = NoTx, faults = [], \<dots> = run_broker\<rparr>"

definition run_start :: platform where
  "run_start = \<lparr>pf_core = (run_core empty_core, []), pf_pay = run_pay \<lparr>t_outbox = [], t_payments = [], t_contexts = []\<rparr>,
     pf_jobs = [], pf_gate = run_gate, pf_bus = run_broker\<rparr>"

abbreviation "runs \<equiv> pf_reachable (15 * minute) ex_valid run_acquirer (\<lambda>h. h) run_tokens 8"
abbreviation "run_service \<equiv> core_service (15 * minute) None ex_valid :: (core_db, broker) pg_world_ext service"
abbreviation "run_step \<equiv> pf_step (15 * minute) ex_valid run_acquirer (\<lambda>h. h) run_tokens 8"

lemma run_core_simps [simp]:
  "db (run_core d) = d" "tx (run_core d) = NoTx" "faults (run_core d) = []" "wall (run_core d) = ex_now"
  by (simp_all add: run_core_def)

lemma run_pay_simps [simp]:
  "db (run_pay d) = d" "tx (run_pay d) = NoTx" "faults (run_pay d) = []" "wall (run_pay d) = ex_now" "rng_pos (run_pay d) = 0"
  by (simp_all add: run_pay_def)

lemma run_uuid [simp]: "uuid_in run_id = Some run_id"
  by code_simp

definition run_command :: reserve_command where
  "run_command = \<lparr>rc_reservation_id = run_id, rc_event_id = ex_event_id, rc_user_id = ''user-1'', rc_quantity = 2\<rparr>"

text \<open>The sale is open and both commands are on the broker.\<close>

lemma run_1:
  obtains s m0 m1 where "runs s" "pf_core s = (run_core ex_open, [])"
    "pf_pay s = run_pay \<lparr>t_outbox = [], t_payments = [], t_contexts = []\<rparr>" "pf_jobs s = []"
    "br_log (pf_bus s) = [m0, m1]" "n_subject m0 = SubjectReservationReserve" "decode_reserve (n_data m0) = Inr run_command"
    "n_subject m1 = SubjectPaymentProcess" "decode_payment_process (n_data m1) = Inr
      \<lparr>q_reservation_id = run_id, q_user_id = ''user-1'', q_token = ''tok''\<rparr>" "delivery_key m1 = ''k-1''"
proof -
  have r0: "runs run_start"
    by (rule pf_reachable.start) (simp add: pf_start_def run_start_def)
  let ?s1 = "run_start\<lparr>pf_core := (run_core ex_open, [])\<rparr>"
  have "core_step run_service (run_core empty_core, [])
      ((run_core empty_core)\<lparr>db := (db (run_core empty_core))\<lparr>t_events := t_events (db (run_core empty_core)) @ [ex_event 0]\<rparr>\<rparr>, [])"
    by (rule core_step.seeded) (simp_all add: find_event_def empty_core_def ex_event_def [of 0],
        simp add: ex_event_def [symmetric])
  then have "core_step run_service (pf_core run_start) (run_core ex_open, [])"
    by (simp add: run_start_def run_core_def empty_core_def ex_open_def)
  then have "run_step run_start ?s1" by (intro pf_step.core core_moves.consumes) simp_all
  with r0 have r1: "runs ?s1" by (rule pf_reachable.step)
  obtain rw1 g1 rw2 g2 m0 m1 where
    one: "serve (gateway (gate_pub (\<lambda>h. h)) 8 run_tokens) run_book run_gate = (rw1, g1)"
    and two: "serve (gateway (gate_pub (\<lambda>h. h)) 8 run_tokens) run_charge
      (world.more_update (\<lambda>_. (world.more g1)\<lparr>br_old := 1, br_script := []\<rparr>) g1) = (rw2, g2)"
    and log: "br_log (world.more g2) = [m0, m1]"
      "n_subject m0 = SubjectReservationReserve" "decode_reserve (n_data m0) = Inr run_command"
      "n_subject m1 = SubjectPaymentProcess" "decode_payment_process (n_data m1) = Inr
        \<lparr>q_reservation_id = run_id, q_user_id = ''user-1'', q_token = ''tok''\<rparr>" "delivery_key m1 = ''k-1''"
    by (rule run_requests) (rule that; simp add: run_command_def)
  let ?s2 = "?s1\<lparr>pf_gate := g1, pf_bus := world.more g1\<rparr>"
  have "world.more_update (\<lambda>_. pf_bus ?s1) (pf_gate ?s1) = run_gate" by (simp add: run_start_def run_gate_def)
  with one have "serve (gateway (gate_pub (\<lambda>h. h)) 8 run_tokens) run_book (world.more_update (\<lambda>_. pf_bus ?s1) (pf_gate ?s1))
      = (rw1, g1)" by simp
  then have "runs ?s2" by (rule pf_reachable.step [OF r1 pf_step.request])
  from pf_reachable.step [OF this pf_step.broker [where k = 1 and fs = "[]"]]
  have r3: "runs (?s2\<lparr>pf_bus := (pf_bus ?s2)\<lparr>br_old := 1, br_script := []\<rparr>\<rparr>)" (is "runs ?s3") .
  have "serve (gateway (gate_pub (\<lambda>h. h)) 8 run_tokens) run_charge (world.more_update (\<lambda>_. pf_bus ?s3) (pf_gate ?s3)) = (rw2, g2)"
    using two by simp
  then have "runs (?s3\<lparr>pf_gate := g2, pf_bus := world.more g2\<rparr>)" by (rule pf_reachable.step [OF r3 pf_step.request])
  from that [OF this _ _ _ _ log(2-6)] log(1) show thesis by (simp add: run_start_def)
qed

text \<open>The booking: the command is read, its write phase commits.\<close>

lemma run_acceptable: "acceptable ex_open ex_now (15 * minute) ex_valid run_command"
proof -
  have "enc_time (time_add ex_now (15 * minute)) = Inr (JStr ''2025-06-15T15:21:40Z'')"
    by code_simp
  moreover have "text_ok run_id" by (simp add: text_ok_def run_id_def)
  ultimately show ?thesis
    by (simp add: acceptable_def run_command_def ex_valid_def find_reservation_def find_event_def ex_open_def
        SaleIsOpen_def time_before_def text_ok_def ex_now_def) (simp add: ex_event_def)
qed

lemma run_ids:
  "fst (uid_New (run_core d)) = run_id"
  "fst (uid_New ((run_core d)\<lparr>rng_pos := 16\<rparr>)) = ''10111213-1415-4617-9819-1a1b1c1d1e1f''"
  by (simp_all add: uid_New_def run_core_def del: upt.simps) code_simp+

definition run_context :: reservation_context where
  "run_context = \<lparr>c_reservation_id = run_id, c_user_id = ''user-1'', c_amount_cents = 10000, c_currency = ''BRL'',
     c_expires_at = time_add ex_now (15 * minute)\<rparr>"

lemma run_booking:
  obtains x d r b where
    "WithinTx (write_phase run_service (ReserveWrite run_command ex_now (ex_event 0))) (run_core ex_open)
      = (x, (run_core ex_open)\<lparr>rng_pos := 16, db := d\<rparr>)"
    "core_inv d" "t_reservations d = [r]" "r_id r = run_id" "r_status r = PENDING" "r_version r = 1"
    "t_outbox d = [b]" "o_id b = run_id" "o_subject b = SubjectTicketReserved" "o_processed_at b = None"
    "decode_ticket_reserved (Some (o_payload b)) = Inr run_context"
proof -
  let ?w = "run_core ex_open" and ?c = "ReserveWrite run_command ex_now (ex_event 0)"
  have find: "find_event ex_open ex_event_id = Some (ex_event 0)"
    by (simp add: find_event_def ex_open_def) (simp add: ex_event_def)
  have fresh: "fresh_id (db ?w) ?w" by (simp add: fresh_id_def ex_open_def)
  have "\<exists>a d. reserve_write run_service run_command ex_now (ex_event 0) (?w\<lparr>tx := InTx s\<rparr>)
      = (Inr a, (?w\<lparr>tx := InTx s\<rparr>)\<lparr>rng_pos := rng_pos ?w + 16, db := d\<rparr>) \<and> gains ?w d" for s
    using reserve_write_gains [of "?w\<lparr>tx := InTx s\<rparr>" ex_now "15 * minute" ex_valid run_command ex_event_id "ex_event 0" None]
      ex_open_inv fresh run_acceptable find by (simp add: run_command_def healthy_def)
  from in_tx_run [of ?w, OF _ _ this] obtain a d where
    run: "WithinTx (write_phase run_service ?c) ?w = (Inr a, ?w\<lparr>rng_pos := 16, db := d\<rparr>)" and g: "gains ?w d"
    by (auto simp: run_core_def)
  have ids: "o_id ` set (t_outbox d) = {run_id}" using g by (simp add: gains_def run_ids ex_open_def)
  from run have pre: "tx ?w = NoTx" "core_inv (db ?w)" "pending_ok (db ?w) ?c" using ex_open_inv by simp_all
  from run pre show thesis
  proof (cases rule: write_phase_detail)
    case same
    with ids show ?thesis by (simp add: ex_open_def)
  next
    case (settled s e r b)
    then show ?thesis by (simp add: settles_def ex_open_def)
  next
    case (booked cmd now ev e r b cur a)
    have cmd: "cmd = run_command" "ev = ex_event 0" "now = ex_now" using booked(1) by simp_all
    have d: "t_reservations d = [r]" "t_outbox d = [b]" "r_status r = PENDING" "o_subject b = SubjectTicketReserved"
      "o_processed_at b = None"
      using booked(2) by (auto simp: books_def announces_def ex_open_def)
    have a: "r_id a = run_id" "r_user_id a = ''user-1''" "r_amount_cents a = 10000" "r_currency a = ''BRL''"
      "r_expires_at a = time_add ex_now (15 * minute)" "r_version a = 1"
      using booked(8) by (auto simp: requested_def cmd run_command_def ex_event_def run_id_def wrap64_def)
    have r: "r_id r = run_id" using booked(4) a(1) by simp
    have "r_version r = r_version a" by (subst booked(3)) (simp add: stored_def)
    moreover have "decode_ticket_reserved (Some (o_payload b)) = Inr run_context"
      using decode_TicketReserved [OF booked(5)] a by (simp add: run_context_def int64_def)
    moreover have "core_inv d" using booking_inv [OF pre(2) booked(2)] by simp
    ultimately show ?thesis using that [OF run] d r a(6) ids by simp
  qed
qed

lemma run_2:
  obtains s m1 m2 w r where "runs s" "pf_core s = (w, [])" "faults w = []" "tx w = NoTx" "core_inv (db w)"
    "fresh_id (db w) w" "t_reservations (db w) = [r]" "r_id r = run_id" "r_status r = PENDING" "r_version r = 1"
    "pf_pay s = run_pay \<lparr>t_outbox = [], t_payments = [], t_contexts = []\<rparr>" "pf_jobs s = []"
    "{m1, m2} \<subseteq> set (br_log (pf_bus s))" "n_subject m1 = SubjectPaymentProcess" "decode_payment_process (n_data m1) = Inr
      \<lparr>q_reservation_id = run_id, q_user_id = ''user-1'', q_token = ''tok''\<rparr>" "delivery_key m1 = ''k-1''"
    "n_subject m2 = SubjectTicketReserved" "decode_ticket_reserved (n_data m2) = Inr run_context"
proof -
  obtain s m0 m1 where r1: "runs s" and core: "pf_core s = (run_core ex_open, [])"
    and pay: "pf_pay s = run_pay \<lparr>t_outbox = [], t_payments = [], t_contexts = []\<rparr>" "pf_jobs s = []"
    and log: "br_log (pf_bus s) = [m0, m1]" and m0: "n_subject m0 = SubjectReservationReserve"
      "decode_reserve (n_data m0) = Inr run_command"
    and m1: "n_subject m1 = SubjectPaymentProcess" "decode_payment_process (n_data m1) = Inr
      \<lparr>q_reservation_id = run_id, q_user_id = ''user-1'', q_token = ''tok''\<rparr>" "delivery_key m1 = ''k-1''"
    by (rule run_1)
  let ?c = "ReserveWrite run_command ex_now (ex_event 0)"
  have find: "find_event ex_open ex_event_id = Some (ex_event 0)"
    by (simp add: find_event_def ex_open_def) (simp add: ex_event_def)
  have "core_step run_service (run_core ex_open, []) (run_core ex_open, [?c])"
  proof (rule core_step.read_reserve)
    show "sv_Event run_service (rc_event_id run_command) (run_core ex_open) = (Inr (ex_event 0), run_core ex_open)"
      using Event_run [of "run_core ex_open" ex_event_id ex_event_id "ex_event 0"] find
      by (simp add: run_command_def healthy_def)
  qed (simp_all add: run_command_def, simp add: SaleIsOpen_def time_before_def ex_event_def ex_now_def)
  then have "run_step s (s\<lparr>pf_core := (run_core ex_open, [?c])\<rparr>)"
    using core log m0 by (intro pf_step.core core_moves.consumes) auto
  from pf_reachable.step [OF r1 this] have r2: "runs (s\<lparr>pf_core := (run_core ex_open, [?c])\<rparr>)" (is "runs ?s2") .
  obtain x d r b where run: "WithinTx (write_phase run_service ?c) (run_core ex_open) = (x, (run_core ex_open)\<lparr>rng_pos := 16, db := d\<rparr>)"
    and d: "core_inv d" "t_reservations d = [r]" "r_id r = run_id" "r_status r = PENDING" "r_version r = 1"
    and b: "t_outbox d = [b]" "o_id b = run_id" "o_subject b = SubjectTicketReserved" "o_processed_at b = None"
      "decode_ticket_reserved (Some (o_payload b)) = Inr run_context"
    by (rule run_booking)
  let ?w = "(run_core ex_open)\<lparr>rng_pos := 16, db := d\<rparr>"
  have "core_step run_service (run_core ex_open, [?c]) (?w, remove1 ?c [?c])"
    by (rule core_step.write_commit [OF _ run]) simp
  then have "run_step ?s2 (?s2\<lparr>pf_core := (?w, [])\<rparr>)"
    by (intro pf_step.core core_moves.consumes) simp_all
  from pf_reachable.step [OF r2 this] have r3: "runs (?s2\<lparr>pf_core := (?w, [])\<rparr>)" (is "runs ?s3") .
  from pf_reachable.step [OF this pf_step.broker [where k = 2 and fs = "[]"]]
  have r4: "runs (?s3\<lparr>pf_bus := (pf_bus ?s3)\<lparr>br_old := 2, br_script := []\<rparr>\<rparr>)" (is "runs ?s4") .
  let ?v = "on_bus (pf_bus ?s4) ?w"
  have v: "ready ?v" "tx ?v = NoTx" "t_outbox (db ?v) = [b]"
    "br_old (pg_world.more ?v) = length (br_log (pg_world.more ?v))"
    by (simp_all add: ready_def healthy_def b(1) log)
  obtain y w' m2 where sweep: "relay_sweep (pg_relay (\<lambda>h. h) (\<lambda>_ _. 0) second 10) ?v = (y, w')"
    and m2: "br_log (pg_world.more w') = br_log (pg_world.more ?v) @ [m2]" "wire_sent m2 = sent_row b"
    and w': "uuid_in (o_id b) = Some (o_id b) \<longrightarrow> (\<exists>t. db w' = (db ?v)\<lparr>t_outbox := [b\<lparr>o_processed_at := Some t\<rparr>]\<rparr>
       \<and> faults w' = [] \<and> tx w' = NoTx \<and> rng w' = rng ?v \<and> rng_pos w' = rng_pos ?v)"
    by (rule relay_one [OF v(1-3) b(4) v(4)])
  have "run_step ?s4 (?s4\<lparr>pf_core := (w', snd (pf_core ?s4)), pf_bus := pg_world.more w'\<rparr>)"
    by (rule pf_step.core [OF core_moves.relays]) (use sweep in simp)
  from pf_reachable.step [OF r4 this] have r5: "runs (?s4\<lparr>pf_core := (w', []), pf_bus := pg_world.more w'\<rparr>)" (is "runs ?s5") by simp
  from w' b(2) obtain t where w': "db w' = d\<lparr>t_outbox := [b\<lparr>o_processed_at := Some t\<rparr>]\<rparr>"
    "faults w' = []" "tx w' = NoTx" "rng w' = run_bytes" "rng_pos w' = 16"
    by (auto simp: run_core_def)
  have "fst (uid_New w') = fst (uid_New ((run_core ex_open)\<lparr>rng_pos := 16\<rparr>))"
    by (simp add: uid_New_def w'(4,5)) (simp add: run_core_def)
  then have fresh: "fresh_id (db w') w'"
    unfolding fresh_id_def run_ids by (simp add: w'(1) b(2) run_id_def)
  have inv: "core_inv (db w')"
    using pf_inv_parts(1) [OF pf_reachable_inv [OF r5]]
    by (simp add: core_ok_def sys_inv_def acquirer_safe_def run_acquirer_def no_database_def)
  have data: "n_subject m2 = SubjectTicketReserved" "decode_ticket_reserved (n_data m2) = Inr run_context"
    using m2(2) b(3,5) by (simp_all add: wire_sent_def sent_row_def)
  show thesis
    by (rule that [OF r5 _ w'(2,3) inv fresh _ d(3-5) _ _ _ m1 data])
      (simp_all add: pay m2(1) log w'(1) d(2))
qed

text \<open>The payment: the projection lands, the charge is taken, its outcome is written.\<close>

definition run_row :: reservation_context where
  "run_row = run_context\<lparr>c_expires_at := timestamptz (c_expires_at run_context)\<rparr>"

definition run_projected :: payment_db where
  "run_projected = \<lparr>t_outbox = [], t_payments = [], t_contexts = [run_row]\<rparr>"

definition run_req :: payment_requested where
  "run_req = \<lparr>q_reservation_id = run_id, q_user_id = ''user-1'', q_token = ''tok''\<rparr>"

lemma run_pay_healthy [simp]: "healthy (run_pay d)"
  by (simp add: healthy_def)

lemma run_project:
  assumes "decode_ticket_reserved (m_payload msg) = Inr run_context"
  shows "onTicketReserved pg_contexts msg (run_pay \<lparr>t_outbox = [], t_payments = [], t_contexts = []\<rparr>)
    = (Inr (), run_pay run_projected)"
proof -
  let ?d = "\<lparr>t_outbox = [], t_payments = [], t_contexts = []\<rparr> :: payment_db"
  have "upsert_context run_context (pg_clock (run_pay ?d)) (db (run_pay ?d)) = (Inr 1, run_projected)"
    by (simp add: upsert_context_def run_row_def run_projected_def)
      (simp add: run_context_def char3_def text_ok_def Let_def find_context_def)
  from stmt_run [where f = "upsert_context run_context", OF run_pay_healthy this] show ?thesis
    using assms by (simp add: onTicketReserved_def pg_contexts_def Contexts_Upsert_def andThen_def wrapErr_def)
      (simp add: run_pay_def)
qed

lemma run_payable: "payable run_projected run_req run_row ''k-1''"
  by (simp add: payable_def run_req_def run_projected_def find_context_def run_row_def run_context_def text_ok_def)
    (simp add: run_id_def)

lemma run_row_simps [simp]: "c_user_id run_row = ''user-1''" "c_amount_cents run_row = 10000" "c_currency run_row = ''BRL''"
    "ex_now \<le> c_expires_at run_row" "text_ok run_id"
    "text_ok ''sim-1''"
  by (simp_all add: run_row_def run_context_def) (simp_all add: text_ok_def run_id_def, code_simp)

lemma run_fresh: "fresh_ids (run_pay run_projected)"
  by (simp add: fresh_ids_def run_projected_def)

lemma run_payment:
  obtains q d w' b where
    "loadOrCreate (payment_processor run_acquirer) run_req run_row ''k-1'' (run_pay run_projected)
      = (Inr q, (run_pay run_projected)\<lparr>rng_pos := 16, db := d\<rparr>)"
    "decide (payment_processor run_acquirer) None run_req run_row ''k-1'' q ((run_pay run_projected)\<lparr>rng_pos := 16, db := d\<rparr>)
      = (Inr (), w')"
    "t_outbox (db w') = [b]" "o_subject b = SubjectPaymentSucceeded" "o_processed_at b = None"
    "reservationRef (Some (o_payload b)) = Inr run_id"
proof -
  let ?w = "run_pay run_projected"
  let ?q = "new_payment run_req run_row ''k-1'' (fst (uid_New ?w))"
  have none: "find_payment (db ?w) ''k-1'' = None" by (simp add: find_payment_def run_projected_def)
  have pos: "rng_pos ?w + 16 = 16" by simp
  obtain d where l: "loadOrCreate (payment_processor run_acquirer) run_req run_row ''k-1'' ?w
      = (Inr ?q, ?w\<lparr>rng_pos := 16, db := d\<rparr>)"
    using loadOrCreate_new [OF _ _ none run_fresh, of run_req run_row run_acquirer] run_payable
    unfolding pos by auto
  let ?w1 = "?w\<lparr>rng_pos := 16, db := d\<rparr>"
  from loadOrCreate_loaded(2) [OF l] none obtain p where op: "opens (db ?w) ?q p d" by auto
  then have p: "copy_of ?q p" "t_outbox d = []" by (auto simp: opens_def run_projected_def)
  have "\<exists>w' st g e b. decide (payment_processor run_acquirer) None run_req run_row ''k-1'' ?q ?w1 = (Inr (), w')
    \<and> verdict_of (Inr ''sim-1'') = (st, g, e) \<and> decides (db ?w1) ?q st g e b (db w')"
    using p uid_uuid [of ?w]
    by (intro decide_run [OF _ _ _ _ _ _ _ _ _ run_fresh, where k = "p_id p"])
      (simp_all add: run_req_def run_acquirer_def new_payment_def copy_of_def printable_def acquirer_safe_def
        no_database_def run_projected_def)
  then obtain w' b where d: "decide (payment_processor run_acquirer) None run_req run_row ''k-1'' ?q ?w1 = (Inr (), w')"
    and dec: "decides d ?q PAY_SUCCEEDED ''sim-1'' '''' b (db w')"
    by (auto simp: verdict_of_def)
  show thesis
    by (rule that [OF l d]) (use dec p(2) in \<open>auto simp: decides_def adds_row_def set_status_def ref_PaymentOutcome
      new_payment_def run_req_def\<close>)
qed

lemma run_safe [simp]: "acquirer_safe run_acquirer"
  by (simp add: acquirer_safe_def run_acquirer_def no_database_def)

text \<open>The payment service handles both messages, and its relay publishes the outcome.\<close>

lemma run_3:
  obtains s m w r where "runs s" "pf_core s = (w, [])" "faults w = []" "tx w = NoTx" "core_inv (db w)"
    "fresh_id (db w) w" "t_reservations (db w) = [r]" "r_id r = run_id" "r_status r = PENDING" "r_version r = 1"
    "m \<in> set (br_log (pf_bus s))" "n_subject m = SubjectPaymentSucceeded" "reservationRef (n_data m) = Inr run_id"
proof -
  obtain s m1 m2 w r where r0: "runs s" and core: "pf_core s = (w, [])" "faults w = []" "tx w = NoTx" "core_inv (db w)"
      "fresh_id (db w) w" "t_reservations (db w) = [r]" "r_id r = run_id" "r_status r = PENDING" "r_version r = 1"
    and pay: "pf_pay s = run_pay \<lparr>t_outbox = [], t_payments = [], t_contexts = []\<rparr>" "pf_jobs s = []"
    and log: "{m1, m2} \<subseteq> set (br_log (pf_bus s))" and m1: "n_subject m1 = SubjectPaymentProcess"
      "decode_payment_process (n_data m1) = Inr \<lparr>q_reservation_id = run_id, q_user_id = ''user-1'', q_token = ''tok''\<rparr>"
      "delivery_key m1 = ''k-1''"
    and m2: "n_subject m2 = SubjectTicketReserved" "decode_ticket_reserved (n_data m2) = Inr run_context"
    by (rule run_2)
  let ?job = "Waited run_req run_row ''k-1''"
  have p1: "onTicketReserved pg_contexts (js_message m2) (pf_pay s) = (Inr (), run_pay run_projected)"
    unfolding pay(1) by (rule run_project) (simp add: js_message_def m2(2))
  have "run_step s (s\<lparr>pf_pay := run_pay run_projected\<rparr>)"
    using log by (intro pf_step.pay pay_moves.projects [OF _ m2(1) p1]) simp
  from pf_reachable.step [OF r0 this] have r1: "runs (s\<lparr>pf_pay := run_pay run_projected\<rparr>)" (is "runs ?s1") .
  have p2: "waitContext (payment_processor run_acquirer) None (q_reservation_id run_req) (pf_pay ?s1)
      = (Inr run_row, run_pay run_projected)"
    using run_payable waitContext_run [OF run_pay_healthy, of "q_reservation_id run_req"] by (auto simp: payable_def)
  have "run_step ?s1 (?s1\<lparr>pf_pay := run_pay run_projected, pf_jobs := ?job # pf_jobs ?s1\<rparr>)"
    using log m1(2) by (intro pf_step.pay pay_moves.waits [OF _ m1(1) _ p2])
      (simp_all add: run_req_def m1(3), simp add: run_id_def)
  from pf_reachable.step [OF r1 this] pay(2)
  have r2: "runs (s\<lparr>pf_pay := run_pay run_projected, pf_jobs := [?job]\<rparr>)" (is "runs ?s2") by simp
  obtain q d w' b where
    p3: "loadOrCreate (payment_processor run_acquirer) run_req run_row ''k-1'' (run_pay run_projected)
      = (Inr q, (run_pay run_projected)\<lparr>rng_pos := 16, db := d\<rparr>)"
    and p4: "decide (payment_processor run_acquirer) None run_req run_row ''k-1'' q ((run_pay run_projected)\<lparr>rng_pos := 16, db := d\<rparr>)
      = (Inr (), w')"
    and b: "t_outbox (db w') = [b]" "o_subject b = SubjectPaymentSucceeded" "o_processed_at b = None"
      "reservationRef (Some (o_payload b)) = Inr run_id"
    by (rule run_payment)
  let ?w1 = "(run_pay run_projected)\<lparr>rng_pos := 16, db := d\<rparr>" and ?opened = "Opened run_req run_row ''k-1'' q"
  have "run_step ?s2 (?s2\<lparr>pf_pay := ?w1, pf_jobs := ?opened # remove1 ?job (pf_jobs ?s2)\<rparr>)"
    using p3 by (intro pf_step.pay pay_moves.opens_payment) simp_all
  from pf_reachable.step [OF r2 this]
  have r3: "runs (s\<lparr>pf_pay := ?w1, pf_jobs := [?opened]\<rparr>)" (is "runs ?s3") by simp
  have "run_step ?s3 (?s3\<lparr>pf_pay := w', pf_jobs := remove1 ?opened (pf_jobs ?s3)\<rparr>)"
    using p4 by (intro pf_step.pay pay_moves.decides_payment) simp_all
  from pf_reachable.step [OF r3 this]
  have r4: "runs (s\<lparr>pf_pay := w', pf_jobs := []\<rparr>)" (is "runs ?s4") by simp
  have tx: "tx w' = NoTx" using pf_inv_parts(2) [OF pf_reachable_inv [OF r4 run_safe]] by (simp add: pay_ok_def)
  let ?w2 = "w'\<lparr>wall := 0, pg_clock := 0, faults := []\<rparr>" and ?b = "(pf_bus s)\<lparr>br_old := length (br_log (pf_bus s)), br_script := []\<rparr>"
  from pf_reachable.step [OF r4 pf_step.pay [OF pay_moves.environs [where t = 0 and t' = 0 and fs = "[]"]]]
  have r5: "runs (s\<lparr>pf_jobs := [], pf_pay := ?w2\<rparr>)" (is "runs ?s5") by simp
  from pf_reachable.step [OF r5 pf_step.broker [where k = "length (br_log (pf_bus s))" and fs = "[]"]]
  have r6: "runs (s\<lparr>pf_jobs := [], pf_pay := ?w2, pf_bus := ?b\<rparr>)" (is "runs ?s6") by simp
  let ?v = "on_bus ?b ?w2"
  have v: "ready ?v" "tx ?v = NoTx" "t_outbox (db ?v) = [b]" "br_old (pg_world.more ?v) = length (br_log (pg_world.more ?v))"
    using tx b(1) by (simp_all add: ready_def healthy_def)
  obtain y w3 m where sweep: "relay_sweep (pg_relay (\<lambda>h. h) (\<lambda>_ _. 0) second 10) ?v = (y, w3)"
    and m: "br_log (pg_world.more w3) = br_log (pg_world.more ?v) @ [m]" "wire_sent m = sent_row b"
    by (rule relay_one [OF v(1-3) b(3) v(4)])
  have "run_step ?s6 (?s6\<lparr>pf_pay := w3, pf_bus := pg_world.more w3\<rparr>)"
    using sweep by (intro pf_step.pay pay_moves.relays) simp
  from pf_reachable.step [OF r6 this]
  have r7: "runs (s\<lparr>pf_jobs := [], pf_pay := w3, pf_bus := pg_world.more w3\<rparr>)" by simp
  show thesis
    by (rule that [OF r7 _ core(2-9), of m]) (use core(1) m b in \<open>simp_all add: wire_sent_def sent_row_def\<close>)
qed

lemma settlement_confirms:
  assumes "settles d CONFIRMED e r b d'"
  shows "\<exists>x\<in>set (t_reservations d'). r_status x = CONFIRMED"
proof (rule settlement_parts [OF assms])
  fix c u
  assume "set (t_reservations d') = insert (r\<lparr>r_status := CONFIRMED, r_confirmed_at := c,
    r_version := r_version r + 1, r_updated_at := u\<rparr>) {x \<in> set (t_reservations d). r_id x \<noteq> r_id r}"
  then show ?thesis by simp
qed

text \<open>The core hears of the payment and confirms.\<close>

lemma run_4:
  obtains s r where "runs s" "r \<in> set (t_reservations (db (fst (pf_core s))))" "r_status r = CONFIRMED"
proof -
  obtain s m w r where r0: "runs s" and core: "pf_core s = (w, [])" and w: "faults w = []" "tx w = NoTx"
    and inv: "core_inv (db w)" "fresh_id (db w) w" and r: "t_reservations (db w) = [r]" "r_id r = run_id"
      "r_status r = PENDING" "r_version r = 1"
    and m: "m \<in> set (br_log (pf_bus s))" "n_subject m = SubjectPaymentSucceeded" "reservationRef (n_data m) = Inr run_id"
    by (rule run_3)
  let ?c = "ConfirmWrite r"
  have load: "load run_service (r_id r) v = (Inr r, v)" if "healthy v" "db v = db w" for v
    using load_run [OF that(1), of r "15 * minute" None ex_valid] that(2) inv(1) r(1) by simp
  have "core_step run_service (pf_core s) (w, [?c])"
    unfolding core by (rule core_step.read_confirm [OF load]) (simp_all add: healthy_def w)
  then have "run_step s (s\<lparr>pf_core := (w, [?c])\<rparr>)"
    using m r(2) by (intro pf_step.core core_moves.consumes) auto
  from pf_reachable.step [OF r0 this] have r1: "runs (s\<lparr>pf_core := (w, [?c])\<rparr>)" (is "runs ?s1") .
  have "\<exists>res d. write_phase run_service ?c (w\<lparr>tx := InTx t\<rparr>)
      = (Inr res, (w\<lparr>tx := InTx t\<rparr>)\<lparr>rng_pos := rng_pos w + 16, db := d\<rparr>) \<and> gains w d" for t
    using confirm_run [of "w\<lparr>tx := InTx t\<rparr>" r "15 * minute" None ex_valid] load [of "w\<lparr>tx := InTx t\<rparr>"] w inv r
    by (simp add: confirm_def andThen_def)
  from in_tx_run [OF w this] obtain res d where
    run: "WithinTx (write_phase run_service ?c) w = (Inr res, w\<lparr>rng_pos := rng_pos w + 16, db := d\<rparr>)" by blast
  let ?w = "w\<lparr>rng_pos := rng_pos w + 16, db := d\<rparr>"
  have "core_step run_service (w, [?c]) (?w, remove1 ?c [?c])"
    by (rule core_step.write_commit [OF _ run]) simp
  then have "run_step ?s1 (?s1\<lparr>pf_core := (?w, [])\<rparr>)"
    by (intro pf_step.core core_moves.consumes) simp_all
  from pf_reachable.step [OF r1 this] have r2: "runs (s\<lparr>pf_core := (?w, [])\<rparr>)" by simp
  obtain w2 where w2: "confirm_loaded run_service r (begun w) = (Inr res, w2)" "d = db w2"
    by (rule unit_success [OF run w(2)]) (simp_all add: tx_keep)
  have "\<exists>e b. settles (db w) CONFIRMED e r b d"
    using pg.confirm_loaded_settles [OF w2(1)] inv(1) r w2(2) by (auto simp: core_inv_def seen_def)
  then obtain e b where st: "settles (db w) CONFIRMED e r b d" by blast
  from settlement_confirms [OF st]
  obtain x where "x \<in> set (t_reservations d)" "r_status x = CONFIRMED" by blast
  then show thesis by (intro that [OF r2]) simp_all
qed

end
