(* ===== verification/Platform_Properties.thy ===== *)
theory Platform_Properties
  imports Platform_Run
begin

text \<open>
  What holds of the platform as a whole, in every state the five services can reach together, whatever
  the broker delivers and whatever fails.  The witnesses are the run of \<open>Platform_Run\<close>.
\<close>

lemma reservation_of_ticket:
  assumes "pf_inv tokens q s" "r \<in> set (t_reservations (db (fst (pf_core s))))"
    and "ticket (db (fst (pf_core s))) (r_id r) u a"
  shows "r_user_id r = u \<and> r_amount_cents r = a"
proof -
  have "wf_core (db (fst (pf_core s)))"
    using pf_inv_parts(1) [OF assms(1)] by (simp add: core_ok_def sys_inv_def core_inv_def)
  then have "distinct (map r_id (t_reservations (db (fst (pf_core s)))))" by (simp add: wf_core_def)
  with assms(2,3) show ?thesis by (auto simp: ticket_def dest: distinct_key_eq)
qed

text \<open>C2: No seat is sold without a payment.  In every reachable state of the platform (gateway, broker,
  core, payment service, relays and sweeper, with deliveries repeated, reordered or late, statements,
  commits and publications failing, and processes losing what they have in flight), a confirmed reservation
  has a payment in the payment service's table, of this reservation, by its user and of its amount, and the
  payment service's outbox has the payment.succeeded event of that payment.\<close>

theorem sold_seats_are_paid:
  assumes "pf_reachable ttl v acq inject tokens q s" "acquirer_safe acq"
    and "r \<in> set (t_reservations (db (fst (pf_core s))))" "r_status r = CONFIRMED"
  shows "\<exists>p\<in>set (t_payments (db (pf_pay s))). p_reservation_id p = r_id r \<and> p_user_id p = r_user_id r
    \<and> p_amount_cents p = r_amount_cents r
    \<and> (\<exists>b\<in>set (t_outbox (db (pf_pay s))). o_subject b = SubjectPaymentSucceeded
        \<and> (\<exists>gatewayRef reason. reports b p gatewayRef reason))"
proof -
  note inv = pf_reachable_inv [OF assms(1,2)]
  have "paid (db (pf_pay s)) (r_id r)"
    using pf_inv_parts(1) [OF inv] assms(3,4) by (auto simp: core_ok_def tables_ok_def)
  then obtain p where p: "p \<in> set (t_payments (db (pf_pay s)))" "p_reservation_id p = r_id r"
    "\<exists>b\<in>set (t_outbox (db (pf_pay s))). o_subject b = SubjectPaymentSucceeded \<and> (\<exists>g e. reports b p g e)"
    by (auto simp: paid_def)
  have "ticket (db (fst (pf_core s))) (r_id r) (p_user_id p) (p_amount_cents p)"
    using pf_inv_parts(2) [OF inv] p(1,2) by (auto simp: pay_ok_def books_ok_def)
  from reservation_of_ticket [OF inv assms(3) this] p show ?thesis by auto
qed

theorem sold_seats_are_paid_witness:
  "\<exists>s. runs s \<and> (\<exists>r\<in>set (t_reservations (db (fst (pf_core s)))). r_status r = CONFIRMED
    \<and> (\<exists>p\<in>set (t_payments (db (pf_pay s))). p_reservation_id p = r_id r
        \<and> p_amount_cents p = r_amount_cents r))"
proof (rule run_4)
  fix s r
  assume "runs s" "r \<in> set (t_reservations (db (fst (pf_core s))))" "r_status r = CONFIRMED"
  then show ?thesis using sold_seats_are_paid [where s = s and r = r, OF _ run_safe] by blast
qed

text \<open>C3: Every booking is of a caller the gateway knows.  In every reachable state of the platform each
  reservation is by a user of the gateway's token table and of one to the gateway's limit of tickets, and
  each payment is of a reservation of the core, by its user and of its amount: the amount charged never
  comes from a client.\<close>

theorem bookings_are_authentic:
  assumes "pf_reachable ttl v acq inject tokens q s" "acquirer_safe acq"
  shows "(r \<in> set (t_reservations (db (fst (pf_core s)))) \<longrightarrow>
      r_user_id r \<in> ran tokens \<and> 1 \<le> r_quantity r \<and> r_quantity r \<le> q)
    \<and> (p \<in> set (t_payments (db (pf_pay s))) \<longrightarrow>
      (\<exists>r\<in>set (t_reservations (db (fst (pf_core s)))). r_id r = p_reservation_id p
        \<and> r_user_id r = p_user_id p \<and> r_amount_cents r = p_amount_cents p))"
  using pf_inv_parts(1,2) [OF pf_reachable_inv [OF assms]]
  by (auto simp: core_ok_def tables_ok_def admitted_def pay_ok_def books_ok_def ticket_def)

theorem bookings_are_authentic_witness:
  "\<exists>s. runs s \<and> (\<exists>r\<in>set (t_reservations (db (fst (pf_core s)))). r_user_id r \<in> ran run_tokens \<and> r_quantity r \<le> 8)"
proof (rule run_4)
  fix s r
  assume "runs s" "r \<in> set (t_reservations (db (fst (pf_core s))))"
  with bookings_are_authentic [OF _ run_safe, of "15 * minute" ex_valid "\<lambda>h. h" run_tokens 8 s r] show ?thesis
    by blast
qed

end
