(* ===== verification/Spec2Isabelle.thy ===== *)
theory Spec2Isabelle
  imports EventBus Core_Properties Payment_Properties Relay_Properties Holds_Properties Chrono_Properties
    Gateway_Properties Redelivery_Properties Boot_Properties Platform_Properties
begin

text \<open>
  PulsarPass sells tickets without overbooking.  Five Go services talk over NATS JetStream and keep their
  state in PostgreSQL.  The gateway turns HTTP requests into commands; the core books seats and settles
  reservations; the payment service charges and announces the outcome; horizon relays the events that
  both write to their outbox tables; chrono announces the reservations whose window has elapsed.  Redis
  holds are an accelerator that nothing depends on.  Everything between the services is delivered at
  least once, may be repeated and reordered, and any round trip may fail or lose its reply.

  The theories, from the bottom.

  \<^item> \<open>Prelude\<close>: the error values of the code, operations \<open>('s, 'a) op\<close> that give an error or a value together
    with the next state, and the rules the other theories share.  \<open>Go_Text\<close>, \<open>Go_Time\<close>, \<open>Runtime\<close>, \<open>Json\<close>,
    \<open>Http\<close>: what is used of Go's strings, time (with the calendar of RFC 3339), random source, contexts,
    \<open>encoding/json\<close> and \<open>net/http\<close>; \<open>Runtime\<close> also holds \<open>pkg/uid\<close> and the record of observations
    (counters, log lines, spans).
  \<^item> \<open>Envelope\<close>, \<open>EventBus\<close>, \<open>Broker\<close>, \<open>Redelivery\<close>: \<open>pkg/envelope\<close>, \<open>pkg/eventbus\<close>, \<open>internal/broker\<close>.  The
    interface \<open>eventbus.Publisher\<close> is the locale \<open>publisher\<close>, the server behind it the locale
    \<open>nats_server\<close>, met by a reference server with a script of failures and a deduplication window.
  \<^item> \<open>Postgres\<close>, \<open>Outbox\<close>: \<open>pkg/pgtx\<close>, with statements that may fail before or after they took effect, and
    the outbox table both databases have.
  \<^item> The core: \<open>Domain\<close> (\<open>internal/core/domain\<close>), \<open>Core_Store\<close> (the schema and \<open>adapter/postgres\<close>),
    \<open>Core_Service\<close> (\<open>application\<close>), \<open>Core_Subscribers\<close> (\<open>subscribers.go\<close>).  \<open>Ledger\<close> states what the tables
    promise, \<open>Core_Contract\<close> the locale of the repositories and what the write phases do to them,
    \<open>Core_System\<close> the service with any number of interleaved use cases as a step relation, \<open>Core_Progress\<close>
    the runs that succeed, \<open>Core_Properties\<close> the properties, on the samples of \<open>Core_Example\<close>.
  \<^item> The payment service: \<open>Payment_Store\<close>, \<open>Payment\<close>, \<open>Payment_Ledger\<close>, \<open>Payment_System\<close>, \<open>Payment_Progress\<close>
    and \<open>Payment_Properties\<close>, on the same plan (\<open>internal/payment\<close>).
  \<^item> The relay: \<open>Horizon\<close>, \<open>Relay_System\<close>, \<open>Relay_Properties\<close> (\<open>internal/horizon\<close>).
  \<^item> The holds: \<open>Holds\<close>, \<open>Holds_System\<close>, \<open>Holds_Properties\<close> (\<open>internal/holds\<close>).
  \<^item> The sweeper: \<open>Chrono\<close>, \<open>Chrono_System\<close>, \<open>Chrono_Properties\<close> (\<open>internal/chrono\<close>).
  \<^item> The gateway: \<open>Gateway\<close>, \<open>Gateway_System\<close>, \<open>Gateway_Properties\<close> (\<open>internal/gateway\<close>).
  \<^item> The composition: \<open>Wire\<close> (what the consumers decode from what the producers encode), \<open>Platform\<close> (the
    five services over one broker as a step relation, and the invariant that ties their databases to each
    other and to the messages between them), \<open>Platform_Run\<close> (a run from the empty databases to a sold
    ticket) and \<open>Platform_Properties\<close>.
  \<^item> Starting up: \<open>Config\<close> (\<open>pkg/config\<close> and every \<open>config.go\<close>), \<open>Telemetry\<close> (\<open>pkg/metrics\<close>, \<open>pkg/health\<close>,
    \<open>pkg/pgpool\<close>, \<open>pkg/logger\<close>), \<open>Boot\<close> (\<open>cmd/*/main.go\<close>) and \<open>Boot_Properties\<close>.

  How the state corresponds.  A table is a list of rows in insertion order; a database is the record of
  its tables; a process with its connection is \<open>pg_world\<close>: the clock, the random source, the
  observations, the committed database, the open transaction and the fate of the next round trips.  Go
  structs are records under their field names with a prefix, \<open>int\<close> is an integer with the range of
  \<open>int64\<close> or \<open>int4\<close> checked or wrapped where the code or the column does, a random byte is an
  \<open>8 word\<close>, an instant is its number of nanoseconds, and a JSON text is its syntax tree.

  What the properties show, by their numbers in the text blocks.

  \<^item> The core (\<open>Core_Properties\<close>): no overbooking and exact counters in every reachable state of the
    concurrent system; the refinement of an abstract seat book; exactly one outbox record per transition;
    final settlements; one active reservation per user and event; atomicity of every use case under any
    failure; that a pending reservation can always be settled, and as what; refusals and the acceptance of
    commands; replays, which change no table, and what they ask of the hold store.
  \<^item> The payment service (\<open>Payment_Properties\<close>): decided payments and outcome events correspond in every
    reachable state; decisions are final for later deliveries; nobody is charged twice, too late, for
    another's reservation or at a price of the client's choice; the inline wait is bounded.  Two
    properties state what the code does where it loses money: a stale delivery overturns a decision, and
    a shared key pays nothing.
  \<^item> The relay, the holds and the sweeper: at least once, effectively once within the deduplication
    window, in order, and the backlog drains; the use cases do not depend on Redis, whose outages cost a
    bounded number of calls however many callers share the store; the sweeper announces the oldest batch
    of overdue reservations and no others, and after the core has consumed its events they are EXPIRED,
    the rest is untouched or was past its window too, and the seats are back.
  \<^item> The gateway: requests are decided as a flat description says, the user of a command is the one the
    token proves, every request gets one status, and every consumer decodes what the producer encoded.
  \<^item> The platform as a whole: a confirmed reservation has a payment of its own in the other database, of its
    amount and by its user, whose success was published; every reservation is of a caller the gateway
    knows and within its limit, and every payment is of a reservation of the core at the core's price.
    Consumers take any message of their subject from the broker's log, any number of times and in any
    order, and every round trip may fail.
  \<^item> Redelivery and starting up: ten deliveries and 11.85 seconds of pauses settle any message, and what
    that means for commands before the sale opens; the token table is the configured one; every way out
    of a service closes what it opened; no observability provider is lost, also when \<open>Shutdown\<close>, which
    stops the providers outside its mutex, overlaps with other calls.

  Bounds and fuel.  No definition runs out of fuel: loops are structural recursion over the batch, the
  attempts or the budget.  \<open>deliveries\<close> takes the budget as an argument, ten under the configuration of
  the services; \<open>relay_run\<close> and \<open>chrono_Run\<close> take a number of ticks, since the code runs them until the
  process ends, and have no result for an interval on which \<open>time.NewTicker\<close> panics; \<open>consumeLoop\<close> takes the rounds that happen; the inline wait of the payment service has
  its three attempts from the code; \<open>ParseDuration\<close> terminates because every term shortens the text.

  Not modelled, or a parameter: the NATS server, Redis, the acquirer, the OpenTelemetry SDK and its trace
  propagator, \<open>uuid.Validate\<close>, the text form of floats and the rounding of the pending age are
  parameters, with what is relied on stated as locales or hypotheses.  So is the order in which the
  database returns rows whose sort key is equal (\<open>tie\<close>): the relay's batch is ordered by \<open>created_at\<close> and the
  sweeper's by \<open>expires_at\<close> alone.  Texts are lists of bytes; the strings that reach \<open>json.Marshal\<close> are taken
  to be valid UTF-8 (it would replace anything else by U+FFFD), and white space is that of ASCII.  Left out are log output other than
  the lines of the HTTP middleware and the development bus, the lazily created instruments and the
  names of histograms' buckets, sockets and HTTP framing, the goroutines behind the loops (their
  interleavings are the step relations: the use cases of the core, the deliveries of the payment service,
  the callers of the breaker and of the hold store, the calls of \<open>pkg/metrics\<close>), a panic in a goroutine, and the redelivery of a message whose
  handler outlives the acknowledgement window.  \<open>internal/testinfra\<close> and the tests are not modelled;
  the tables \<open>processed_messages\<close> and \<open>tickets\<close> are never used by the code.
\<close>

end
